(* ===== verification/Prelude.thy ===== *)
theory Prelude
  imports
    Main
    "HOL-Library.Word"
    "HOL-Library.AList"
    "HOL-Library.List_Lexorder"
    "HOL-Library.Char_ord"
    "HOL-Library.Sublist"
begin

text \<open>
  Shared vocabulary of the development: bytes and Go strings, the big-endian integer
  encodings of \<^verbatim>\<open>encoding/binary\<close>, \<^verbatim>\<open>io.ReadFull\<close> on an in-memory reader, 64-bit
  wrap-around, and the list, association-list and arithmetic lemmas that the components
  use.  Go's \<^verbatim>\<open>[]byte\<close> is \<open>8 word list\<close>, a Go \<^verbatim>\<open>string\<close> is \<open>string\<close> (one \<open>char\<close> per
  byte), a Go map whose iteration matters is an association list with distinct keys.
  \<^verbatim>\<open>uint64\<close> values are naturals and \<^verbatim>\<open>int64\<close> values integers, with the reductions
  \<open>u64\<close> and \<open>s64\<close> written out where an operation can wrap.
\<close>

section \<open>Types\<close>

type_synonym byte = "8 word"
type_synonym bytes = "byte list"
type_synonym time = int  \<comment> \<open>nanoseconds since the Unix epoch\<close>

named_theorems len_simps \<open>lengths of encoded fields\<close>
named_theorems codec_simps \<open>reading back what an encoder wrote\<close>

section \<open>Machine integers\<close>

definition u64 :: "nat \<Rightarrow> nat" where
  "u64 n = n mod 2 ^ 64"

definition s64 :: "int \<Rightarrow> int" where
  "s64 i = (let r = i mod 2 ^ 64 in if r < 2 ^ 63 then r else r - 2 ^ 64)"

definition in_s64 :: "int \<Rightarrow> bool" where
  "in_s64 i \<longleftrightarrow> - (2 ^ 63) \<le> i \<and> i < 2 ^ 63"

text \<open>The conversion \<^verbatim>\<open>uint64(x)\<close> of an \<^verbatim>\<open>int64\<close>.\<close>

definition u64_of_int :: "int \<Rightarrow> nat" where
  "u64_of_int i = nat (i mod 2 ^ 64)"

lemma u64_id [simp]: "n < 18446744073709551616 \<Longrightarrow> u64 n = n"
  by (simp add: u64_def)

lemma u64_bound [simp]: "u64 n < 18446744073709551616"
  by (simp add: u64_def)

lemma mod_64_cases:
  "0 \<le> i mod (2 ^ 64 :: int) \<and> i mod (2 ^ 64 :: int) < 2 ^ 64"
  by simp

lemma s64_id [simp]: "in_s64 i \<Longrightarrow> s64 i = i"
proof (cases "0 \<le> i")
  case True
  assume "in_s64 i"
  with True have "i mod 2 ^ 64 = i" by (intro mod_pos_pos_trivial) (simp_all add: in_s64_def)
  with \<open>in_s64 i\<close> show ?thesis by (simp add: s64_def in_s64_def)
next
  case False
  assume "in_s64 i"
  with False have "(i + 2 ^ 64) mod 2 ^ 64 = i + 2 ^ 64"
    by (intro mod_pos_pos_trivial) (simp_all add: in_s64_def)
  then have "i mod 2 ^ 64 = i + 2 ^ 64" by (simp only: mod_add_self2)
  with False \<open>in_s64 i\<close> show ?thesis by (simp add: s64_def in_s64_def)
qed

lemma in_s64_s64 [simp]: "in_s64 (s64 i)"
proof -
  define r where "r = i mod 2 ^ 64"
  have "0 \<le> r" and "r < 2 ^ 64" using mod_64_cases [of i] by (simp_all only: r_def)
  moreover have "s64 i = (if r < 2 ^ 63 then r else r - 2 ^ 64)"
    by (simp only: s64_def r_def Let_def)
  ultimately show ?thesis by (simp add: in_s64_def)
qed

lemma u64_of_int_bound [simp]: "u64_of_int i < 18446744073709551616"
  using mod_64_cases [of i] by (simp add: u64_of_int_def nat_less_iff)

lemma s64_u64_of_int [simp]: "s64 (int (u64_of_int i)) = s64 i"
proof -
  have "int (u64_of_int i) = i mod 2 ^ 64"
    using mod_64_cases [of i] by (simp only: u64_of_int_def int_nat_eq if_True)
  then show ?thesis by (simp only: s64_def mod_mod_trivial)
qed

section \<open>Strings and bytes\<close>

definition str_bytes :: "string \<Rightarrow> bytes" where
  "str_bytes s = map (\<lambda>c. word_of_nat (of_char c)) s"

definition bytes_str :: "bytes \<Rightarrow> string" where
  "bytes_str bs = map (\<lambda>b. char_of (unat b)) bs"

lemma bytes_str_str_bytes [simp]: "bytes_str (str_bytes s) = s"
proof -
  have "char_of (unat (word_of_nat (of_char c) :: byte)) = c" for c
    using nat_of_char_less_256 [of c] by (simp add: unat_of_nat)
  then show ?thesis by (simp add: bytes_str_def str_bytes_def o_def)
qed

lemma length_str_bytes [simp, len_simps]: "length (str_bytes s) = length s"
  by (simp add: str_bytes_def)

section \<open>Big-endian integers (encoding/binary)\<close>

text \<open>
  \<open>be_bytes n v\<close> is what \<^verbatim>\<open>binary.BigEndian.AppendUint16/32/64\<close> append for \<open>n = 2, 4, 8\<close>:
  the low \<open>8 n\<close> bits of \<open>v\<close>, most significant byte first.
\<close>

fun be_bytes :: "nat \<Rightarrow> nat \<Rightarrow> bytes" where
  "be_bytes 0 v = []"
| "be_bytes (Suc n) v = be_bytes n (v div 256) @ [word_of_nat v]"

definition be_val :: "bytes \<Rightarrow> nat" where
  "be_val bs = foldl (\<lambda>a b. a * 256 + unat b) 0 bs"

lemma length_be_bytes [simp, len_simps]: "length (be_bytes n v) = n"
  by (induction n v rule: be_bytes.induct) simp_all

lemma be_bytes_eq_Nil [simp]: "be_bytes n v = [] \<longleftrightarrow> n = 0"
  by (cases n) simp_all

lemma be_val_snoc: "be_val (bs @ [b]) = be_val bs * 256 + unat b"
  by (simp add: be_val_def)

lemma be_val_be_bytes: "be_val (be_bytes n v) = v mod 256 ^ n"
proof (induction n v rule: be_bytes.induct)
  case (1 v)
  show ?case by (simp add: be_val_def)
next
  case (2 n v)
  have "be_val (be_bytes (Suc n) v) = (v div 256) mod 256 ^ n * 256 + v mod 256"
    by (simp add: be_val_snoc 2 unat_of_nat)
  also have "\<dots> = v mod (256 * 256 ^ n)"
    by (simp add: mod_mult2_eq)
  finally show ?case by simp
qed

lemma be_val_be_bytes_id [simp, codec_simps]: "v < 256 ^ n \<Longrightarrow> be_val (be_bytes n v) = v"
  by (simp add: be_val_be_bytes)

section \<open>Reading from an in-memory reader\<close>

text \<open>
  Decoding failures: \<^verbatim>\<open>io.EOF\<close>, \<^verbatim>\<open>io.ErrUnexpectedEOF\<close>, and the checksum or layout error
  of a log (\<^verbatim>\<open>wal.ErrCorruptRecord\<close>, \<^verbatim>\<open>errCorruptLogEntry\<close>).
\<close>

datatype decode_error = EOF | ErrUnexpectedEOF | ErrCorrupt

definition ReadFull :: "nat \<Rightarrow> bytes \<Rightarrow> decode_error + (bytes \<times> bytes)" where
  "ReadFull n r =
     (if n \<le> length r then Inr (take n r, drop n r)
      else if r = [] then Inl EOF else Inl ErrUnexpectedEOF)"

lemma ReadFull_append [simp, codec_simps]:
  "length xs = n \<Longrightarrow> ReadFull n (xs @ ys) = Inr (xs, ys)"
  by (simp add: ReadFull_def)

lemma ReadFull_all [simp, codec_simps]: "length xs = n \<Longrightarrow> ReadFull n xs = Inr (xs, [])"
  by (simp add: ReadFull_def)

lemma ReadFull_Inr:
  "ReadFull n r = Inr (xs, ys) \<Longrightarrow> r = xs @ ys \<and> length xs = n"
  by (auto simp: ReadFull_def split: if_splits)

lemma ReadFull_short: "length r < n \<Longrightarrow> \<exists>e. ReadFull n r = Inl e \<and> e \<noteq> ErrCorrupt"
  by (simp add: ReadFull_def)

text \<open>\<^verbatim>\<open>binary.Read\<close> of a fixed-size unsigned integer of \<open>n\<close> bytes.\<close>

definition ReadUint :: "nat \<Rightarrow> bytes \<Rightarrow> decode_error + (nat \<times> bytes)" where
  "ReadUint n r =
     (case ReadFull n r of Inl e \<Rightarrow> Inl e | Inr (bs, r') \<Rightarrow> Inr (be_val bs, r'))"

lemma ReadUint_append [simp, codec_simps]:
  "v < 256 ^ n \<Longrightarrow> ReadUint n (be_bytes n v @ ys) = Inr (v, ys)"
  by (simp add: ReadUint_def)

lemma ReadUint_mod: "ReadUint n (be_bytes n v @ ys) = Inr (v mod 256 ^ n, ys)"
  by (simp add: ReadUint_def be_val_be_bytes)

text \<open>One byte: \<^verbatim>\<open>byte(n)\<close> appended, and read back by \<^verbatim>\<open>ReadByte\<close>.\<close>

definition byte_of :: "nat \<Rightarrow> byte" where
  "byte_of n = word_of_nat n"

definition ReadByte :: "bytes \<Rightarrow> decode_error + (nat \<times> bytes)" where
  "ReadByte r = (case r of [] \<Rightarrow> Inl EOF | b # r' \<Rightarrow> Inr (unat b, r'))"

lemma unat_byte_of: "unat (byte_of n) = n mod 256"
  by (simp add: byte_of_def unat_of_nat)

lemma ReadByte_cons [simp, codec_simps]: "n < 256 \<Longrightarrow> ReadByte (byte_of n # ys) = Inr (n, ys)"
  by (simp add: ReadByte_def unat_byte_of)

section \<open>Lists and association lists\<close>

lemma map_of_update [simp]: "map_of (AList.update k v al) = (map_of al)(k \<mapsto> v)"
  by (rule update_conv')

lemma map_of_delete [simp]: "map_of (AList.delete k al) = (map_of al)(k := None)"
  by (rule delete_conv')

lemma distinct_update_keys [simp]:
  "distinct (map fst al) \<Longrightarrow> distinct (map fst (AList.update k v al))"
  by (rule distinct_update)

lemma distinct_delete_keys [simp]:
  "distinct (map fst al) \<Longrightarrow> distinct (map fst (AList.delete k al))"
  by (rule distinct_delete)

lemma option_ext: "(\<And>x. (a = Some x) = (b = Some x)) \<Longrightarrow> a = b"
  by (cases a; cases b) auto

lemma prefix_append_cases:
  "prefix p (xs @ ys) \<Longrightarrow> (prefix p xs \<and> p \<noteq> xs) \<or> (\<exists>q. p = xs @ q \<and> prefix q ys)"
  unfolding prefix_def by (auto simp: append_eq_append_conv2)

end
