(* ===== verification/Crc32.thy ===== *)
theory Crc32
  imports Prelude
begin

text \<open>
  \<^verbatim>\<open>hash/crc32.ChecksumIEEE\<close>, which guards every WAL record and every persisted Raft log
  entry: the reflected CRC-32 with polynomial \<open>0xEDB88320\<close>, initial value and final
  complement \<open>0xFFFFFFFF\<close>, one bit at a time.  The register update is injective in the
  register and in the input byte, so a single damaged byte always changes the checksum.
\<close>

unbundle bit_operations_syntax

section \<open>The checksum\<close>

definition crc_poly :: "32 word" where
  "crc_poly = 0xEDB88320"

definition crc_bit :: "32 word \<Rightarrow> 32 word" where
  "crc_bit c = (if bit c 0 then drop_bit 1 c XOR crc_poly else drop_bit 1 c)"

definition crc_byte :: "32 word \<Rightarrow> byte \<Rightarrow> 32 word" where
  "crc_byte c b = (crc_bit ^^ 8) (c XOR ucast b)"

definition ChecksumIEEE :: "bytes \<Rightarrow> nat" where
  "ChecksumIEEE bs = unat (NOT (foldl crc_byte (NOT 0) bs))"

lemma ChecksumIEEE_bound [simp]: "ChecksumIEEE bs < 4294967296"
  using unsigned_less [of "NOT (foldl crc_byte (NOT 0) bs)"] by (simp add: ChecksumIEEE_def)

section \<open>A single damaged byte changes the checksum\<close>

lemma bit_crc_bit_top: "bit (crc_bit c) 31 = bit c 0"
proof -
  have "\<not> bit c 32" using bit_imp_le_length [of c 32] by auto
  then show ?thesis
    by (simp add: crc_bit_def crc_poly_def bit_simps)
qed

lemma word_xor_cancel: "(a XOR b = a XOR c) = (b = (c :: 'a::len word))"
proof -
  have "a XOR (a XOR x) = x" for x :: "'a word"
    by (simp flip: xor.assoc)
  then show ?thesis by metis
qed

lemma inj_crc_bit: "inj crc_bit"
proof (rule injI)
  fix c d assume eq: "crc_bit c = crc_bit d"
  then have low: "bit c 0 = bit d 0" using bit_crc_bit_top by metis
  with eq have "drop_bit 1 c = drop_bit 1 d"
    by (auto simp: crc_bit_def word_xor_cancel xor.commute [of _ crc_poly] split: if_splits)
  then have "bit c (Suc n) = bit d (Suc n)" for n
    by (metis bit_drop_bit_eq plus_1_eq_Suc comp_apply)
  with low have "bit c n = bit d n" for n by (cases n) auto
  then show "c = d" by (intro bit_eqI) auto
qed

lemma inj_crc_bits: "inj (crc_bit ^^ n)"
  by (rule inj_fn [OF inj_crc_bit])

lemma crc_byte_inj_state: "crc_byte c b = crc_byte d b \<longleftrightarrow> c = d"
proof -
  have "crc_byte c b = crc_byte d b \<longleftrightarrow> c XOR ucast b = d XOR ucast b"
    using inj_crc_bits [of 8] by (auto simp: crc_byte_def dest: injD)
  then show ?thesis by (simp add: word_xor_cancel xor.commute [of _ "ucast b"])
qed

lemma ucast_8_32_inj: "ucast (a :: byte) = (ucast b :: 32 word) \<longleftrightarrow> a = b"
proof -
  have "(ucast (ucast x :: 32 word) :: byte) = x" for x :: byte
    by (rule ucast_up_ucast_id) (simp add: is_up)
  then show ?thesis by metis
qed

lemma crc_byte_inj_byte: "crc_byte c a = crc_byte c b \<longleftrightarrow> a = b"
proof -
  have "crc_byte c a = crc_byte c b \<longleftrightarrow> c XOR ucast a = c XOR ucast b"
    using inj_crc_bits [of 8] by (auto simp: crc_byte_def dest: injD)
  then show ?thesis by (simp only: word_xor_cancel ucast_8_32_inj)
qed

lemma foldl_crc_inj_state: "foldl crc_byte c bs = foldl crc_byte d bs \<longleftrightarrow> c = d"
  by (induction bs arbitrary: c d) (auto simp: crc_byte_inj_state)

lemma crc_single_byte:
  assumes "a \<noteq> b"
  shows "ChecksumIEEE (xs @ a # ys) \<noteq> ChecksumIEEE (xs @ b # ys)"
proof -
  have "NOT x = NOT y \<longleftrightarrow> x = y" for x y :: "32 word"
    by (metis bit.double_compl)
  with assms show ?thesis
    by (simp add: ChecksumIEEE_def foldl_crc_inj_state crc_byte_inj_byte word_unat_eq_iff [symmetric])
qed

end
