(* ===== verification/Framing.thy ===== *)
theory Framing
  imports Crc32
begin

text \<open>
  The on-disk frame \<^verbatim>\<open>[4-byte payload length][payload][4-byte CRC32 of payload]\<close> that
  \<^verbatim>\<open>internal/storage/wal/record.go\<close> (\<^verbatim>\<open>encode\<close>, \<^verbatim>\<open>decode\<close>) and
  \<^verbatim>\<open>internal/raft/logentry_codec.go\<close> (\<^verbatim>\<open>encodeLogEntry\<close>, \<^verbatim>\<open>decodeLogEntry\<close>) both use, and the
  interface \<open>framed_log\<close> of an append-only log of frames: what replay returns on a
  complete log, on a log with a torn tail and on a log cut anywhere.  The WAL and the Raft
  log interpret it.
\<close>

section \<open>The frame\<close>

definition frame :: "bytes \<Rightarrow> bytes" where
  "frame payload = be_bytes 4 (length payload) @ payload @ be_bytes 4 (ChecksumIEEE payload)"

definition unframe :: "bytes \<Rightarrow> decode_error + (bytes \<times> bytes)" where
  "unframe r =
     (case ReadFull 4 r of
        Inl e \<Rightarrow> Inl e
      | Inr (lenBuf, r1) \<Rightarrow>
         (case ReadFull (be_val lenBuf) r1 of
            Inl _ \<Rightarrow> Inl ErrUnexpectedEOF
          | Inr (payload, r2) \<Rightarrow>
             (case ReadFull 4 r2 of
                Inl _ \<Rightarrow> Inl ErrUnexpectedEOF
              | Inr (crcBuf, r3) \<Rightarrow>
                  if be_val crcBuf \<noteq> ChecksumIEEE payload then Inl ErrCorrupt
                  else Inr (payload, r3))))"

lemma length_frame [len_simps]: "length (frame p) = length p + 8"
  by (simp add: frame_def)

lemma unframe_frame [codec_simps]:
  "length p < 256 ^ 4 \<Longrightarrow> unframe (frame p @ rest) = Inr (p, rest)"
  by (simp add: unframe_def frame_def)

lemma unframe_length:
  assumes "unframe r = Inr (p, r')"
  shows "length r = length p + 8 + length r'"
  using assms
  by (auto simp: unframe_def split: sum.splits prod.splits if_splits dest!: ReadFull_Inr)

text \<open>Every proper prefix of a frame is refused: the crash-torn write is detected by length.\<close>

lemma unframe_torn:
  assumes len: "length p < 256 ^ 4" and torn: "strict_prefix q (frame p)"
  shows "unframe q = Inl (if q = [] then EOF else ErrUnexpectedEOF)"
proof -
  from torn have short: "length q < length p + 8"
    by (metis length_frame prefix_length_less)
  from torn obtain z where z: "frame p = q @ z" by (auto elim: strict_prefixE' )
  show ?thesis
  proof (cases "length q < 4")
    case True
    then show ?thesis by (simp add: unframe_def ReadFull_def)
  next
    case False
    then have "take 4 q = take 4 (frame p)" using z by simp
    then have hd4: "take 4 q = be_bytes 4 (length p)" by (simp add: frame_def)
    with len have "be_val (take 4 q) = length p" by simp
    with False short show ?thesis
      by (auto simp: unframe_def ReadFull_def)
  qed
qed

lemma unframe_error_on_bad_crc:
  assumes "length p < 256 ^ 4" and "length p' = length p"
    and "ChecksumIEEE p' \<noteq> ChecksumIEEE p"
  shows "unframe (be_bytes 4 (length p) @ p' @ be_bytes 4 (ChecksumIEEE p) @ rest) = Inl ErrCorrupt"
  using assms by (simp add: unframe_def)

section \<open>The interface of an append-only log of frames\<close>

locale framed_log =
  fixes encode :: "'a \<Rightarrow> bytes"
    and decode :: "bytes \<Rightarrow> decode_error + ('a \<times> bytes)"
    and replay :: "bytes \<Rightarrow> 'a list"
    and ok :: "'a \<Rightarrow> bool"
  assumes decode_encode: "ok x \<Longrightarrow> decode (encode x @ rest) = Inr (x, rest)"
    and decode_nil: "decode [] = Inl EOF"
    and decode_torn: "ok x \<Longrightarrow> strict_prefix q (encode x) \<Longrightarrow> \<exists>e. decode q = Inl e"
    and replay_unfold: "replay bs = (case decode bs of Inl _ \<Rightarrow> [] | Inr (x, r) \<Rightarrow> x # replay r)"
begin

lemma replay_error: "decode bs = Inl e \<Longrightarrow> replay bs = []"
  by (subst replay_unfold) simp

lemma replay_cons: "ok x \<Longrightarrow> replay (encode x @ rest) = x # replay rest"
  by (subst replay_unfold) (simp add: decode_encode)

lemma replay_nil [simp]: "replay [] = []"
  by (rule replay_error [OF decode_nil])

lemma encode_nonempty: "ok x \<Longrightarrow> encode x \<noteq> []"
  using decode_encode [of x "[]"] by (auto simp: decode_nil)

lemma replay_append: "list_all ok xs \<Longrightarrow> replay (concat (map encode xs) @ tail) = xs @ replay tail"
  by (induction xs) (simp_all add: replay_cons)

lemma replay_all: "list_all ok xs \<Longrightarrow> replay (concat (map encode xs)) = xs"
  using replay_append [of xs "[]"] by simp

lemma replay_torn_tail:
  assumes "list_all ok xs" and "ok y" and "strict_prefix q (encode y)"
  shows "replay (concat (map encode xs) @ q) = xs"
proof -
  from assms(2,3) obtain e where "decode q = Inl e" using decode_torn by blast
  then show ?thesis using assms(1) by (simp add: replay_append replay_error)
qed

text \<open>A log cut at any byte replays to a prefix of the records, and keeps every record whose
  frame lies wholly before the cut.\<close>

lemma replay_cut:
  assumes "list_all ok xs" and "prefix q (concat (map encode xs))"
  shows "\<exists>k \<le> length xs. replay q = take k xs \<and>
           (\<forall>j \<le> length xs. length (concat (map encode (take j xs))) \<le> length q \<longrightarrow> j \<le> k)"
  using assms
proof (induction xs arbitrary: q)
  case Nil
  then show ?case by simp
next
  case (Cons x xs)
  then have x: "ok x" and xs: "list_all ok xs" by auto
  from Cons.prems(2) consider
    (torn) "strict_prefix q (encode x)" | (whole) q' where "q = encode x @ q'" "prefix q' (concat (map encode xs))"
    using prefix_append_cases [of q "encode x" "concat (map encode xs)"]
    by (auto simp: strict_prefix_def)
  then show ?case
  proof cases
    case torn
    then obtain e where "decode q = Inl e" using decode_torn [OF x] by blast
    then have "replay q = take 0 (x # xs)" by (simp add: replay_error)
    moreover have "\<forall>j \<le> length (x # xs).
        length (concat (map encode (take j (x # xs)))) \<le> length q \<longrightarrow> j \<le> 0"
      using prefix_length_less [OF torn] by (auto simp: take_Cons')
    ultimately show ?thesis by blast
  next
    case whole
    with Cons.IH [OF xs] obtain k where k: "k \<le> length xs" "replay q' = take k xs"
      "\<forall>j \<le> length xs. length (concat (map encode (take j xs))) \<le> length q' \<longrightarrow> j \<le> k" by blast
    have "replay q = take (Suc k) (x # xs)" using whole x k by (simp add: replay_cons)
    moreover have "\<forall>j \<le> length (x # xs).
        length (concat (map encode (take j (x # xs)))) \<le> length q \<longrightarrow> j \<le> Suc k"
    proof (intro allI impI)
      fix j
      assume "j \<le> length (x # xs)"
        and "length (concat (map encode (take j (x # xs)))) \<le> length q"
      then show "j \<le> Suc k" using k(3) whole by (cases j) auto
    qed
    moreover have "Suc k \<le> length (x # xs)" using k(1) by simp
    ultimately show ?thesis by blast
  qed
qed

end

end
