(* ===== verification/Wal.thy ===== *)
theory Wal
  imports Framing
begin

text \<open>
  The write-ahead log, \<^verbatim>\<open>internal/storage/wal\<close>: the record type and its framed encoding
  (\<^verbatim>\<open>record.go\<close>) and the replay loop \<^verbatim>\<open>ReadAll\<close> (\<^verbatim>\<open>reader.go\<close>).  \<open>record_ok\<close> states when every
  field fits the width its encoding gives it; on such records the WAL is a \<open>framed_log\<close>.
  The writer's file operations are in the theory of the engine that owns the file.
\<close>

section \<open>Records\<close>

datatype Op = OpSet | OpDelete | OpOther nat

text \<open>\<^verbatim>\<open>type Op uint8\<close>: any byte is an \<open>Op\<close>; 1 and 2 are the named constants.\<close>

definition op_byte :: "Op \<Rightarrow> nat" where
  "op_byte op = (case op of OpSet \<Rightarrow> 1 | OpDelete \<Rightarrow> 2 | OpOther n \<Rightarrow> n)"

definition op_of_byte :: "nat \<Rightarrow> Op" where
  "op_of_byte n = (if n = 1 then OpSet else if n = 2 then OpDelete else OpOther n)"

record Record =
  Seq :: nat
  Op :: Op
  Timestamp :: int
  ExpiresAtUnixNano :: int
  rKey :: string
  rConsistency :: string
  rValue :: bytes

definition encode_payload :: "Record \<Rightarrow> bytes" where
  "encode_payload r =
     be_bytes 8 (Seq r)
     @ [byte_of (op_byte (Op r))]
     @ be_bytes 8 (u64_of_int (Timestamp r))
     @ be_bytes 8 (u64_of_int (ExpiresAtUnixNano r))
     @ be_bytes 2 (length (rKey r)) @ str_bytes (rKey r)
     @ [byte_of (length (rConsistency r))] @ str_bytes (rConsistency r)
     @ be_bytes 4 (length (rValue r)) @ rValue r"

definition encode :: "Record \<Rightarrow> bytes" where
  "encode r = frame (encode_payload r)"

text \<open>Every read failure inside the payload is reported as \<^verbatim>\<open>ErrCorruptRecord\<close>.\<close>

definition decodePayload :: "bytes \<Rightarrow> decode_error + Record" where
  "decodePayload b0 =
     (case ReadUint 8 b0 of Inl _ \<Rightarrow> Inl ErrCorrupt | Inr (seq, b1) \<Rightarrow>
     (case ReadByte b1 of Inl _ \<Rightarrow> Inl ErrCorrupt | Inr (opByte, b2) \<Rightarrow>
     (case ReadUint 8 b2 of Inl _ \<Rightarrow> Inl ErrCorrupt | Inr (ts, b3) \<Rightarrow>
     (case ReadUint 8 b3 of Inl _ \<Rightarrow> Inl ErrCorrupt | Inr (expAt, b4) \<Rightarrow>
     (case ReadUint 2 b4 of Inl _ \<Rightarrow> Inl ErrCorrupt | Inr (keyLen, b5) \<Rightarrow>
     (case ReadFull keyLen b5 of Inl _ \<Rightarrow> Inl ErrCorrupt | Inr (keyBytes, b6) \<Rightarrow>
     (case ReadByte b6 of Inl _ \<Rightarrow> Inl ErrCorrupt | Inr (consLen, b7) \<Rightarrow>
     (case ReadFull consLen b7 of Inl _ \<Rightarrow> Inl ErrCorrupt | Inr (consBytes, b8) \<Rightarrow>
     (case ReadUint 4 b8 of Inl _ \<Rightarrow> Inl ErrCorrupt | Inr (valueLen, b9) \<Rightarrow>
     (case ReadFull valueLen b9 of Inl _ \<Rightarrow> Inl ErrCorrupt | Inr (v, _) \<Rightarrow>
        Inr \<lparr>Seq = seq, Op = op_of_byte opByte, Timestamp = s64 (int ts),
             ExpiresAtUnixNano = s64 (int expAt), rKey = bytes_str keyBytes,
             rConsistency = bytes_str consBytes, rValue = v\<rparr>))))))))))"

definition decode :: "bytes \<Rightarrow> decode_error + (Record \<times> bytes)" where
  "decode r =
     (case unframe r of
        Inl e \<Rightarrow> Inl e
      | Inr (payload, r') \<Rightarrow>
         (case decodePayload payload of Inl e \<Rightarrow> Inl e | Inr rec \<Rightarrow> Inr (rec, r')))"

lemma decode_shorter: "decode r = Inr (x, r') \<Longrightarrow> length r' < length r"
  by (auto simp: decode_def split: sum.splits prod.splits dest!: unframe_length)

text \<open>The replay loop of \<^verbatim>\<open>ReadAll\<close>: the three decode errors all stop it without an error.\<close>

function ReadAll :: "bytes \<Rightarrow> Record list" where
  "ReadAll f =
     (case decode f of
        Inl _ \<Rightarrow> []
      | Inr (rec, f') \<Rightarrow> rec # ReadAll f')"
  by pat_completeness auto
termination
  by (relation "measure length") (auto dest: decode_shorter)

declare ReadAll.simps [simp del]

section \<open>Well-formed records\<close>

definition op_ok :: "Op \<Rightarrow> bool" where
  "op_ok op \<longleftrightarrow> (case op of OpOther n \<Rightarrow> n < 256 \<and> n \<noteq> 1 \<and> n \<noteq> 2 | _ \<Rightarrow> True)"

definition record_ok :: "Record \<Rightarrow> bool" where
  "record_ok r \<longleftrightarrow>
     Seq r < 2 ^ 64 \<and> op_ok (Op r) \<and> in_s64 (Timestamp r) \<and> in_s64 (ExpiresAtUnixNano r)
     \<and> length (rKey r) < 2 ^ 16 \<and> length (rConsistency r) < 2 ^ 8
     \<and> length (rKey r) + length (rConsistency r) + length (rValue r) + 32 < 2 ^ 32"

lemma op_byte_roundtrip [simp]: "op_ok op \<Longrightarrow> op_of_byte (op_byte op) = op \<and> op_byte op < 256"
  by (cases op) (auto simp: op_ok_def op_of_byte_def op_byte_def)

lemma length_encode_payload [len_simps]:
  "length (encode_payload r) = 32 + length (rKey r) + length (rConsistency r) + length (rValue r)"
  by (simp add: encode_payload_def)

lemma decodePayload_encode_payload [codec_simps]:
  assumes "record_ok r"
  shows "decodePayload (encode_payload r) = Inr r"
  using assms by (simp add: decodePayload_def encode_payload_def record_ok_def)

lemma decode_encode_record:
  assumes "record_ok r"
  shows "decode (encode r @ rest) = Inr (r, rest)"
proof -
  have "length (encode_payload r) < 256 ^ 4"
    using assms by (simp add: length_encode_payload record_ok_def)
  with assms show ?thesis
    by (simp add: decode_def encode_def codec_simps)
qed

lemma decode_torn_record:
  assumes "record_ok r" and "strict_prefix q (encode r)"
  shows "decode q = Inl (if q = [] then EOF else ErrUnexpectedEOF)"
proof -
  have "length (encode_payload r) < 256 ^ 4"
    using assms by (simp add: length_encode_payload record_ok_def)
  with assms show ?thesis
    by (simp add: decode_def encode_def unframe_torn)
qed

lemma decode_nil_eof: "decode [] = Inl EOF"
  by (simp add: decode_def unframe_def ReadFull_def)

interpretation wal: framed_log encode decode ReadAll record_ok
proof unfold_locales
  show "decode [] = Inl EOF" by (rule decode_nil_eof)
qed (auto simp: decode_encode_record decode_torn_record ReadAll.simps)

section \<open>Properties\<close>

text \<open>
  C7: Replaying a WAL that holds the encodings of a list of well-formed records, cut at any
  byte (what a crash in the middle of an append leaves), gives a prefix of that list, and the
  prefix has every record whose frame was completely written.
\<close>

theorem wal_replay_cut:
  assumes "list_all record_ok rs" and "prefix f (concat (map encode rs))"
  shows "\<exists>k \<le> length rs. ReadAll f = take k rs \<and>
           (\<forall>j \<le> length rs. length (concat (map encode (take j rs))) \<le> length f \<longrightarrow> j \<le> k)"
  using assms by (rule wal.replay_cut)

definition sample_record :: Record where
  "sample_record = \<lparr>Seq = 7, Op = OpSet, Timestamp = 1000, ExpiresAtUnixNano = 0,
     rKey = ''event:1'', rConsistency = ''STRONG'', rValue = [1, 2, 3]\<rparr>"

lemma sample_record_ok: "record_ok sample_record"
  by (simp add: sample_record_def record_ok_def op_ok_def in_s64_def)

theorem wal_replay_cut_witness:
  "\<exists>k \<le> length [sample_record, sample_record].
     ReadAll (take 70 (concat (map encode [sample_record, sample_record])))
       = take k [sample_record, sample_record] \<and>
     (\<forall>j \<le> length [sample_record, sample_record].
        length (concat (map encode (take j [sample_record, sample_record])))
          \<le> length (take 70 (concat (map encode [sample_record, sample_record]))) \<longrightarrow> j \<le> k)"
  by (rule wal_replay_cut) (simp add: sample_record_ok, rule take_is_prefix)

end
