(* ===== verification/Sstable.thy ===== *)
theory Sstable
  imports Prelude
begin

text \<open>
  The sorted-string-table format, \<^verbatim>\<open>internal/storage/sstable\<close>: the entry codec
  (\<^verbatim>\<open>entry_codec.go\<close>), the file that \<^verbatim>\<open>WriteSorted\<close> writes (\<^verbatim>\<open>writer.go\<close>) as the list of
  its \<^verbatim>\<open>Write\<close> calls, and \<^verbatim>\<open>Open\<close>, \<^verbatim>\<open>Get\<close> and \<^verbatim>\<open>Iterate\<close> on the bytes of a file
  (\<^verbatim>\<open>table.go\<close>).  Slicing past the end of the index buffer is the panic it is in Go.
\<close>

section \<open>Entries\<close>

record SEntry =
  sKey :: string
  sValue :: bytes
  sConsistency :: string
  sExpiresAtUnixNano :: int
  sTombstone :: bool
  sVersion :: nat

definition encodeEntry :: "SEntry \<Rightarrow> bytes" where
  "encodeEntry e =
     be_bytes 2 (length (sKey e)) @ str_bytes (sKey e)
     @ [byte_of (if sTombstone e then 1 else 0)]
     @ [byte_of (length (sConsistency e))] @ str_bytes (sConsistency e)
     @ be_bytes 8 (u64_of_int (sExpiresAtUnixNano e))
     @ be_bytes 8 (sVersion e)
     @ be_bytes 4 (length (sValue e)) @ sValue e"

definition decodeEntry :: "bytes \<Rightarrow> decode_error + (SEntry \<times> bytes)" where
  "decodeEntry r0 =
     (case ReadUint 2 r0 of Inl e \<Rightarrow> Inl e | Inr (keyLen, r1) \<Rightarrow>
     (case ReadFull keyLen r1 of Inl e \<Rightarrow> Inl e | Inr (keyBuf, r2) \<Rightarrow>
     (case ReadByte r2 of Inl e \<Rightarrow> Inl e | Inr (tombByte, r3) \<Rightarrow>
     (case ReadByte r3 of Inl e \<Rightarrow> Inl e | Inr (consLen, r4) \<Rightarrow>
     (case ReadFull consLen r4 of Inl e \<Rightarrow> Inl e | Inr (consBuf, r5) \<Rightarrow>
     (case ReadUint 8 r5 of Inl e \<Rightarrow> Inl e | Inr (expAt, r6) \<Rightarrow>
     (case ReadUint 8 r6 of Inl e \<Rightarrow> Inl e | Inr (version, r7) \<Rightarrow>
     (case ReadUint 4 r7 of Inl e \<Rightarrow> Inl e | Inr (valueLen, r8) \<Rightarrow>
     (case ReadFull valueLen r8 of Inl e \<Rightarrow> Inl e | Inr (v, r9) \<Rightarrow>
        Inr (\<lparr>sKey = bytes_str keyBuf, sValue = v, sConsistency = bytes_str consBuf,
              sExpiresAtUnixNano = s64 (int expAt), sTombstone = (tombByte = 1),
              sVersion = version\<rparr>, r9))))))))))"

section \<open>The file written by WriteSorted\<close>

definition magic :: nat where
  "magic = 0x42505354"

definition footerSize :: nat where
  "footerSize = 8 + 8 + 8 + 4"

text \<open>The key index: each key with the offset of its entry in the data block.\<close>

fun data_index :: "nat \<Rightarrow> SEntry list \<Rightarrow> (string \<times> nat) list" where
  "data_index offset [] = []"
| "data_index offset (e # es) =
     (sKey e, offset) # data_index (u64 (offset + length (encodeEntry e))) es"

definition encode_index_entry :: "string \<times> nat \<Rightarrow> bytes" where
  "encode_index_entry ie =
     be_bytes 2 (length (fst ie)) @ str_bytes (fst ie) @ be_bytes 8 (snd ie)"

definition footer :: "nat \<Rightarrow> nat \<Rightarrow> nat \<Rightarrow> bytes" where
  "footer indexOffset indexLen entryCount =
     be_bytes 8 indexOffset @ be_bytes 8 indexLen @ be_bytes 8 entryCount @ be_bytes 4 magic"

text \<open>The buffers of \<^verbatim>\<open>WriteSorted\<close>'s successive \<^verbatim>\<open>Write\<close> calls, in order.\<close>

definition WriteSorted_chunks :: "SEntry list \<Rightarrow> bytes list" where
  "WriteSorted_chunks entries =
     (let dataChunks = map encodeEntry entries;
          indexOffset = length (concat dataChunks);
          indexChunks = map encode_index_entry (data_index 0 entries);
          indexLen = length (concat indexChunks)
      in dataChunks @ indexChunks @ [footer indexOffset indexLen (length entries)])"

definition sst_file :: "SEntry list \<Rightarrow> bytes" where
  "sst_file entries = concat (WriteSorted_chunks entries)"

section \<open>Open, Get, Iterate\<close>

datatype sst_error = ErrInvalidFile | ErrRead decode_error | Panic

record Table =
  tfile :: bytes
  tindex :: "(string \<times> nat) list"
  tindexOffset :: nat
  tcount :: nat

function parse_index :: "bytes \<Rightarrow> (string \<times> nat) list \<Rightarrow> sst_error + (string \<times> nat) list" where
  "parse_index buf idx =
     (if buf = [] then Inr idx
      else if length buf < 2 then Inl Panic
      else
        let keyLen = be_val (take 2 buf); buf1 = drop 2 buf in
        if length buf1 < keyLen then Inl Panic
        else
          let key = bytes_str (take keyLen buf1); buf2 = drop keyLen buf1 in
          if length buf2 < 8 then Inl Panic
          else parse_index (drop 8 buf2) (AList.update key (be_val (take 8 buf2)) idx))"
  by pat_completeness auto
termination
  by (relation "measure (\<lambda>(buf, idx). length buf)") auto

declare parse_index.simps [simp del]

definition Open :: "bytes \<Rightarrow> sst_error + Table" where
  "Open f =
     (if length f < footerSize then Inl ErrInvalidFile
      else
        let ft = drop (length f - footerSize) f;
            indexOffset = be_val (take 8 ft);
            indexLen = be_val (take 8 (drop 8 ft));
            count = be_val (take 8 (drop 16 ft));
            gotMagic = be_val (take 4 (drop 24 ft))
        in if gotMagic \<noteq> magic then Inl ErrInvalidFile
           else if indexLen > 0 \<and> length f < indexOffset + indexLen then Inl (ErrRead EOF)
           else
             (case parse_index (take indexLen (drop indexOffset f)) [] of
                Inl e \<Rightarrow> Inl e
              | Inr idx \<Rightarrow> Inr \<lparr>tfile = f, tindex = idx, tindexOffset = indexOffset, tcount = count\<rparr>))"

definition Get :: "Table \<Rightarrow> string \<Rightarrow> decode_error + SEntry option" where
  "Get t key =
     (case map_of (tindex t) key of
        None \<Rightarrow> Inr None
      | Some offset \<Rightarrow>
         (case decodeEntry (drop offset (take (tindexOffset t) (tfile t))) of
            Inl e \<Rightarrow> Inl e
          | Inr (e, _) \<Rightarrow> Inr (Some e)))"

lemma decodeEntry_shorter: "decodeEntry r = Inr (e, r') \<Longrightarrow> length r' < length r"
  by (auto simp: decodeEntry_def ReadUint_def ReadByte_def
      split: sum.splits prod.splits list.splits dest!: ReadFull_Inr)

function iterate_from :: "bytes \<Rightarrow> SEntry list \<Rightarrow> decode_error + SEntry list" where
  "iterate_from r acc =
     (case decodeEntry r of
        Inl EOF \<Rightarrow> Inr acc
      | Inl e \<Rightarrow> Inl e
      | Inr (e, r') \<Rightarrow> iterate_from r' (acc @ [e]))"
  by pat_completeness auto
termination
  by (relation "measure (\<lambda>(r, acc). length r)") (auto dest: decodeEntry_shorter)

declare iterate_from.simps [simp del]

definition Iterate :: "Table \<Rightarrow> decode_error + SEntry list" where
  "Iterate t = iterate_from (take (tindexOffset t) (tfile t)) []"

section \<open>Well-formed tables\<close>

definition sentry_ok :: "SEntry \<Rightarrow> bool" where
  "sentry_ok e \<longleftrightarrow>
     length (sKey e) < 2 ^ 16 \<and> length (sConsistency e) < 2 ^ 8 \<and> length (sValue e) < 2 ^ 32
     \<and> in_s64 (sExpiresAtUnixNano e) \<and> sVersion e < 2 ^ 64"

definition data_block :: "SEntry list \<Rightarrow> bytes" where
  "data_block es = concat (map encodeEntry es)"

definition index_block :: "SEntry list \<Rightarrow> bytes" where
  "index_block es = concat (map encode_index_entry (data_index 0 es))"

definition table_ok :: "SEntry list \<Rightarrow> bool" where
  "table_ok es \<longleftrightarrow> list_all sentry_ok es \<and> distinct (map sKey es)
     \<and> length (data_block es) < 2 ^ 64 \<and> length (index_block es) < 2 ^ 64 \<and> length es < 2 ^ 64"

text \<open>What a table of the entries \<open>es\<close> looks like once opened.\<close>

definition table_of :: "SEntry list \<Rightarrow> Table" where
  "table_of es = \<lparr>tfile = sst_file es, tindex = data_index 0 es,
     tindexOffset = length (data_block es), tcount = length es\<rparr>"

lemma decodeEntry_encodeEntry [codec_simps]:
  assumes "sentry_ok e"
  shows "decodeEntry (encodeEntry e @ rest) = Inr (e, rest)"
  using assms by (simp add: decodeEntry_def encodeEntry_def sentry_ok_def)

lemma decodeEntry_nil: "decodeEntry [] = Inl EOF"
  by (simp add: decodeEntry_def ReadUint_def ReadFull_def)

lemma iterate_from_data_block:
  "list_all sentry_ok es \<Longrightarrow> iterate_from (data_block es) acc = Inr (acc @ es)"
proof (induction es arbitrary: acc)
  case Nil
  show ?case by (subst iterate_from.simps) (simp add: data_block_def decodeEntry_nil)
next
  case (Cons e es)
  then have "iterate_from (data_block (e # es)) acc = iterate_from (data_block es) (acc @ [e])"
    by (subst iterate_from.simps) (simp add: data_block_def decodeEntry_encodeEntry)
  with Cons show ?case by simp
qed

lemma sst_file_blocks:
  "sst_file es = data_block es @ index_block es
     @ footer (length (data_block es)) (length (index_block es)) (length es)"
  by (simp add: sst_file_def WriteSorted_chunks_def data_block_def index_block_def Let_def)

lemma length_footer [simp]: "length (footer a b c) = footerSize"
  by (simp add: footer_def footerSize_def)

lemma fst_data_index [simp]: "map fst (data_index off es) = map sKey es"
  by (induction es arbitrary: off) simp_all

lemma set_data_index_bound: "(k, off) \<in> set (data_index n es) \<Longrightarrow> n < 2 ^ 64 \<Longrightarrow> off < 2 ^ 64"
  by (induction es arbitrary: n) auto

lemma parse_index_step:
  assumes "length k < 2 ^ 16" and "off < 2 ^ 64"
  shows "parse_index (encode_index_entry (k, off) @ rest) idx = parse_index rest (AList.update k off idx)"
  using assms by (subst parse_index.simps) (simp add: encode_index_entry_def)

lemma parse_index_append_distinct:
  assumes "\<forall>(k, off) \<in> set ies. length k < 2 ^ 16 \<and> off < 2 ^ 64"
    and "distinct (map fst idx @ map fst ies)"
  shows "parse_index (concat (map encode_index_entry ies)) idx = Inr (idx @ ies)"
  using assms
proof (induction ies arbitrary: idx)
  case Nil
  show ?case by (subst parse_index.simps) simp
next
  case (Cons ie ies)
  obtain k off where ie: "ie = (k, off)" by fastforce
  with Cons.prems have fresh: "k \<notin> fst ` set idx" by auto
  then have upd: "AList.update k off idx = idx @ [(k, off)]"
    by (induction idx) auto
  have "parse_index (concat (map encode_index_entry (ie # ies))) idx
      = parse_index (concat (map encode_index_entry ies)) (idx @ [(k, off)])"
    using Cons.prems by (simp add: ie parse_index_step upd)
  also have "\<dots> = Inr ((idx @ [(k, off)]) @ ies)"
    by (rule Cons.IH) (use Cons.prems ie in auto)
  finally show ?case by (simp add: ie)
qed

lemma parse_index_block:
  assumes "table_ok es"
  shows "parse_index (index_block es) [] = Inr (data_index 0 es)"
proof -
  have "length k < 2 ^ 16 \<and> off < 2 ^ 64" if "(k, off) \<in> set (data_index 0 es)" for k off
  proof -
    have "k \<in> set (map sKey es)" using that by (metis fst_conv fst_data_index image_eqI list.set_map)
    then show ?thesis
      using assms set_data_index_bound [OF that] by (auto simp: table_ok_def sentry_ok_def list_all_iff)
  qed
  then show ?thesis
    using assms parse_index_append_distinct [of "data_index 0 es" "[]"]
    by (auto simp: index_block_def table_ok_def)
qed

lemma magic_bound: "magic < 256 ^ 4"
  by (simp add: magic_def)

lemma Open_sst_file:
  assumes "table_ok es"
  shows "Open (sst_file es) = Inr (table_of es)"
proof -
  let ?d = "length (data_block es)" and ?i = "length (index_block es)" and ?n = "length es"
  have len: "length (sst_file es) = ?d + ?i + footerSize"
    by (simp add: sst_file_blocks)
  have ft: "drop (length (sst_file es) - footerSize) (sst_file es) = footer ?d ?i ?n"
    by (simp add: len) (simp add: sst_file_blocks)
  have parts: "be_val (take 8 (footer ?d ?i ?n)) = ?d"
    "be_val (take 8 (drop 8 (footer ?d ?i ?n))) = ?i"
    "be_val (take 8 (drop 16 (footer ?d ?i ?n))) = ?n"
    "be_val (take 4 (drop 24 (footer ?d ?i ?n))) = magic"
    using assms magic_bound by (simp_all add: footer_def table_ok_def)
  have idx: "take ?i (drop ?d (sst_file es)) = index_block es"
    by (simp add: sst_file_blocks)
  show ?thesis
    unfolding Open_def Let_def ft parts
    by (simp add: len idx parse_index_block [OF assms] table_of_def)
qed

lemma data_index_lookup:
  assumes "e \<in> set es" and "distinct (map sKey es)" and "n + length (data_block es) < 2 ^ 64"
  shows "\<exists>pre post. es = pre @ e # post \<and>
           map_of (data_index n es) (sKey e) = Some (n + length (data_block pre))"
  using assms
proof (induction es arbitrary: n)
  case (Cons a es)
  have u: "u64 (n + length (encodeEntry a)) = n + length (encodeEntry a)"
    using Cons.prems(3) by (intro u64_id) (simp add: data_block_def)
  show ?case
  proof (cases "e = a")
    case True
    then show ?thesis by (intro exI [of _ "[]"] exI [of _ es]) (simp add: data_block_def)
  next
    case False
    with Cons.prems have "e \<in> set es" "sKey e \<noteq> sKey a" by (auto simp: image_iff)
    with Cons.IH [of "n + length (encodeEntry a)"] Cons.prems(2,3) obtain pre post where
      "es = pre @ e # post"
      "map_of (data_index (n + length (encodeEntry a)) es) (sKey e)
         = Some (n + length (encodeEntry a) + length (data_block pre))"
      by (auto simp: data_block_def add.assoc)
    with u \<open>sKey e \<noteq> sKey a\<close> show ?thesis
      by (intro exI [of _ "a # pre"] exI [of _ post]) (simp add: data_block_def add.assoc)
  qed
qed simp

lemma tfile_data: "take (tindexOffset (table_of es)) (tfile (table_of es)) = data_block es"
  by (simp add: table_of_def sst_file_blocks)

lemma Iterate_table_of: "table_ok es \<Longrightarrow> Iterate (table_of es) = Inr es"
  by (simp add: Iterate_def tfile_data iterate_from_data_block table_ok_def)

lemma map_of_key_Some:
  "distinct (map sKey es) \<Longrightarrow> (map_of (map (\<lambda>e. (sKey e, e)) es) k = Some e) = (e \<in> set es \<and> sKey e = k)"
  by (induction es) (auto simp: image_iff)

lemma Get_table_of:
  assumes "table_ok es"
  shows "Get (table_of es) k = Inr (map_of (map (\<lambda>e. (sKey e, e)) es) k)"
proof (cases "map_of (map (\<lambda>e. (sKey e, e)) es) k")
  case None
  then have "k \<notin> set (map sKey es)" by (simp add: map_of_eq_None_iff image_image)
  then have "map_of (data_index 0 es) k = None"
    using fst_data_index [of 0 es] by (metis list.set_map map_of_eq_None_iff)
  with None show ?thesis by (simp add: Get_def table_of_def)
next
  case (Some e)
  with assms have e: "e \<in> set es" "sKey e = k"
    by (auto simp: table_ok_def map_of_key_Some)
  with assms obtain pre post where es: "es = pre @ e # post"
    and off: "map_of (data_index 0 es) k = Some (length (data_block pre))"
    using data_index_lookup [of e es 0] by (auto simp: table_ok_def)
  have "drop (length (data_block pre)) (data_block es) = encodeEntry e @ data_block post"
    by (simp add: es data_block_def)
  moreover have "sentry_ok e" using assms e by (simp add: table_ok_def list_all_iff)
  ultimately show ?thesis
    using Some off tfile_data [of es]
    by (simp add: Get_def table_of_def decodeEntry_encodeEntry)
qed


section \<open>Properties\<close>

text \<open>
  C8: A table file written from entries with distinct keys opens, iterates to exactly those
  entries in the order written, and a lookup finds the entry of its key or reports its absence.
\<close>

theorem sstable_roundtrip:
  assumes "table_ok es"
  shows "\<exists>t. Open (sst_file es) = Inr t \<and> Iterate t = Inr es \<and>
    (\<forall>k. Get t k = Inr (map_of (map (\<lambda>e. (sKey e, e)) es) k))"
  using Open_sst_file [OF assms] Iterate_table_of [OF assms] Get_table_of [OF assms] by blast

definition sample_sentry :: SEntry where
  "sample_sentry = \<lparr>sKey = ''a'', sValue = [1, 2], sConsistency = ''STRONG'', sExpiresAtUnixNano = 9,
     sTombstone = False, sVersion = 3\<rparr>"

lemma sample_table_ok: "table_ok [sample_sentry, sample_sentry\<lparr>sKey := ''b'', sTombstone := True\<rparr>]"
  by (simp add: table_ok_def sentry_ok_def sample_sentry_def in_s64_def data_block_def index_block_def
      encodeEntry_def encode_index_entry_def)

theorem sstable_roundtrip_witness:
  "\<exists>t. Open (sst_file [sample_sentry, sample_sentry\<lparr>sKey := ''b'', sTombstone := True\<rparr>]) = Inr t
     \<and> Iterate t = Inr [sample_sentry, sample_sentry\<lparr>sKey := ''b'', sTombstone := True\<rparr>]
     \<and> (\<forall>k. Get t k = Inr (map_of (map (\<lambda>e. (sKey e, e))
           [sample_sentry, sample_sentry\<lparr>sKey := ''b'', sTombstone := True\<rparr>]) k))"
  by (rule sstable_roundtrip [OF sample_table_ok])

end
