(* ===== verification/Disk.thy ===== *)
theory Disk
  imports Prelude
begin

text \<open>
  The file system as the storage code sees it through package \<^verbatim>\<open>os\<close>: a finite set of named
  files and a schedule of what happens to the coming system calls.  \<open>Fail n\<close> makes one call
  return an error (a failing write has written its first \<open>n\<close> bytes), \<open>Crash n\<close> stops the
  machine in the middle of a call: that call writes at most \<open>n\<close> bytes and no later call has any
  effect.  With the empty schedule every call succeeds.  What a completed call has written is
  on disk (\<^verbatim>\<open>fsync\<close> is a call that can fail but changes nothing).
\<close>

datatype fault = Ok | Fail nat | Crash nat

record disk =
  files :: "(string \<times> bytes) list"
  faults :: "fault list"

definition next_fault :: "disk \<Rightarrow> nat option \<times> disk" where
  "next_fault d =
     (case faults d of
        [] \<Rightarrow> (None, d)
      | Ok # fs \<Rightarrow> (None, d\<lparr>faults := fs\<rparr>)
      | Fail n # fs \<Rightarrow> (Some n, d\<lparr>faults := fs\<rparr>)
      | Crash n # fs \<Rightarrow> (Some n, d\<lparr>faults := [Crash 0]\<rparr>))"

definition read_file :: "string \<Rightarrow> disk \<Rightarrow> bytes option" where
  "read_file p d = map_of (files d) p"

definition set_file :: "string \<Rightarrow> bytes \<Rightarrow> disk \<Rightarrow> disk" where
  "set_file p bs d = d\<lparr>files := AList.update p bs (files d)\<rparr>"

definition unset_file :: "string \<Rightarrow> disk \<Rightarrow> disk" where
  "unset_file p d = d\<lparr>files := AList.delete p (files d)\<rparr>"

text \<open>Each call returns whether it succeeded.\<close>

definition os_create :: "string \<Rightarrow> disk \<Rightarrow> bool \<times> disk" where
  "os_create p d =
     (case next_fault d of (None, d') \<Rightarrow> (True, set_file p [] d') | (Some _, d') \<Rightarrow> (False, d'))"

text \<open>\<^verbatim>\<open>OpenFile\<close> with \<^verbatim>\<open>O_CREATE\<close>: an existing file is left as it is.\<close>

definition os_open_create :: "string \<Rightarrow> disk \<Rightarrow> bool \<times> disk" where
  "os_open_create p d =
     (case next_fault d of
        (None, d') \<Rightarrow> (True, if read_file p d' = None then set_file p [] d' else d')
      | (Some _, d') \<Rightarrow> (False, d'))"

text \<open>\<^verbatim>\<open>Write\<close> at the end of the file, as for a new file or one opened with \<^verbatim>\<open>O_APPEND\<close>.\<close>

definition append_file :: "string \<Rightarrow> bytes \<Rightarrow> disk \<Rightarrow> disk" where
  "append_file p bs d =
     (case read_file p d of None \<Rightarrow> d | Some old \<Rightarrow> set_file p (old @ bs) d)"

definition os_write :: "string \<Rightarrow> bytes \<Rightarrow> disk \<Rightarrow> bool \<times> disk" where
  "os_write p bs d =
     (case next_fault d of
        (None, d') \<Rightarrow> (True, append_file p bs d')
      | (Some n, d') \<Rightarrow> (False, append_file p (take n bs) d'))"

definition os_sync :: "disk \<Rightarrow> bool \<times> disk" where
  "os_sync d = (case next_fault d of (None, d') \<Rightarrow> (True, d') | (Some _, d') \<Rightarrow> (False, d'))"

definition os_truncate :: "string \<Rightarrow> nat \<Rightarrow> disk \<Rightarrow> bool \<times> disk" where
  "os_truncate p n d =
     (case next_fault d of
        (None, d') \<Rightarrow>
          (True, case read_file p d' of None \<Rightarrow> d' | Some old \<Rightarrow> set_file p (take n old) d')
      | (Some _, d') \<Rightarrow> (False, d'))"

definition os_rename :: "string \<Rightarrow> string \<Rightarrow> disk \<Rightarrow> bool \<times> disk" where
  "os_rename p q d =
     (case next_fault d of
        (None, d') \<Rightarrow>
          (case read_file p d' of
             None \<Rightarrow> (False, d')
           | Some bs \<Rightarrow> (True, set_file q bs (unset_file p d')))
      | (Some _, d') \<Rightarrow> (False, d'))"

definition os_remove :: "string \<Rightarrow> disk \<Rightarrow> bool \<times> disk" where
  "os_remove p d =
     (case next_fault d of
        (None, d') \<Rightarrow> (True, unset_file p d')
      | (Some _, d') \<Rightarrow> (False, d'))"

text \<open>A write loop stops at the first failing write.\<close>

fun os_write_all :: "string \<Rightarrow> bytes list \<Rightarrow> disk \<Rightarrow> bool \<times> disk" where
  "os_write_all p [] d = (True, d)"
| "os_write_all p (c # cs) d =
     (case os_write p c d of
        (False, d') \<Rightarrow> (False, d')
      | (True, d') \<Rightarrow> os_write_all p cs d')"

section \<open>Which files a call can change\<close>

named_theorems disk_defs \<open>definitions of the system calls\<close>

lemmas [disk_defs] = os_create_def os_open_create_def os_write_def os_sync_def os_truncate_def
  os_rename_def os_remove_def

lemma files_next_fault: "next_fault d = (f, d') \<Longrightarrow> files d' = files d"
  by (auto simp: next_fault_def split: list.splits fault.splits)

lemma read_next_fault: "next_fault d = (f, d') \<Longrightarrow> read_file q d' = read_file q d"
  by (simp add: read_file_def files_next_fault)

lemma read_set_file [simp]: "read_file q (set_file p bs d) = (if q = p then Some bs else read_file q d)"
  by (simp add: read_file_def set_file_def)

lemma read_unset_file [simp]: "read_file q (unset_file p d) = (if q = p then None else read_file q d)"
  by (simp add: read_file_def unset_file_def)

lemma read_append_file:
  "read_file q (append_file p bs d) =
     (if q = p then map_option (\<lambda>old. old @ bs) (read_file p d) else read_file q d)"
  by (simp add: append_file_def split: option.splits)

lemma faults_set_file [simp]: "faults (set_file p bs d) = faults d"
  by (simp add: set_file_def)

lemma faults_unset_file [simp]: "faults (unset_file p d) = faults d"
  by (simp add: unset_file_def)

lemma faults_append_file [simp]: "faults (append_file p bs d) = faults d"
  by (simp add: append_file_def split: option.splits)

lemma next_fault_nil [simp]: "faults d = [] \<Longrightarrow> next_fault d = (None, d)"
  by (simp add: next_fault_def)

section \<open>Calls that succeed\<close>

lemma os_create_ok [simp]: "faults d = [] \<Longrightarrow> os_create p d = (True, set_file p [] d)"
  by (simp add: os_create_def)

lemma os_write_ok [simp]: "faults d = [] \<Longrightarrow> os_write p bs d = (True, append_file p bs d)"
  by (simp add: os_write_def)

lemma os_sync_ok [simp]: "faults d = [] \<Longrightarrow> os_sync d = (True, d)"
  by (simp add: os_sync_def)

lemma os_remove_ok [simp]: "faults d = [] \<Longrightarrow> os_remove p d = (True, unset_file p d)"
  by (simp add: os_remove_def)

lemma os_rename_ok [simp]:
  "faults d = [] \<Longrightarrow> read_file p d = Some bs \<Longrightarrow>
   os_rename p q d = (True, set_file q bs (unset_file p d))"
  by (simp add: os_rename_def)

lemma os_write_all_ok:
  "faults d = [] \<Longrightarrow> read_file p d = Some old \<Longrightarrow>
   \<exists>d'. os_write_all p cs d = (True, d') \<and> faults d' = [] \<and>
        read_file p d' = Some (old @ concat cs) \<and> (\<forall>q. q \<noteq> p \<longrightarrow> read_file q d' = read_file q d)"
proof (induction cs arbitrary: d old)
  case (Cons c cs)
  then show ?case
    using Cons.IH [of "append_file p c d" "old @ c"] by (auto simp: read_append_file)
qed simp

end
