(* ===== verification/Storage_Engine.thy ===== *)
theory Storage_Engine
  imports Prelude
begin

text \<open>
  Package \<^verbatim>\<open>internal/storage\<close>: entries with expiry and tombstones (\<^verbatim>\<open>storage.go\<close>), the
  in-memory engine (\<^verbatim>\<open>memstore.go\<close>), and the contract \<open>kv_engine\<close> of the Go interface
  \<^verbatim>\<open>Engine\<close>: what \<^verbatim>\<open>Get\<close>, \<^verbatim>\<open>Put\<close>, \<^verbatim>\<open>Delete\<close> and \<^verbatim>\<open>Scan\<close> promise in terms of the view of
  the store at a time, the map of the keys that are neither deleted nor expired then.
  \<open>MemStore\<close> interprets the contract here, the LSM engine in its own theory; the lemmas
  proved inside the locale hold for both.
\<close>

section \<open>Entries\<close>

datatype kv_error = ErrKeyNotFound | ErrIO

type_synonym Consistency = string

definition ConsistencyStrong :: Consistency where "ConsistencyStrong = ''STRONG''"
definition ConsistencyEventual :: Consistency where "ConsistencyEventual = ''EVENTUAL''"
definition ConsistencyCritical :: Consistency where "ConsistencyCritical = ''CRITICAL''"

text \<open>\<open>ExpiresAt = None\<close> is Go's zero \<^verbatim>\<open>time.Time\<close>.\<close>

record Entry =
  Value :: bytes
  Consistency :: Consistency
  ExpiresAt :: "time option"
  Tombstone :: bool
  Version :: nat

definition Expired :: "Entry \<Rightarrow> time \<Rightarrow> bool" where
  "Expired e now \<longleftrightarrow> (case ExpiresAt e of None \<Rightarrow> False | Some t \<Rightarrow> now > t)"

definition tombstone :: "nat \<Rightarrow> Entry" where
  "tombstone version = \<lparr>Value = [], Consistency = '''', ExpiresAt = None, Tombstone = True,
     Version = version\<rparr>"

text \<open>\<^verbatim>\<open>now.Add(ttl)\<close> when the time to live is positive, the zero time otherwise.\<close>

definition expires_at :: "time \<Rightarrow> int \<Rightarrow> time option" where
  "expires_at now ttl = (if ttl > 0 then Some (now + ttl) else None)"

definition new_entry :: "bytes \<Rightarrow> Consistency \<Rightarrow> time \<Rightarrow> int \<Rightarrow> nat \<Rightarrow> Entry" where
  "new_entry v c now ttl version = \<lparr>Value = v, Consistency = c, ExpiresAt = expires_at now ttl,
     Tombstone = False, Version = version\<rparr>"

section \<open>The view of a store at a time\<close>

definition live :: "time \<Rightarrow> (string \<rightharpoonup> Entry) \<Rightarrow> (string \<rightharpoonup> Entry)" where
  "live t m = (\<lambda>k. case m k of
       None \<Rightarrow> None
     | Some e \<Rightarrow> if Tombstone e \<or> Expired e t then None else Some e)"

lemma Expired_mono: "Expired e t \<Longrightarrow> t \<le> t' \<Longrightarrow> Expired e t'"
  by (auto simp: Expired_def split: option.splits)

lemma Expired_new_entry: "Expired (new_entry v c t ttl ver) t' \<longleftrightarrow> 0 < ttl \<and> t + ttl < t'"
  by (simp add: Expired_def new_entry_def expires_at_def)

lemma live_live: "t \<le> t' \<Longrightarrow> live t' (live t m) = live t' m"
  by (auto simp: live_def fun_eq_iff dest: Expired_mono split: option.splits)

lemma live_upd_new: "live t (m(k \<mapsto> new_entry v c t ttl ver)) = (live t m)(k \<mapsto> new_entry v c t ttl ver)"
  by (auto simp: live_def fun_eq_iff Expired_new_entry) (simp add: new_entry_def)

lemma live_upd_tombstone: "live t (m(k \<mapsto> tombstone ver)) = (live t m)(k := None)"
  by (auto simp: live_def fun_eq_iff tombstone_def)

lemma live_SomeD: "live t m k = Some e \<Longrightarrow> m k = Some e \<and> \<not> Tombstone e \<and> \<not> Expired e t"
  by (auto simp: live_def split: option.splits if_splits)

lemma live_idem: "live t (live t m) = live t m"
  by (rule live_live) simp

section \<open>The contract of a storage engine\<close>

locale kv_engine =
  fixes inv :: "'s \<Rightarrow> bool"
    and view :: "'s \<Rightarrow> time \<Rightarrow> string \<Rightarrow> Entry option"
    and fits_put :: "'s \<Rightarrow> time \<Rightarrow> string \<Rightarrow> bytes \<Rightarrow> Consistency \<Rightarrow> int \<Rightarrow> bool"
    and fits_del :: "'s \<Rightarrow> time \<Rightarrow> bool"
    and get :: "'s \<Rightarrow> time \<Rightarrow> string \<Rightarrow> kv_error + Entry"
    and put :: "'s \<Rightarrow> time \<Rightarrow> string \<Rightarrow> bytes \<Rightarrow> Consistency \<Rightarrow> int \<Rightarrow> kv_error option \<times> 's"
    and del :: "'s \<Rightarrow> time \<Rightarrow> string \<Rightarrow> kv_error option \<times> 's"
    and scan :: "'s \<Rightarrow> time \<Rightarrow> string \<Rightarrow> kv_error + (string \<times> Entry) list"
  assumes view_aging: "inv s \<Longrightarrow> t \<le> t' \<Longrightarrow> view s t' = live t' (view s t)"
    and get_view: "inv s \<Longrightarrow>
      get s t k = (case view s t k of None \<Rightarrow> Inl ErrKeyNotFound | Some e \<Rightarrow> Inr e)"
    and put_view: "inv s \<Longrightarrow> fits_put s t k v c ttl \<Longrightarrow>
      \<exists>s' ver. put s t k v c ttl = (None, s') \<and> inv s' \<and>
               view s' t = (view s t)(k \<mapsto> new_entry v c t ttl ver)"
    and del_absent: "inv s \<Longrightarrow> view s t k = None \<Longrightarrow> del s t k = (Some ErrKeyNotFound, s)"
    and del_present: "inv s \<Longrightarrow> fits_del s t \<Longrightarrow> view s t k = Some e \<Longrightarrow>
      \<exists>s'. del s t k = (None, s') \<and> inv s' \<and> view s' t = (view s t)(k := None)"
    and scan_view: "inv s \<Longrightarrow>
      \<exists>m. scan s t p = Inr m \<and> distinct (map fst m) \<and> map_of m = view s t |` {k. prefix p k}"
begin

lemma view_live: "inv s \<Longrightarrow> live t (view s t) = view s t"
  using view_aging [of s t t] by simp

lemma view_SomeD: "inv s \<Longrightarrow> view s t k = Some e \<Longrightarrow> \<not> Tombstone e \<and> \<not> Expired e t"
  using view_live [of s t] live_SomeD [of t "view s t" k e] by simp

text \<open>A written key reads back until its time to live has passed, and not after.\<close>

lemma get_after_put:
  assumes "inv s" and "fits_put s t k v c ttl" and "put s t k v c ttl = (None, s')" and "t \<le> t'"
  shows "\<exists>ver. get s' t' k =
    (if 0 < ttl \<and> t + ttl < t' then Inl ErrKeyNotFound else Inr (new_entry v c t ttl ver))"
proof -
  obtain ver where s': "inv s'" "view s' t = (view s t)(k \<mapsto> new_entry v c t ttl ver)"
    using put_view [OF assms(1,2)] assms(3) by auto
  have "view s' t' k = live t' (view s' t) k" using view_aging [OF s'(1) assms(4)] by simp
  also have "\<dots> = (if 0 < ttl \<and> t + ttl < t' then None else Some (new_entry v c t ttl ver))"
    by (simp add: s'(2) live_def Expired_new_entry) (simp add: new_entry_def)
  finally show ?thesis using get_view [OF s'(1), of t' k] by auto
qed

lemma get_after_put_other:
  assumes "inv s" and "fits_put s t k v c ttl" and "put s t k v c ttl = (None, s')"
    and "t \<le> t'" and "k' \<noteq> k"
  shows "get s' t' k' = get s t' k'"
proof -
  obtain ver where s': "inv s'" "view s' t = (view s t)(k \<mapsto> new_entry v c t ttl ver)"
    using put_view [OF assms(1,2)] assms(3) by auto
  have "view s' t' k' = view s t' k'"
    using view_aging [OF s'(1) assms(4)] view_aging [OF assms(1,4)] assms(5)
    by (simp add: s'(2) live_def)
  then show ?thesis by (simp add: get_view [OF s'(1)] get_view [OF assms(1)])
qed

lemma get_after_del:
  assumes "inv s" and "fits_del s t" and "del s t k = (None, s')" and "t \<le> t'"
  shows "get s' t' k' = (if k' = k then Inl ErrKeyNotFound else get s t' k')"
proof -
  have "view s t k \<noteq> None" using del_absent [OF assms(1)] assms(3) by force
  then obtain e where "view s t k = Some e" by blast
  then have s': "inv s'" "view s' t = (view s t)(k := None)"
    using del_present [OF assms(1,2)] assms(3) by fastforce+
  have "view s' t' k' = (if k' = k then None else view s t' k')"
    using view_aging [OF s'(1) assms(4)] view_aging [OF assms(1,4)]
    by (simp add: s'(2) live_def)
  then show ?thesis by (simp add: get_view [OF s'(1)] get_view [OF assms(1)])
qed

text \<open>\<^verbatim>\<open>Scan\<close> lists exactly the keys with the prefix that \<^verbatim>\<open>Get\<close> finds, with the same entries.\<close>

lemma scan_get:
  assumes "inv s" and "scan s t p = Inr m"
  shows "(k, e) \<in> set m \<longleftrightarrow> prefix p k \<and> get s t k = Inr e"
proof -
  from scan_view [OF assms(1), of t p] assms(2)
  have m: "distinct (map fst m)" "map_of m = view s t |` {k. prefix p k}" by auto
  then have "(k, e) \<in> set m \<longleftrightarrow> (view s t |` {k. prefix p k}) k = Some e"
    by (metis map_of_eq_Some_iff)
  then show ?thesis by (auto simp: get_view [OF assms(1)] restrict_map_def split: option.splits)
qed

end

section \<open>MemStore\<close>

record MemStore =
  entries :: "(string \<times> Entry) list"
  version :: nat

definition NewMemStore :: MemStore where
  "NewMemStore = \<lparr>entries = [], version = 0\<rparr>"

definition mem_Get :: "MemStore \<Rightarrow> time \<Rightarrow> string \<Rightarrow> kv_error + Entry" where
  "mem_Get m now key =
     (case map_of (entries m) key of
        None \<Rightarrow> Inl ErrKeyNotFound
      | Some entry \<Rightarrow>
          if Tombstone entry \<or> Expired entry now then Inl ErrKeyNotFound else Inr entry)"

definition mem_Put ::
  "MemStore \<Rightarrow> time \<Rightarrow> string \<Rightarrow> bytes \<Rightarrow> Consistency \<Rightarrow> int \<Rightarrow> kv_error option \<times> MemStore" where
  "mem_Put m now key v c ttl =
     (let expiresAt = (if ttl > 0 then Some (now + ttl) else None);
          ver = u64 (version m + 1)
      in (None, m\<lparr>version := ver,
                  entries := AList.update key
                    \<lparr>Value = v, Consistency = c, ExpiresAt = expiresAt, Tombstone = False,
                     Version = ver\<rparr> (entries m)\<rparr>))"

definition mem_Scan :: "MemStore \<Rightarrow> time \<Rightarrow> string \<Rightarrow> kv_error + (string \<times> Entry) list" where
  "mem_Scan m now pre =
     Inr (filter (\<lambda>(k, v). prefix pre k \<and> \<not> (Tombstone v \<or> Expired v now)) (entries m))"

definition mem_Delete :: "MemStore \<Rightarrow> time \<Rightarrow> string \<Rightarrow> kv_error option \<times> MemStore" where
  "mem_Delete m now key =
     (case map_of (entries m) key of
        None \<Rightarrow> (Some ErrKeyNotFound, m)
      | Some existing \<Rightarrow>
          if Tombstone existing \<or> Expired existing now then (Some ErrKeyNotFound, m)
          else
            let ver = u64 (version m + 1)
            in (None, m\<lparr>version := ver,
                        entries := AList.update key (tombstone ver) (entries m)\<rparr>))"

definition mem_inv :: "MemStore \<Rightarrow> bool" where
  "mem_inv m \<longleftrightarrow> distinct (map fst (entries m))"

definition mem_view :: "MemStore \<Rightarrow> time \<Rightarrow> string \<Rightarrow> Entry option" where
  "mem_view m t = live t (map_of (entries m))"

lemma mem_inv_New: "mem_inv NewMemStore"
  by (simp add: mem_inv_def NewMemStore_def)

lemma map_of_filter_live:
  assumes "distinct (map fst al)"
  shows "map_of (filter (\<lambda>(k, v). prefix p k \<and> \<not> (Tombstone v \<or> Expired v t)) al)
           = live t (map_of al) |` {k. prefix p k}"
proof
  fix k
  let ?f = "filter (\<lambda>(k, v). prefix p k \<and> \<not> (Tombstone v \<or> Expired v t)) al"
  have d: "distinct (map fst ?f)" using assms by (rule distinct_map_filter)
  have "(map_of ?f k = Some e) = ((live t (map_of al) |` {k. prefix p k}) k = Some e)" for e
  proof -
    have "map_of ?f k = Some e \<longleftrightarrow> (k, e) \<in> set ?f" using d by simp
    also have "\<dots> \<longleftrightarrow> map_of al k = Some e \<and> prefix p k \<and> \<not> (Tombstone e \<or> Expired e t)"
      using assms by auto
    also have "\<dots> \<longleftrightarrow> (live t (map_of al) |` {k. prefix p k}) k = Some e"
      by (auto simp: live_def restrict_map_def split: option.splits if_splits)
    finally show ?thesis .
  qed
  then show "map_of ?f k = (live t (map_of al) |` {k. prefix p k}) k"
    by (rule option_ext)
qed

interpretation mem: kv_engine mem_inv mem_view "\<lambda>_ _ _ _ _ _. True" "\<lambda>_ _. True"
  mem_Get mem_Put mem_Delete mem_Scan
proof unfold_locales
  fix s and t t' :: time assume "t \<le> t'"
  then show "mem_view s t' = live t' (mem_view s t)"
    by (simp add: mem_view_def live_live)
next
  fix s t k
  show "mem_Get s t k = (case mem_view s t k of None \<Rightarrow> Inl ErrKeyNotFound | Some e \<Rightarrow> Inr e)"
    by (simp add: mem_Get_def mem_view_def live_def split: option.splits)
next
  fix s t k v c ttl assume "mem_inv s"
  then show "\<exists>s' ver. mem_Put s t k v c ttl = (None, s') \<and> mem_inv s' \<and>
               mem_view s' t = (mem_view s t)(k \<mapsto> new_entry v c t ttl ver)"
    by (auto simp: mem_Put_def mem_inv_def mem_view_def Let_def
        live_upd_new [unfolded new_entry_def expires_at_def] new_entry_def expires_at_def)
next
  fix s t k assume "mem_view s t k = None"
  then show "mem_Delete s t k = (Some ErrKeyNotFound, s)"
    by (auto simp: mem_Delete_def mem_view_def live_def split: option.splits if_splits)
next
  fix s t k e assume "mem_inv s" and "mem_view s t k = Some e"
  then show "\<exists>s'. mem_Delete s t k = (None, s') \<and> mem_inv s' \<and>
               mem_view s' t = (mem_view s t)(k := None)"
    by (auto simp: mem_Delete_def mem_inv_def mem_view_def Let_def live_upd_tombstone
        dest!: live_SomeD)
next
  fix s t p assume "mem_inv s"
  then show "\<exists>m. mem_Scan s t p = Inr m \<and> distinct (map fst m) \<and>
               map_of m = mem_view s t |` {k. prefix p k}"
    using map_of_filter_live [of "entries s" p t]
    by (auto simp: mem_Scan_def mem_inv_def mem_view_def distinct_map_filter)
qed

end
