(* ===== verification/Lsm.thy ===== *)
theory Lsm
  imports Wal Sstable Disk Storage_Engine
begin

text \<open>
  The durable storage engine, \<^verbatim>\<open>internal/storage/lsm\<close>: write-ahead log, memtable and SSTables
  on the file system of theory \<open>Disk\<close>.  One definition per function of \<^verbatim>\<open>engine.go\<close>,
  \<^verbatim>\<open>flush.go\<close>, \<^verbatim>\<open>compact.go\<close> and \<^verbatim>\<open>recovery.go\<close> and of \<^verbatim>\<open>wal/writer.go\<close>.  The data directory
  holds \<^verbatim>\<open>wal.log\<close> and the files \<^verbatim>\<open>sstables/NNNNNN.sst\<close>.  A write is two steps, as in the
  code: \<open>Put_enqueue\<close> or \<open>Delete_enqueue\<close> assigns the sequence number and queues the
  operation on \<open>opCh\<close>, and the \<open>opLoop\<close> goroutine makes a queued batch durable and applies it
  (\<open>processBatch\<close>).  \<open>Put\<close> and \<open>Delete\<close> are the calls of a client that nobody overtakes.
\<close>

section \<open>Writing the log file (wal/writer.go)\<close>

definition wal_path :: string where
  "wal_path = ''wal.log''"

definition AppendBatch :: "Record list \<Rightarrow> disk \<Rightarrow> bool \<times> disk" where
  "AppendBatch records d =
     (if records = [] then (True, d)
      else
        case os_write_all wal_path (map encode records) d of
          (False, d1) \<Rightarrow> (False, d1)
        | (True, d1) \<Rightarrow> os_sync d1)"

definition Append :: "Record \<Rightarrow> disk \<Rightarrow> bool \<times> disk" where
  "Append r d = AppendBatch [r] d"

text \<open>\<^verbatim>\<open>Truncate(0)\<close>, \<^verbatim>\<open>Seek(0, 0)\<close>, \<^verbatim>\<open>Sync()\<close>; a seek writes nothing, like a sync.\<close>

definition Reset :: "disk \<Rightarrow> bool \<times> disk" where
  "Reset d =
     (case os_truncate wal_path 0 d of
        (False, d1) \<Rightarrow> (False, d1)
      | (True, d1) \<Rightarrow>
         (case os_sync d1 of
            (False, d2) \<Rightarrow> (False, d2)
          | (True, d2) \<Rightarrow> os_sync d2))"

section \<open>The engine's state\<close>

record Options =
  MemtableFlushThresholdBytes :: int
  CompactionThreshold :: int

definition lsm_DefaultOptions :: Options where
  "lsm_DefaultOptions = \<lparr>MemtableFlushThresholdBytes = 4 * 1024 * 1024, CompactionThreshold = 4\<rparr>"

text \<open>One queued operation: its WAL record and the memtable update of its \<^verbatim>\<open>apply\<close> closure.\<close>

record engineOp =
  op_rec :: Record
  op_key :: string
  op_entry :: Entry

record Engine =
  edisk :: disk
  eopts :: Options
  memtable :: "(string \<times> Entry) list"
  memtableSize :: int
  sstables :: "(string \<times> Table) list"  \<comment> \<open>oldest first\<close>
  sstableSeq :: nat
  nextSeq :: nat
  opCh :: "engineOp list"

definition entrySize :: "string \<Rightarrow> Entry \<Rightarrow> int" where
  "entrySize key e = int (length key) + int (length (Value e)) + 32"

definition applyToMemtable :: "string \<Rightarrow> Entry \<Rightarrow> Engine \<Rightarrow> Engine" where
  "applyToMemtable key entry e =
     (let size1 = (case map_of (memtable e) key of
                     Some old \<Rightarrow> memtableSize e - entrySize key old
                   | None \<Rightarrow> memtableSize e)
      in e\<lparr>memtable := AList.update key entry (memtable e),
           memtableSize := size1 + entrySize key entry\<rparr>)"

definition checkedEntry :: "time \<Rightarrow> Entry \<Rightarrow> kv_error + Entry" where
  "checkedEntry now e = (if Tombstone e \<or> Expired e now then Inl ErrKeyNotFound else Inr e)"

definition toStorageEntry :: "SEntry \<Rightarrow> Entry" where
  "toStorageEntry e = \<lparr>Value = sValue e, Consistency = sConsistency e,
     ExpiresAt = (if sExpiresAtUnixNano e \<noteq> 0 then Some (sExpiresAtUnixNano e) else None),
     Tombstone = sTombstone e, Version = sVersion e\<rparr>"

text \<open>\<^verbatim>\<open>Time.UnixNano\<close> is the nanosecond count as an \<^verbatim>\<open>int64\<close>.\<close>

definition UnixNano :: "time \<Rightarrow> int" where
  "UnixNano t = s64 t"

definition toSSTableEntry :: "string \<Rightarrow> Entry \<Rightarrow> SEntry" where
  "toSSTableEntry key e = \<lparr>sKey = key, sValue = Value e, sConsistency = Consistency e,
     sExpiresAtUnixNano = (case ExpiresAt e of None \<Rightarrow> 0 | Some t \<Rightarrow> UnixNano t),
     sTombstone = Tombstone e, sVersion = Version e\<rparr>"

section \<open>Reads\<close>

fun lookup_sstables :: "time \<Rightarrow> string \<Rightarrow> (string \<times> Table) list \<Rightarrow> kv_error + Entry" where
  "lookup_sstables now key [] = Inl ErrKeyNotFound"
| "lookup_sstables now key ((path, table) # older) =
     (case Get table key of
        Inl _ \<Rightarrow> Inl ErrIO
      | Inr (Some entry) \<Rightarrow> checkedEntry now (toStorageEntry entry)
      | Inr None \<Rightarrow> lookup_sstables now key older)"

definition lookupLocked :: "time \<Rightarrow> string \<Rightarrow> Engine \<Rightarrow> kv_error + Entry" where
  "lookupLocked now key e =
     (case map_of (memtable e) key of
        Some entry \<Rightarrow> checkedEntry now entry
      | None \<Rightarrow> lookup_sstables now key (rev (sstables e)))"

definition lsm_Get :: "Engine \<Rightarrow> time \<Rightarrow> string \<Rightarrow> kv_error + Entry" where
  "lsm_Get e now key = lookupLocked now key e"

fun scan_sstables ::
  "string \<Rightarrow> (string \<times> Table) list \<Rightarrow> (string \<times> Entry) list \<Rightarrow> kv_error + (string \<times> Entry) list" where
  "scan_sstables pre [] merged = Inr merged"
| "scan_sstables pre ((path, table) # newer) merged =
     (case Iterate table of
        Inl _ \<Rightarrow> Inl ErrIO
      | Inr es \<Rightarrow>
          scan_sstables pre newer
            (foldl (\<lambda>m se. if prefix pre (sKey se) then AList.update (sKey se) (toStorageEntry se) m else m)
              merged es))"

definition lsm_Scan :: "Engine \<Rightarrow> time \<Rightarrow> string \<Rightarrow> kv_error + (string \<times> Entry) list" where
  "lsm_Scan e now pre =
     (case scan_sstables pre (sstables e) [] of
        Inl err \<Rightarrow> Inl err
      | Inr merged0 \<Rightarrow>
          let merged = foldl (\<lambda>m (k, v). if prefix pre k then AList.update k v m else m) merged0 (memtable e)
          in Inr (filter (\<lambda>(k, v). \<not> (Tombstone v \<or> Expired v now)) merged))"

section \<open>File names\<close>

fun dec :: "nat \<Rightarrow> string" where
  "dec n = (if n < 10 then [char_of (48 + n)] else dec (n div 10) @ [char_of (48 + n mod 10)])"

declare dec.simps [simp del]

definition sstableFileName :: "nat \<Rightarrow> string" where
  "sstableFileName seq = (let s = dec seq in replicate (6 - length s) (CHR ''0'') @ s @ ''.sst'')"

definition sstables_dir :: string where
  "sstables_dir = ''sstables/''"

definition final_path :: "nat \<Rightarrow> string" where
  "final_path seq = sstables_dir @ sstableFileName seq"

definition tmp_path :: "nat \<Rightarrow> string" where
  "tmp_path seq = sstables_dir @ ''tmp-'' @ sstableFileName seq"

section \<open>Flush and compaction\<close>

text \<open>\<^verbatim>\<open>sstable.WriteSorted\<close>: create, the writes of the theory \<open>Sstable\<close>, sync.\<close>

definition WriteSorted :: "string \<Rightarrow> SEntry list \<Rightarrow> disk \<Rightarrow> bool \<times> disk" where
  "WriteSorted path ses d =
     (case os_create path d of
        (False, d1) \<Rightarrow> (False, d1)
      | (True, d1) \<Rightarrow>
         (case os_write_all path (WriteSorted_chunks ses) d1 of
            (False, d2) \<Rightarrow> (False, d2)
          | (True, d2) \<Rightarrow> os_sync d2))"

definition writeAndOpenSSTable :: "SEntry list \<Rightarrow> Engine \<Rightarrow> (kv_error + (string \<times> Table)) \<times> Engine" where
  "writeAndOpenSSTable ses e0 =
     (let seq = sstableSeq e0 + 1; e = e0\<lparr>sstableSeq := seq\<rparr>;
          tmpPath = tmp_path seq; finalPath = final_path seq
      in case WriteSorted tmpPath ses (edisk e) of
           (False, d1) \<Rightarrow> (Inl ErrIO, e\<lparr>edisk := d1\<rparr>)
         | (True, d1) \<Rightarrow>
            (case os_rename tmpPath finalPath d1 of
               (False, d2) \<Rightarrow> (Inl ErrIO, e\<lparr>edisk := d2\<rparr>)
             | (True, d2) \<Rightarrow>
                (case os_sync d2 of
                   (False, d3) \<Rightarrow> (Inl ErrIO, e\<lparr>edisk := d3\<rparr>)
                 | (True, d3) \<Rightarrow>
                    (case read_file finalPath d3 of
                       None \<Rightarrow> (Inl ErrIO, e\<lparr>edisk := d3\<rparr>)
                     | Some f \<Rightarrow>
                        (case Open f of
                           Inl _ \<Rightarrow> (Inl ErrIO, e\<lparr>edisk := d3\<rparr>)
                         | Inr table \<Rightarrow> (Inr (finalPath, table), e\<lparr>edisk := d3\<rparr>))))))"

fun merge_sstables :: "(string \<times> Table) list \<Rightarrow> (string \<times> SEntry) list \<Rightarrow> kv_error + (string \<times> SEntry) list" where
  "merge_sstables [] merged = Inr merged"
| "merge_sstables ((path, table) # newer) merged =
     (case Iterate table of
        Inl _ \<Rightarrow> Inl ErrIO
      | Inr es \<Rightarrow> merge_sstables newer (foldl (\<lambda>m en. AList.update (sKey en) en m) merged es))"

text \<open>Errors of \<^verbatim>\<open>os.Remove\<close> are ignored.\<close>

fun remove_files :: "string list \<Rightarrow> disk \<Rightarrow> disk" where
  "remove_files [] d = d"
| "remove_files (p # ps) d = remove_files ps (snd (os_remove p d))"

definition keep_compacted :: "time \<Rightarrow> SEntry \<Rightarrow> bool" where
  "keep_compacted now en \<longleftrightarrow>
     \<not> sTombstone en \<and> \<not> (sExpiresAtUnixNano en \<noteq> 0 \<and> now > sExpiresAtUnixNano en)"

definition compactLocked :: "time \<Rightarrow> Engine \<Rightarrow> kv_error option \<times> Engine" where
  "compactLocked now e =
     (case merge_sstables (sstables e) [] of
        Inl err \<Rightarrow> (Some err, e)
      | Inr merged \<Rightarrow>
          let keys = sort (map fst (filter (\<lambda>(k, en). keep_compacted now en) merged));
              ses = map (\<lambda>k. the (map_of merged k)) keys
          in case writeAndOpenSSTable ses e of
               (Inl err, e1) \<Rightarrow> (Some err, e1)
             | (Inr (newPath, newTable), e1) \<Rightarrow>
                 (None, e1\<lparr>sstables := [(newPath, newTable)],
                           edisk := remove_files (map fst (sstables e1)) (edisk e1)\<rparr>))"

definition flushLocked :: "time \<Rightarrow> Engine \<Rightarrow> kv_error option \<times> Engine" where
  "flushLocked now e =
     (if memtable e = [] then (None, e)
      else
        let keys = sort (map fst (memtable e));
            ses = map (\<lambda>k. toSSTableEntry k (the (map_of (memtable e) k))) keys
        in case writeAndOpenSSTable ses e of
             (Inl err, e1) \<Rightarrow> (Some err, e1)
           | (Inr (path, table), e1) \<Rightarrow>
              (case Reset (edisk e1) of
                 (False, d2) \<Rightarrow> (Some ErrIO, e1\<lparr>edisk := d2\<rparr>)
               | (True, d2) \<Rightarrow>
                   let e2 = e1\<lparr>edisk := d2, sstables := sstables e1 @ [(path, table)],
                               memtable := [], memtableSize := 0\<rparr>
                   in if int (length (sstables e2)) > CompactionThreshold (eopts e2)
                      then compactLocked now e2
                      else (None, e2)))"

definition maybeFlushLocked :: "time \<Rightarrow> Engine \<Rightarrow> kv_error option \<times> Engine" where
  "maybeFlushLocked now e =
     (if memtableSize e < MemtableFlushThresholdBytes (eopts e) then (None, e)
      else flushLocked now e)"

section \<open>Writes\<close>

definition Put_enqueue ::
  "Engine \<Rightarrow> time \<Rightarrow> string \<Rightarrow> bytes \<Rightarrow> Consistency \<Rightarrow> int \<Rightarrow> Engine" where
  "Put_enqueue e now key v c ttl =
     (let expiresAt = (if ttl > 0 then Some (now + ttl) else None);
          expiresAtNano = (case expiresAt of None \<Rightarrow> 0 | Some t \<Rightarrow> UnixNano t);
          seq = nextSeq e;
          entry = \<lparr>Value = v, Consistency = c, ExpiresAt = expiresAt, Tombstone = False, Version = seq\<rparr>;
          rec = \<lparr>Seq = seq, Op = OpSet, Timestamp = UnixNano now, ExpiresAtUnixNano = expiresAtNano,
                 rKey = key, rConsistency = c, rValue = v\<rparr>
      in e\<lparr>nextSeq := u64 (nextSeq e + 1),
           opCh := opCh e @ [\<lparr>op_rec = rec, op_key = key, op_entry = entry\<rparr>]\<rparr>)"

definition Delete_enqueue :: "Engine \<Rightarrow> time \<Rightarrow> string \<Rightarrow> kv_error + Engine" where
  "Delete_enqueue e now key =
     (case lookupLocked now key e of
        Inl err \<Rightarrow> Inl err
      | Inr _ \<Rightarrow>
          let seq = nextSeq e;
              rec = \<lparr>Seq = seq, Op = OpDelete, Timestamp = UnixNano now, ExpiresAtUnixNano = 0,
                     rKey = key, rConsistency = '''', rValue = []\<rparr>
          in Inr (e\<lparr>nextSeq := u64 (nextSeq e + 1),
                    opCh := opCh e @ [\<lparr>op_rec = rec, op_key = key, op_entry = tombstone seq\<rparr>]\<rparr>))"

definition applyOps :: "engineOp list \<Rightarrow> Engine \<Rightarrow> Engine" where
  "applyOps batch e = foldl (\<lambda>e op. applyToMemtable (op_key op) (op_entry op) e) e batch"

text \<open>The result is what is sent on every operation's \<^verbatim>\<open>resultCh\<close>.\<close>

definition processBatch :: "time \<Rightarrow> engineOp list \<Rightarrow> Engine \<Rightarrow> kv_error option \<times> Engine" where
  "processBatch now batch e =
     (case AppendBatch (map op_rec batch) (edisk e) of
        (False, d1) \<Rightarrow> (Some ErrIO, e\<lparr>edisk := d1\<rparr>)
      | (True, d1) \<Rightarrow> maybeFlushLocked now (applyOps batch (e\<lparr>edisk := d1\<rparr>)))"

text \<open>One round of \<^verbatim>\<open>opLoop\<close>: the first \<open>n\<close> queued operations are the drained batch.\<close>

definition opLoop_round :: "time \<Rightarrow> nat \<Rightarrow> Engine \<Rightarrow> kv_error option \<times> Engine" where
  "opLoop_round now n e = processBatch now (take n (opCh e)) (e\<lparr>opCh := drop n (opCh e)\<rparr>)"

definition lsm_Put ::
  "Engine \<Rightarrow> time \<Rightarrow> string \<Rightarrow> bytes \<Rightarrow> Consistency \<Rightarrow> int \<Rightarrow> kv_error option \<times> Engine" where
  "lsm_Put e now key v c ttl =
     (let e1 = Put_enqueue e now key v c ttl in opLoop_round now (length (opCh e1)) e1)"

definition lsm_Delete :: "Engine \<Rightarrow> time \<Rightarrow> string \<Rightarrow> kv_error option \<times> Engine" where
  "lsm_Delete e now key =
     (case Delete_enqueue e now key of
        Inl err \<Rightarrow> (Some err, e)
      | Inr e1 \<Rightarrow> opLoop_round now (length (opCh e1)) e1)"

section \<open>Recovery\<close>

definition applyRecordToMemtable ::
  "(string \<times> Entry) list \<times> int \<Rightarrow> Record \<Rightarrow> (string \<times> Entry) list \<times> int" where
  "applyRecordToMemtable ms rec =
     (let (mt, size) = ms;
          upd = (\<lambda>entry.
            (AList.update (rKey rec) entry mt,
             (case map_of mt (rKey rec) of
                Some old \<Rightarrow> size - entrySize (rKey rec) old
              | None \<Rightarrow> size) + entrySize (rKey rec) entry))
      in case Op rec of
           OpSet \<Rightarrow> upd \<lparr>Value = rValue rec, Consistency = rConsistency rec,
                         ExpiresAt = (if ExpiresAtUnixNano rec \<noteq> 0 then Some (ExpiresAtUnixNano rec) else None),
                         Tombstone = False, Version = Seq rec\<rparr>
         | OpDelete \<Rightarrow> upd (tombstone (Seq rec))
         | OpOther _ \<Rightarrow> (mt, size))"

text \<open>\<^verbatim>\<open>os.ReadDir(sstables)\<close>.\<close>

definition dir_names :: "disk \<Rightarrow> string list" where
  "dir_names d = remdups (map (drop (length sstables_dir))
     (filter (prefix sstables_dir) (map fst (files d))))"

definition cleanupOrphanedTempFiles :: "disk \<Rightarrow> bool \<times> disk" where
  "cleanupOrphanedTempFiles d =
     foldl (\<lambda>(ok, d) name. if ok then os_remove (sstables_dir @ name) d else (ok, d))
       (True, d) (filter (prefix ''tmp-'') (dir_names d))"

definition is_digit :: "char \<Rightarrow> bool" where
  "is_digit c \<longleftrightarrow> 48 \<le> (of_char c :: nat) \<and> (of_char c :: nat) \<le> 57"

text \<open>\<^verbatim>\<open>fmt.Sscanf(name, "%06d.sst", &n)\<close>: at most six digits, then the literal suffix.\<close>

definition sscanf_seq :: "string \<Rightarrow> nat option" where
  "sscanf_seq name =
     (let ds = takeWhile is_digit (take 6 name)
      in if ds = [] \<or> \<not> prefix ''.sst'' (drop (length ds) name) then None
         else Some (foldl (\<lambda>a c. a * 10 + (of_char c - 48)) 0 ds))"

fun load_tables ::
  "disk \<Rightarrow> string list \<Rightarrow> kv_error + ((string \<times> Table) list \<times> nat \<times> nat)" where
  "load_tables d [] = Inr ([], 0, 0)"
| "load_tables d (name # names) =
     (case read_file (sstables_dir @ name) d of
        None \<Rightarrow> Inl ErrIO
      | Some f \<Rightarrow>
         (case Open f of
            Inl _ \<Rightarrow> Inl ErrIO
          | Inr table \<Rightarrow>
             (case Iterate table of
                Inl _ \<Rightarrow> Inl ErrIO
              | Inr es \<Rightarrow>
                 (case load_tables d names of
                    Inl err \<Rightarrow> Inl err
                  | Inr (tables, maxSeq, maxVersion) \<Rightarrow>
                      Inr ((sstables_dir @ name, table) # tables,
                           (case sscanf_seq name of None \<Rightarrow> maxSeq | Some n \<Rightarrow> max n maxSeq),
                           foldl max maxVersion (map sVersion es))))))"

definition loadSSTables :: "disk \<Rightarrow> kv_error + ((string \<times> Table) list \<times> nat \<times> nat)" where
  "loadSSTables d =
     load_tables d (sort (filter (\<lambda>n. suffix ''.sst'' n \<and> \<not> prefix ''tmp-'' n) (dir_names d)))"

definition lsm_Open :: "disk \<Rightarrow> Options \<Rightarrow> (kv_error + Engine) \<times> disk" where
  "lsm_Open d opts =
     (case cleanupOrphanedTempFiles d of
        (False, d1) \<Rightarrow> (Inl ErrIO, d1)
      | (True, d1) \<Rightarrow>
         (case loadSSTables d1 of
            Inl err \<Rightarrow> (Inl err, d1)
          | Inr (tables, seq, maxVersion) \<Rightarrow>
              let records = (case read_file wal_path d1 of None \<Rightarrow> [] | Some f \<Rightarrow> ReadAll f);
                  maxVersion1 = foldl max maxVersion (map Seq records);
                  (mt, size) = foldl applyRecordToMemtable ([], 0) records
              in case os_open_create wal_path d1 of
                   (False, d2) \<Rightarrow> (Inl ErrIO, d2)
                 | (True, d2) \<Rightarrow>
                     (Inr \<lparr>edisk = d2, eopts = opts, memtable = mt, memtableSize = size,
                           sstables = tables, sstableSeq = seq, nextSeq = u64 (maxVersion1 + 1),
                           opCh = []\<rparr>, d2)))"

section \<open>Statistics\<close>

record Stats =
  MemtableBytes :: int
  MemtableEntries :: nat
  SSTables :: nat

definition lsm_Stats :: "Engine \<Rightarrow> Stats" where
  "lsm_Stats e = \<lparr>MemtableBytes = memtableSize e, MemtableEntries = length (memtable e),
     SSTables = length (sstables e)\<rparr>"

end
