(* ===== verification/Lsm_Files.thy ===== *)
theory Lsm_Files
  imports Lsm
begin

text \<open>
  File names and directory listings of the LSM engine.  SSTable names are zero-padded
  sequence numbers; below one million they are injective and their string order is the
  numeric order, which is what makes recovery load the tables oldest first.  \<open>disk_holds\<close>
  says which tables and which log records a directory contains, and recovery
  (\<open>lsm_Open\<close>) is computed from it.
\<close>

section \<open>Decimal names\<close>

definition dval :: "string \<Rightarrow> nat" where
  "dval s = foldl (\<lambda>a c. a * 10 + (of_char c - 48)) 0 s"

lemma dval_snoc: "dval (s @ [c]) = dval s * 10 + (of_char c - 48)"
  by (simp add: dval_def)

lemma of_char_digit [simp]: "n < 10 \<Longrightarrow> (of_char (char_of (48 + n) :: char) :: nat) = 48 + n"
  by (simp add: of_char_of)

lemma dval_dec: "dval (dec n) = n"
proof (induction n rule: dec.induct)
  case (1 n)
  show ?case
  proof (cases "n < 10")
    case True
    then show ?thesis by (subst dec.simps) (simp add: dval_def)
  next
    case False
    then have "dval (dec n) = dval (dec (n div 10)) * 10 + n mod 10"
      by (subst dec.simps) (simp add: dval_snoc)
    with 1 False show ?thesis by simp
  qed
qed

lemma is_digit_char [simp]: "n < (10::nat) \<Longrightarrow> is_digit (char_of (48 + n))"
  by (simp add: is_digit_def)

lemma is_digit_bounds: "is_digit c \<Longrightarrow> 48 \<le> (of_char c :: nat) \<and> (of_char c :: nat) - 48 \<le> 9"
  by (auto simp: is_digit_def)

lemma dec_digits: "list_all is_digit (dec n)"
proof (induction n rule: dec.induct)
  case (1 n)
  then show ?case by (cases "n < 10"; subst dec.simps) simp_all
qed

lemma dec_nonempty [simp]: "dec n \<noteq> []"
  by (subst dec.simps) simp

lemma length_dec_le: "n < 10 ^ Suc k \<Longrightarrow> length (dec n) \<le> Suc k"
proof (induction k arbitrary: n)
  case 0
  then show ?case by (subst dec.simps) simp
next
  case (Suc k)
  then have "length (dec (n div 10)) \<le> Suc k" by (intro Suc.IH) (simp add: less_mult_imp_div_less)
  then show ?case by (subst dec.simps) simp
qed

definition stem :: "nat \<Rightarrow> string" where
  "stem n = replicate (6 - length (dec n)) (CHR ''0'') @ dec n"

lemma sstableFileName_stem: "sstableFileName n = stem n @ ''.sst''"
  by (simp add: sstableFileName_def stem_def Let_def)

lemma dval_zeros: "dval (replicate k (CHR ''0'') @ s) = dval s"
  by (induction k) (simp_all add: dval_def)

lemma dval_stem: "dval (stem n) = n"
  by (simp add: stem_def dval_zeros dval_dec)

lemma stem_digits: "list_all is_digit (stem n)"
proof -
  have "is_digit (CHR ''0'')" by (simp add: is_digit_def)
  then show ?thesis using dec_digits [of n] by (auto simp: stem_def list_all_iff)
qed

lemma stem_nonempty [simp]: "stem n \<noteq> []"
  by (simp add: stem_def)

lemma length_stem: "n < 1000000 \<Longrightarrow> length (stem n) = 6"
  using length_dec_le [of n 5] by (simp add: stem_def)

lemma inj_sstableFileName: "sstableFileName n = sstableFileName m \<longleftrightarrow> n = m"
  by (metis append_same_eq dval_stem sstableFileName_stem)

lemma dval_Cons: "dval (c # s) = (of_char c - 48) * 10 ^ length s + dval s"
proof (induction s rule: rev_induct)
  case Nil
  show ?case by (simp add: dval_def)
next
  case (snoc x s)
  have "dval (c # s @ [x]) = dval (c # s) * 10 + (of_char x - 48)"
    using dval_snoc [of "c # s" x] by simp
  with snoc show ?case by (simp add: dval_snoc)
qed

lemma dval_bound: "list_all is_digit s \<Longrightarrow> dval s < 10 ^ length s"
proof (induction s)
  case Nil
  show ?case by (simp add: dval_def)
next
  case (Cons c s)
  then have "of_char c - 48 \<le> (9::nat)" using is_digit_bounds [of c] by simp
  then have "(of_char c - 48) * 10 ^ length s \<le> 9 * (10::nat) ^ length s" by (rule mult_le_mono1)
  moreover have "dval s < 10 ^ length s" using Cons by simp
  ultimately have "(of_char c - 48) * 10 ^ length s + dval s < 9 * 10 ^ length s + 10 ^ length s"
    by (rule add_le_less_mono)
  then show ?case by (simp add: dval_Cons)
qed

lemma digits_less_iff:
  "length xs = length ys \<Longrightarrow> list_all is_digit xs \<Longrightarrow> list_all is_digit ys \<Longrightarrow>
   dval xs < dval ys \<Longrightarrow> xs < ys"
proof (induction xs ys rule: list_induct2)
  case (Cons x xs y ys)
  have bx: "dval xs < 10 ^ length xs" and by': "dval ys < 10 ^ length xs"
    using Cons.prems Cons.hyps dval_bound [of xs] dval_bound [of ys] by auto
  define a b :: nat where "a = of_char x - 48" and "b = of_char y - 48"
  have dig: "of_char x = a + 48" "of_char y = b + 48"
    using Cons.prems by (simp_all add: is_digit_def a_def b_def)
  have lt: "a * 10 ^ length xs + dval xs < b * 10 ^ length xs + dval ys"
    using Cons.prems(3) Cons.hyps by (simp add: dval_Cons a_def b_def)
  consider "a < b" | "a = b" | "b < a" by linarith
  then show ?case
  proof cases
    case 1
    then have "x < y" by (simp add: less_char_def dig)
    then show ?thesis by simp
  next
    case 2
    then have "x = y" using dig by (metis of_char_eq_iff)
    with 2 lt Cons show ?thesis by simp
  next
    case 3
    then have "Suc b * 10 ^ length xs \<le> a * 10 ^ length xs" by (intro mult_le_mono1) simp
    with lt by' show ?thesis by simp
  qed
qed simp

lemma append_less_same: "length xs = length ys \<Longrightarrow> xs < ys \<Longrightarrow> xs @ zs < ys @ (zs :: 'a::order list)"
  by (induction xs ys rule: list_induct2) auto

lemma sstableFileName_less:
  assumes "n < m" and "m < 1000000"
  shows "sstableFileName n < sstableFileName m"
proof -
  have "stem n < stem m"
    using assms by (intro digits_less_iff) (simp_all add: length_stem stem_digits dval_stem)
  moreover have "length (stem n) = length (stem m)" using assms by (simp add: length_stem)
  ultimately show ?thesis by (simp add: sstableFileName_stem append_less_same)
qed

section \<open>Paths\<close>

lemma final_path_inj [simp]: "final_path n = final_path m \<longleftrightarrow> n = m"
  by (simp add: final_path_def inj_sstableFileName)

lemma tmp_path_inj [simp]: "tmp_path n = tmp_path m \<longleftrightarrow> n = m"
  by (simp add: tmp_path_def inj_sstableFileName)

lemma hd_sstableFileName: "\<exists>c s. sstableFileName n = c # s \<and> is_digit c"
proof -
  obtain c s where "stem n = c # s" using stem_nonempty by (metis neq_Nil_conv)
  moreover have "is_digit c" using stem_digits [of n] calculation by simp
  ultimately show ?thesis by (simp add: sstableFileName_stem)
qed

lemma not_tmp_name [simp]: "\<not> prefix ''tmp-'' (sstableFileName n)"
  using hd_sstableFileName [of n] by (auto simp: is_digit_def)

lemma suffix_sst_name [simp]: "suffix ''.sst'' (sstableFileName n)"
  by (simp add: sstableFileName_stem suffix_def)

lemma tmp_neq_final [simp]: "tmp_path n \<noteq> final_path m" "final_path m \<noteq> tmp_path n"
  using hd_sstableFileName [of m] by (auto simp: tmp_path_def final_path_def is_digit_def)

lemma wal_neq_paths [simp]:
  "wal_path \<noteq> final_path n" "wal_path \<noteq> tmp_path n" "final_path n \<noteq> wal_path" "tmp_path n \<noteq> wal_path"
  by (simp_all add: wal_path_def final_path_def tmp_path_def sstables_dir_def)

section \<open>What a data directory holds\<close>

definition tbl :: "nat \<times> SEntry list \<Rightarrow> string \<times> Table" where
  "tbl ne = (final_path (fst ne), table_of (snd ne))"

text \<open>
  The directory holds exactly the tables \<open>L\<close> (sequence number and entries, oldest first) and
  a log that replays to \<open>rs\<close>; temporary files may be left over.
\<close>

definition disk_holds :: "disk \<Rightarrow> (nat \<times> SEntry list) list \<Rightarrow> Record list \<Rightarrow> bool" where
  "disk_holds d L rs \<longleftrightarrow>
     sorted_wrt (<) (map fst L)
     \<and> (\<forall>(n, es) \<in> set L. n < 1000000 \<and> table_ok es \<and> read_file (final_path n) d = Some (sst_file es))
     \<and> (\<forall>p. read_file p d \<noteq> None \<longrightarrow> prefix sstables_dir p \<longrightarrow>
            p \<in> final_path ` fst ` set L \<or> prefix (sstables_dir @ ''tmp-'') p)
     \<and> (case read_file wal_path d of None \<Rightarrow> rs = [] | Some f \<Rightarrow> ReadAll f = rs)"

lemma set_dir_names: "n \<in> set (dir_names d) \<longleftrightarrow> read_file (sstables_dir @ n) d \<noteq> None"
proof -
  have "n \<in> set (dir_names d) \<longleftrightarrow> (\<exists>p \<in> fst ` set (files d). prefix sstables_dir p \<and> n = drop (length sstables_dir) p)"
    by (auto simp: dir_names_def)
  also have "\<dots> \<longleftrightarrow> sstables_dir @ n \<in> fst ` set (files d)"
  proof
    assume "sstables_dir @ n \<in> fst ` set (files d)"
    then show "\<exists>p \<in> fst ` set (files d). prefix sstables_dir p \<and> n = drop (length sstables_dir) p"
      by (rule rev_bexI) simp
  qed (force simp: prefix_def)
  also have "\<dots> \<longleftrightarrow> read_file (sstables_dir @ n) d \<noteq> None"
    by (simp add: read_file_def map_of_eq_None_iff)
  finally show ?thesis .
qed

lemma distinct_dir_names [simp]: "distinct (dir_names d)"
  by (simp add: dir_names_def)

lemma cleanup_fold:
  "faults d = [] \<Longrightarrow>
   foldl (\<lambda>(ok, d) name. if ok then os_remove (sstables_dir @ name) d else (ok, d)) (True, d) names
     = (True, foldl (\<lambda>d name. unset_file (sstables_dir @ name) d) d names)"
  by (induction names arbitrary: d) simp_all

lemma read_unset_fold:
  "read_file p (foldl (\<lambda>d name. unset_file (sstables_dir @ name) d) d names)
     = (if p \<in> (\<lambda>n. sstables_dir @ n) ` set names then None else read_file p d)"
  by (induction names arbitrary: d) auto

lemma faults_unset_fold:
  "faults (foldl (\<lambda>d name. unset_file (sstables_dir @ name) d) d names) = faults d"
  by (induction names arbitrary: d) auto

lemma cleanup_ok:
  assumes "faults d = []"
  shows "\<exists>d'. cleanupOrphanedTempFiles d = (True, d') \<and> faults d' = [] \<and>
    (\<forall>p. read_file p d' = (if prefix (sstables_dir @ ''tmp-'') p then None else read_file p d))"
proof -
  let ?names = "filter (prefix ''tmp-'') (dir_names d)"
  let ?d' = "foldl (\<lambda>d name. unset_file (sstables_dir @ name) d) d ?names"
  have "read_file p ?d' = (if prefix (sstables_dir @ ''tmp-'') p then None else read_file p d)" for p
  proof (cases "prefix (sstables_dir @ ''tmp-'') p")
    case True
    then obtain n where n: "p = sstables_dir @ n" "prefix ''tmp-'' n" by (auto simp: prefix_def)
    show ?thesis
    proof (cases "read_file p d = None")
      case True
      then show ?thesis by (simp add: read_unset_fold)
    next
      case False
      with n have "n \<in> set ?names" by (simp add: set_dir_names)
      with n True show ?thesis by (simp add: read_unset_fold)
    qed
  next
    case False
    then have "p \<notin> (\<lambda>n. sstables_dir @ n) ` set ?names" by auto
    then show ?thesis using False by (simp add: read_unset_fold)
  qed
  then show ?thesis
    using assms cleanup_fold [of d ?names] faults_unset_fold [of d ?names]
    by (simp add: cleanupOrphanedTempFiles_def)
qed

lemma sscanf_name:
  assumes "n < 1000000"
  shows "sscanf_seq (sstableFileName n) = Some n"
proof -
  have "takeWhile is_digit (take 6 (sstableFileName n)) = stem n"
    using assms stem_digits [of n]
    by (simp add: sstableFileName_stem length_stem takeWhile_eq_all_conv list_all_iff)
  then show ?thesis
    using dval_stem [of n] by (simp add: sscanf_seq_def sstableFileName_stem dval_def Let_def)
qed

lemma load_tables_ok:
  assumes "\<forall>(n, es) \<in> set L. n < 1000000 \<and> table_ok es \<and> read_file (final_path n) d = Some (sst_file es)"
  shows "\<exists>ms mv. load_tables d (map (\<lambda>ne. sstableFileName (fst ne)) L) = Inr (map tbl L, ms, mv)
           \<and> ms < 1000000 \<and> (\<forall>n \<in> fst ` set L. n \<le> ms)"
  using assms
proof (induction L)
  case (Cons ne L)
  obtain n es where ne: "ne = (n, es)" by fastforce
  from Cons obtain ms mv where IH: "load_tables d (map (\<lambda>ne. sstableFileName (fst ne)) L) = Inr (map tbl L, ms, mv)"
    "ms < 1000000" "\<forall>n \<in> fst ` set L. n \<le> ms" by auto
  have n: "n < 1000000" "table_ok es" "read_file (sstables_dir @ sstableFileName n) d = Some (sst_file es)"
    using Cons.prems ne by (auto simp: final_path_def)
  then show ?case
    using IH by (auto simp: ne tbl_def final_path_def Open_sst_file Iterate_table_of sscanf_name)
qed simp

lemma sorted_names:
  assumes "sorted_wrt (<) (map fst L)" and "\<forall>(n, es) \<in> set L. n < 1000000"
  shows "sorted_wrt (<) (map (\<lambda>ne. sstableFileName (fst ne)) L)"
  using assms by (induction L) (auto intro!: sstableFileName_less split: prod.splits)

lemma sorted_wrt_less_iff: "sorted_wrt (<) xs \<longleftrightarrow> sorted xs \<and> distinct (xs :: 'a::linorder list)"
  by (rule strict_sorted_iff)

lemma loadSSTables_ok:
  assumes holds: "disk_holds d L rs" and notmp: "\<forall>p. prefix (sstables_dir @ ''tmp-'') p \<longrightarrow> read_file p d = None"
  shows "\<exists>ms mv. loadSSTables d = Inr (map tbl L, ms, mv) \<and> ms < 1000000 \<and> (\<forall>n \<in> fst ` set L. n \<le> ms)"
proof -
  let ?names = "map (\<lambda>ne. sstableFileName (fst ne)) L"
  let ?ls = "filter (\<lambda>n. suffix ''.sst'' n \<and> \<not> prefix ''tmp-'' n) (dir_names d)"
  have L: "\<forall>(n, es) \<in> set L. n < 1000000 \<and> table_ok es \<and> read_file (final_path n) d = Some (sst_file es)"
    and sorted: "sorted_wrt (<) (map fst L)" using holds by (auto simp: disk_holds_def)
  have "x \<in> set ?ls \<longleftrightarrow> x \<in> set ?names" for x
  proof
    assume "x \<in> set ?ls"
    then have x: "read_file (sstables_dir @ x) d \<noteq> None" "\<not> prefix ''tmp-'' x" by (auto simp: set_dir_names)
    then have "sstables_dir @ x \<in> final_path ` fst ` set L"
      using holds by (auto simp: disk_holds_def)
    then show "x \<in> set ?names" by (auto simp: final_path_def)
  next
    assume "x \<in> set ?names"
    then obtain n es where "(n, es) \<in> set L" "x = sstableFileName n" by auto
    with L show "x \<in> set ?ls" by (auto simp: set_dir_names final_path_def)
  qed
  then have "set (sort ?ls) = set ?names" by auto
  moreover have "sorted ?names" "distinct ?names"
    using sorted_names [OF sorted] L by (auto simp: sorted_wrt_less_iff)
  moreover have "sorted (sort ?ls)" "distinct (sort ?ls)" by simp_all
  ultimately have "sort ?ls = ?names" by (intro sorted_distinct_set_unique)
  then show ?thesis using load_tables_ok [OF L] by (simp add: loadSSTables_def)
qed

text \<open>Recovery rebuilds the tables in order and the memtable from the log.\<close>

lemma lsm_Open_ok:
  assumes holds: "disk_holds d L rs" and ok: "faults d = []"
  shows "\<exists>e d'. lsm_Open d opts = (Inr e, d') \<and> edisk e = d' \<and> faults d' = [] \<and> opCh e = []
    \<and> disk_holds d' L rs \<and> read_file wal_path d' = Some (case read_file wal_path d of None \<Rightarrow> [] | Some f \<Rightarrow> f)
    \<and> (\<forall>p. prefix (sstables_dir @ ''tmp-'') p \<longrightarrow> read_file p d' = None)
    \<and> sstables e = map tbl L \<and> (memtable e, memtableSize e) = foldl applyRecordToMemtable ([], 0) rs
    \<and> sstableSeq e < 1000000 \<and> (\<forall>n \<in> fst ` set L. n \<le> sstableSeq e) \<and> eopts e = opts"
proof -
  obtain d1 where d1: "cleanupOrphanedTempFiles d = (True, d1)" "faults d1 = []"
    "\<forall>p. read_file p d1 = (if prefix (sstables_dir @ ''tmp-'') p then None else read_file p d)"
    using cleanup_ok [OF ok] by blast
  have nowal: "\<not> prefix (sstables_dir @ ''tmp-'') wal_path"
    and nofin: "\<not> prefix (sstables_dir @ ''tmp-'') (final_path n)" for n
    using not_tmp_name [of n] by (simp_all add: sstables_dir_def wal_path_def final_path_def)
  have h1: "disk_holds d1 L rs" using holds nowal nofin by (auto simp: disk_holds_def d1(3))
  obtain ms mv where tabs: "loadSSTables d1 = Inr (map tbl L, ms, mv)" "ms < 1000000"
    "\<forall>n \<in> fst ` set L. n \<le> ms" using loadSSTables_ok [OF h1] d1(3) by auto
  have recs: "(case read_file wal_path d1 of None \<Rightarrow> [] | Some f \<Rightarrow> ReadAll f) = rs"
    using h1 by (auto simp: disk_holds_def split: option.splits)
  obtain mt size where ms: "foldl applyRecordToMemtable ([], 0) rs = (mt, size)" by fastforce
  let ?d2 = "if read_file wal_path d1 = None then set_file wal_path [] d1 else d1"
  have open2: "os_open_create wal_path d1 = (True, ?d2)" using d1(2) by (simp add: os_open_create_def)
  have "\<not> prefix sstables_dir wal_path" by (simp add: sstables_dir_def wal_path_def)
  then have h2: "disk_holds ?d2 L rs"
    using h1 by (fastforce simp: disk_holds_def split: option.splits if_splits)
  have wal2: "read_file wal_path ?d2 = Some (case read_file wal_path d of None \<Rightarrow> [] | Some f \<Rightarrow> f)"
    using d1(3) nowal by (auto split: option.splits)
  show ?thesis
    using d1 tabs recs ms open2 h2 wal2 nowal by (auto simp: lsm_Open_def)
qed

end
