(* ===== verification/Lsm_Correct.thy ===== *)
theory Lsm_Correct
  imports Lsm_Files
begin

text \<open>
  Correctness of the LSM engine.  \<open>lsm_rep e L rs\<close> relates an engine to the tables and log
  records on its disk; the content it represents is the tables merged oldest to newest under
  the memtable.  Reads return the content's live entries; batches, flushes and compactions keep
  the representation; so the engine is an instance of the contract \<open>kv_engine\<close>.
\<close>

section \<open>Content\<close>

definition by_key :: "SEntry list \<Rightarrow> string \<rightharpoonup> SEntry" where
  "by_key es = map_of (map (\<lambda>e. (sKey e, e)) es)"

definition tmap :: "SEntry list \<Rightarrow> string \<rightharpoonup> Entry" where
  "tmap es k = map_option toStorageEntry (by_key es k)"

definition tables_map :: "SEntry list list \<Rightarrow> string \<rightharpoonup> Entry" where
  "tables_map ts = foldl (\<lambda>m es. m ++ tmap es) Map.empty ts"

definition content :: "(nat \<times> SEntry list) list \<Rightarrow> (string \<times> Entry) list \<Rightarrow> string \<rightharpoonup> Entry" where
  "content L mt = tables_map (map snd L) ++ map_of mt"

lemma tables_map_snoc [simp]: "tables_map (ts @ [es]) = tables_map ts ++ tmap es"
  by (simp add: tables_map_def)

lemma tables_map_Nil [simp]: "tables_map [] = Map.empty"
  by (simp add: tables_map_def)

lemma lookup_sstables_live:
  assumes "\<forall>(n, es) \<in> set L. table_ok es"
  shows "lookup_sstables t k (rev (map tbl L)) =
    (case live t (tables_map (map snd L)) k of None \<Rightarrow> Inl ErrKeyNotFound | Some e \<Rightarrow> Inr e)"
  using assms
proof (induction L rule: rev_induct)
  case Nil
  show ?case by (simp add: live_def)
next
  case (snoc ne L)
  obtain n es where ne: "ne = (n, es)" by fastforce
  then have get: "Get (table_of es) k = Inr (by_key es k)"
    using snoc.prems by (simp add: Get_table_of by_key_def)
  show ?case
  proof (cases "by_key es k")
    case None
    then have "(tables_map (map snd L) ++ tmap es) k = tables_map (map snd L) k"
      by (simp add: tmap_def map_add_def)
    with None snoc get show ?thesis by (simp add: ne tbl_def live_def)
  next
    case (Some se)
    then have "(tables_map (map snd L) ++ tmap es) k = Some (toStorageEntry se)"
      by (simp add: tmap_def)
    with Some get show ?thesis by (simp add: ne tbl_def checkedEntry_def live_def)
  qed
qed

section \<open>Entries in memory and on disk\<close>

definition entry_fits :: "string \<Rightarrow> Entry \<Rightarrow> bool" where
  "entry_fits k en \<longleftrightarrow>
     length k < 2 ^ 16 \<and> length (Consistency en) < 2 ^ 8 \<and> length (Value en) < 2 ^ 32
     \<and> (case ExpiresAt en of None \<Rightarrow> True | Some t \<Rightarrow> t \<noteq> 0 \<and> in_s64 t) \<and> Version en < 2 ^ 64"

lemma to_sst_and_back: "entry_fits k en \<Longrightarrow> toStorageEntry (toSSTableEntry k en) = en"
  by (auto simp: entry_fits_def toStorageEntry_def toSSTableEntry_def UnixNano_def split: option.splits)

lemma sentry_ok_toSSTableEntry: "entry_fits k en \<Longrightarrow> sentry_ok (toSSTableEntry k en)"
  by (auto simp: entry_fits_def sentry_ok_def toSSTableEntry_def UnixNano_def in_s64_def split: option.splits)

lemma sKey_toSSTableEntry [simp]: "sKey (toSSTableEntry k en) = k"
  by (simp add: toSSTableEntry_def)

definition mt_ok :: "(string \<times> Entry) list \<Rightarrow> bool" where
  "mt_ok mt \<longleftrightarrow> distinct (map fst mt) \<and> (\<forall>(k, en) \<in> set mt. entry_fits k en)"

lemma set_AList_update: "set (AList.update k v al) \<subseteq> insert (k, v) (set al)"
  by (induction al) auto

lemma mt_ok_update: "mt_ok mt \<Longrightarrow> entry_fits k en \<Longrightarrow> mt_ok (AList.update k en mt)"
  using set_AList_update [of k en mt] by (fastforce simp: mt_ok_def)

lemma mt_ok_applyRecord:
  assumes "mt_ok (fst ms)" and "record_ok rec"
  shows "mt_ok (fst (applyRecordToMemtable ms rec))"
proof -
  have "entry_fits (rKey rec) \<lparr>Value = rValue rec, Consistency = rConsistency rec,
      ExpiresAt = (if ExpiresAtUnixNano rec \<noteq> 0 then Some (ExpiresAtUnixNano rec) else None),
      Tombstone = False, Version = Seq rec\<rparr>"
    and "entry_fits (rKey rec) (tombstone (Seq rec))"
    using assms(2) by (auto simp: entry_fits_def record_ok_def tombstone_def)
  with assms(1) show ?thesis
    by (cases ms; cases "Op rec")
      (auto simp: applyRecordToMemtable_def Let_def intro!: mt_ok_update split del: if_split)
qed

lemma mt_ok_replay:
  "mt_ok (fst ms) \<Longrightarrow> list_all record_ok rs \<Longrightarrow> mt_ok (fst (foldl applyRecordToMemtable ms rs))"
  by (induction rs arbitrary: ms) (auto simp: mt_ok_applyRecord)

section \<open>The representation\<close>

definition lsm_rep :: "Engine \<Rightarrow> (nat \<times> SEntry list) list \<Rightarrow> Record list \<Rightarrow> bool" where
  "lsm_rep e L rs \<longleftrightarrow>
     faults (edisk e) = [] \<and> disk_holds (edisk e) L rs
     \<and> read_file wal_path (edisk e) = Some (concat (map encode rs)) \<and> list_all record_ok rs
     \<and> (\<forall>p. prefix (sstables_dir @ ''tmp-'') p \<longrightarrow> read_file p (edisk e) = None)
     \<and> sstables e = map tbl L
     \<and> (memtable e, memtableSize e) = foldl applyRecordToMemtable ([], 0) rs
     \<and> sstableSeq e < 1000000 \<and> (\<forall>n \<in> fst ` set L. n \<le> sstableSeq e)"

definition lsm_view :: "Engine \<Rightarrow> time \<Rightarrow> string \<Rightarrow> Entry option" where
  "lsm_view e t k = (case lookupLocked t k e of Inl _ \<Rightarrow> None | Inr en \<Rightarrow> Some en)"

lemma rep_tables_ok: "lsm_rep e L rs \<Longrightarrow> \<forall>(n, es) \<in> set L. table_ok es"
  by (auto simp: lsm_rep_def disk_holds_def)

lemma rep_mt_ok:
  assumes "lsm_rep e L rs"
  shows "mt_ok (memtable e)"
proof -
  have "mt_ok (fst (foldl applyRecordToMemtable ([], 0) rs))"
    by (rule mt_ok_replay) (use assms in \<open>auto simp: mt_ok_def lsm_rep_def\<close>)
  then show ?thesis using assms by (metis fst_conv lsm_rep_def)
qed

lemma lookup_content:
  assumes "\<forall>(n, es) \<in> set L. table_ok es" and "sstables e = map tbl L"
  shows "lookupLocked t k e =
    (case live t (content L (memtable e)) k of None \<Rightarrow> Inl ErrKeyNotFound | Some en \<Rightarrow> Inr en)"
proof (cases "map_of (memtable e) k")
  case None
  then have "live t (content L (memtable e)) k = live t (tables_map (map snd L)) k"
    by (simp add: content_def live_def map_add_def)
  with None show ?thesis
    using lookup_sstables_live [OF assms(1)] assms(2) by (simp add: lookupLocked_def)
next
  case (Some en)
  then have "content L (memtable e) k = Some en" by (simp add: content_def)
  with Some show ?thesis by (simp add: lookupLocked_def checkedEntry_def live_def)
qed

lemma rep_lookup:
  "lsm_rep e L rs \<Longrightarrow> lookupLocked t k e =
    (case live t (content L (memtable e)) k of None \<Rightarrow> Inl ErrKeyNotFound | Some en \<Rightarrow> Inr en)"
  by (rule lookup_content) (auto simp: rep_tables_ok lsm_rep_def)

lemma rep_view: "lsm_rep e L rs \<Longrightarrow> lsm_view e t = live t (content L (memtable e))"
  by (auto simp: lsm_view_def rep_lookup fun_eq_iff split: option.splits)

section \<open>Durability\<close>

lemma rep_reopen:
  assumes "lsm_rep e L rs"
  shows "\<exists>e' d'. lsm_Open (edisk e) opts = (Inr e', d') \<and> edisk e' = d' \<and> opCh e' = [] \<and> eopts e' = opts
    \<and> lsm_rep e' L rs \<and> memtable e' = memtable e \<and> memtableSize e' = memtableSize e"
proof -
  have h: "disk_holds (edisk e) L rs" "faults (edisk e) = []" using assms by (auto simp: lsm_rep_def)
  obtain e' d' where e': "lsm_Open (edisk e) opts = (Inr e', d')" "edisk e' = d'" "faults d' = []" "opCh e' = []"
    "disk_holds d' L rs"
    "read_file wal_path d' = Some (case read_file wal_path (edisk e) of None \<Rightarrow> [] | Some f \<Rightarrow> f)"
    "\<forall>p. prefix (sstables_dir @ ''tmp-'') p \<longrightarrow> read_file p d' = None"
    "sstables e' = map tbl L" "(memtable e', memtableSize e') = foldl applyRecordToMemtable ([], 0) rs"
    "sstableSeq e' < 1000000" "\<forall>n \<in> fst ` set L. n \<le> sstableSeq e'" "eopts e' = opts"
    using lsm_Open_ok [OF h, of opts] by auto
  then have "lsm_rep e' L rs" using assms by (auto simp: lsm_rep_def)
  moreover have "memtable e' = memtable e" "memtableSize e' = memtableSize e"
    using e'(9) assms by (metis lsm_rep_def prod.inject)+
  ultimately show ?thesis using e' by blast
qed

section \<open>Writing a table\<close>

lemma length_encodeEntry: "length (encodeEntry e) = 24 + length (sKey e) + length (sConsistency e) + length (sValue e)"
  by (simp add: encodeEntry_def)

lemma length_index_le: "length (concat (map encode_index_entry (data_index off es))) \<le> length (data_block es)"
proof (induction es arbitrary: off)
  case (Cons e es)
  show ?case
    using Cons.IH [of "u64 (off + length (encodeEntry e))"]
    by (simp add: data_block_def encode_index_entry_def length_encodeEntry)
qed simp

lemma length_le_data_block: "length es \<le> length (data_block es)"
  by (induction es) (auto simp: data_block_def length_encodeEntry)

lemma table_okI:
  assumes "list_all sentry_ok es" and "distinct (map sKey es)" and "length (data_block es) < 2 ^ 64"
  shows "table_ok es"
  using assms length_index_le [of 0 es] length_le_data_block [of es]
  by (auto simp: table_ok_def index_block_def)

lemma WriteSorted_ok:
  assumes "faults d = []"
  shows "\<exists>d'. WriteSorted p ses d = (True, d') \<and> faults d' = [] \<and>
    (\<forall>q. read_file q d' = (if q = p then Some (sst_file ses) else read_file q d))"
proof -
  obtain d' where d': "os_write_all p (WriteSorted_chunks ses) (set_file p [] d) = (True, d')"
    "faults d' = []" "read_file p d' = Some ([] @ concat (WriteSorted_chunks ses))"
    "\<forall>q. q \<noteq> p \<longrightarrow> read_file q d' = read_file q (set_file p [] d)"
    using os_write_all_ok [of "set_file p [] d" p "[]"] assms by auto
  then show ?thesis using assms by (auto simp: WriteSorted_def sst_file_def)
qed

lemma writeAndOpenSSTable_ok:
  assumes "faults (edisk e) = []" and "table_ok ses" and n: "n = sstableSeq e + 1"
  shows "\<exists>d'. writeAndOpenSSTable ses e = (Inr (tbl (n, ses)), e\<lparr>sstableSeq := n, edisk := d'\<rparr>)
    \<and> faults d' = []
    \<and> (\<forall>p. read_file p d' = (if p = final_path n then Some (sst_file ses)
                              else if p = tmp_path n then None else read_file p (edisk e)))"
proof -
  obtain d1 where d1: "WriteSorted (tmp_path n) ses (edisk e) = (True, d1)" "faults d1 = []"
    "\<forall>q. read_file q d1 = (if q = tmp_path n then Some (sst_file ses) else read_file q (edisk e))"
    using WriteSorted_ok [OF assms(1)] by blast
  let ?d2 = "set_file (final_path n) (sst_file ses) (unset_file (tmp_path n) d1)"
  have "os_rename (tmp_path n) (final_path n) d1 = (True, ?d2)" using d1 by simp
  moreover have "os_sync ?d2 = (True, ?d2)" using d1 by simp
  ultimately have "writeAndOpenSSTable ses e = (Inr (tbl (n, ses)), e\<lparr>sstableSeq := n, edisk := ?d2\<rparr>)"
    using d1 assms by (simp add: writeAndOpenSSTable_def Let_def Open_sst_file tbl_def)
  then show ?thesis using d1 by auto
qed

lemma Reset_ok:
  assumes "faults d = []" and "read_file wal_path d = Some old"
  shows "\<exists>d'. Reset d = (True, d') \<and> faults d' = [] \<and>
    (\<forall>q. read_file q d' = (if q = wal_path then Some [] else read_file q d))"
  using assms by (simp add: Reset_def os_truncate_def)

lemma AppendBatch_ok:
  assumes "faults d = []" and "read_file wal_path d = Some old"
  shows "\<exists>d'. AppendBatch rs d = (True, d') \<and> faults d' = [] \<and>
    (\<forall>q. read_file q d' = (if q = wal_path then Some (old @ concat (map encode rs)) else read_file q d))"
proof (cases "rs = []")
  case True
  with assms show ?thesis by (auto simp: AppendBatch_def)
next
  case False
  obtain d' where "os_write_all wal_path (map encode rs) d = (True, d')" "faults d' = []"
    "read_file wal_path d' = Some (old @ concat (map encode rs))"
    "\<forall>q. q \<noteq> wal_path \<longrightarrow> read_file q d' = read_file q d"
    using os_write_all_ok [OF assms] by blast
  with False show ?thesis by (auto simp: AppendBatch_def)
qed

section \<open>The entries of a flush\<close>

definition mt_entries :: "(string \<times> Entry) list \<Rightarrow> SEntry list" where
  "mt_entries mt = map (\<lambda>k. toSSTableEntry k (the (map_of mt k))) (sort (map fst mt))"

definition mt_bytes :: "(string \<times> Entry) list \<Rightarrow> nat" where
  "mt_bytes mt = sum_list (map (\<lambda>(k, en). length (encodeEntry (toSSTableEntry k en))) mt)"

lemma sKey_mt_entries: "map sKey (mt_entries mt) = sort (map fst mt)"
  by (simp add: mt_entries_def o_def)

lemma by_key_map:
  "distinct ks \<Longrightarrow> (\<And>k. k \<in> set ks \<Longrightarrow> sKey (f k) = k) \<Longrightarrow>
   by_key (map f ks) k = (if k \<in> set ks then Some (f k) else None)"
  by (induction ks) (auto simp: by_key_def)

lemma tmap_mt_entries:
  assumes "mt_ok mt"
  shows "tmap (mt_entries mt) = map_of mt"
proof
  fix k
  have d: "distinct (sort (map fst mt))" using assms by (simp add: mt_ok_def)
  show "tmap (mt_entries mt) k = map_of mt k"
  proof (cases "map_of mt k")
    case None
    then have "k \<notin> fst ` set mt" by (simp add: map_of_eq_None_iff)
    with None show ?thesis using d by (simp add: tmap_def mt_entries_def by_key_map)
  next
    case (Some en)
    then have "(k, en) \<in> set mt" by (rule map_of_SomeD)
    moreover from this have "k \<in> fst ` set mt" by force
    ultimately show ?thesis
      using Some d assms
      by (auto simp: tmap_def mt_entries_def by_key_map mt_ok_def to_sst_and_back)
  qed
qed

lemma sum_list_sort_distinct:
  fixes g :: "'k::linorder \<Rightarrow> nat"
  shows "distinct ks \<Longrightarrow> sum_list (map g (sort ks)) = sum_list (map g ks)"
  by (simp add: sum_list_distinct_conv_sum_set)

lemma sum_list_sorted_keys:
  fixes f :: "'k::linorder \<Rightarrow> 'v \<Rightarrow> nat"
  assumes "distinct (map fst mt)"
  shows "sum_list (map (\<lambda>k. f k (the (map_of mt k))) (sort (map fst mt)))
           = sum_list (map (\<lambda>(k, v). f k v) mt)"
proof -
  have "sum_list (map (\<lambda>k. f k (the (map_of mt k))) (sort (map fst mt)))
      = sum_list (map (\<lambda>k. f k (the (map_of mt k))) (map fst mt))"
    using assms by (rule sum_list_sort_distinct)
  also have "map (\<lambda>k. f k (the (map_of mt k))) (map fst mt) = map (\<lambda>(k, v). f k v) mt"
    using assms by (auto intro!: map_cong)
  finally show ?thesis .
qed

lemma length_data_block_mt:
  "distinct (map fst mt) \<Longrightarrow> length (data_block (mt_entries mt)) = mt_bytes mt"
  using sum_list_sorted_keys [of mt "\<lambda>k en. length (encodeEntry (toSSTableEntry k en))"]
  by (simp add: data_block_def mt_entries_def mt_bytes_def length_concat o_def)

lemma table_ok_mt_entries:
  assumes "mt_ok mt" and "mt_bytes mt < 2 ^ 64"
  shows "table_ok (mt_entries mt)"
proof (rule table_okI)
  show "list_all sentry_ok (mt_entries mt)"
    using assms(1)
    by (auto simp: list_all_iff mt_entries_def mt_ok_def intro!: sentry_ok_toSSTableEntry)
  show "distinct (map sKey (mt_entries mt))"
    using assms(1) by (simp add: sKey_mt_entries mt_ok_def)
  show "length (data_block (mt_entries mt)) < 2 ^ 64"
    using assms by (simp add: length_data_block_mt mt_ok_def)
qed

section \<open>Merging the tables\<close>

definition merged_ok :: "(string \<times> SEntry) list \<Rightarrow> bool" where
  "merged_ok m \<longleftrightarrow> distinct (map fst m) \<and> (\<forall>(k, en) \<in> set m. sKey en = k \<and> sentry_ok en)"

definition merged_bytes :: "(string \<times> SEntry) list \<Rightarrow> nat" where
  "merged_bytes m = sum_list (map (\<lambda>(k, en). length (encodeEntry en)) m)"

definition merge_one :: "(string \<times> SEntry) list \<Rightarrow> SEntry list \<Rightarrow> (string \<times> SEntry) list" where
  "merge_one m es = foldl (\<lambda>m en. AList.update (sKey en) en m) m es"

lemma merged_bytes_update: "merged_bytes (AList.update k en m) \<le> merged_bytes m + length (encodeEntry en)"
  by (induction m) (auto simp: merged_bytes_def)

lemma merged_ok_update: "merged_ok m \<Longrightarrow> sentry_ok en \<Longrightarrow> merged_ok (AList.update (sKey en) en m)"
  using set_AList_update [of "sKey en" en m] by (fastforce simp: merged_ok_def)

lemma merge_one_ok:
  "merged_ok m \<Longrightarrow> list_all sentry_ok es \<Longrightarrow>
   merged_ok (merge_one m es) \<and> merged_bytes (merge_one m es) \<le> merged_bytes m + length (data_block es)"
proof (induction es arbitrary: m)
  case (Cons en es)
  let ?m = "AList.update (sKey en) en m"
  have "merged_ok ?m" "list_all sentry_ok es" using Cons.prems by (simp_all add: merged_ok_update)
  then have "merged_ok (merge_one ?m es)"
    and "merged_bytes (merge_one ?m es) \<le> merged_bytes ?m + length (data_block es)"
    using Cons.IH by blast+
  moreover have "merge_one m (en # es) = merge_one ?m es" by (simp add: merge_one_def)
  moreover have "length (data_block (en # es)) = length (encodeEntry en) + length (data_block es)"
    by (simp add: data_block_def)
  ultimately show ?case using merged_bytes_update [of "sKey en" en m] by simp
qed (simp add: merge_one_def data_block_def)

lemma map_of_merge_one:
  "distinct (map sKey es) \<Longrightarrow> map_of (merge_one m es) = map_of m ++ by_key es"
proof (induction es arbitrary: m)
  case (Cons en es)
  then have "sKey en \<notin> dom (by_key es)" by (auto simp: by_key_def dom_map_of_conv_image_fst)
  then have "(map_of m)(sKey en \<mapsto> en) ++ by_key es = (map_of m ++ by_key es)(sKey en \<mapsto> en)"
    by (simp add: map_add_upd_left)
  also have "\<dots> = map_of m ++ by_key (en # es)" by (simp add: by_key_def)
  finally show ?case using Cons by (simp add: merge_one_def)
qed (simp add: merge_one_def by_key_def)

lemma merge_sstables_ok:
  assumes "\<forall>(n, es) \<in> set L. table_ok es" and "merged_ok m"
  shows "\<exists>m'. merge_sstables (map tbl L) m = Inr m' \<and> merged_ok m'
    \<and> merged_bytes m' \<le> merged_bytes m + sum_list (map (\<lambda>ne. length (data_block (snd ne))) L)
    \<and> map_of m' = foldl (\<lambda>a es. a ++ by_key es) (map_of m) (map snd L)"
  using assms
proof (induction L arbitrary: m)
  case (Cons ne L)
  obtain n es where ne: "ne = (n, es)" by fastforce
  with Cons.prems have es: "table_ok es" by simp
  then have mo: "merged_ok (merge_one m es)"
    "merged_bytes (merge_one m es) \<le> merged_bytes m + length (data_block es)"
    using merge_one_ok [OF Cons.prems(2), of es] by (auto simp: table_ok_def)
  have one: "map_of (merge_one m es) = map_of m ++ by_key es"
    using es by (intro map_of_merge_one) (simp add: table_ok_def)
  obtain m' where m': "merge_sstables (map tbl L) (merge_one m es) = Inr m'" "merged_ok m'"
    "merged_bytes m' \<le> merged_bytes (merge_one m es) + sum_list (map (\<lambda>ne. length (data_block (snd ne))) L)"
    "map_of m' = foldl (\<lambda>a es. a ++ by_key es) (map_of (merge_one m es)) (map snd L)"
    using Cons.IH [OF _ mo(1)] Cons.prems(1) by auto
  have "merge_sstables (map tbl (ne # L)) m = Inr m'"
    using m'(1) es by (simp add: ne tbl_def Iterate_table_of merge_one_def)
  with m' mo(2) one show ?case by (auto simp: ne)
qed simp

lemma foldl_by_key_tables_map:
  "map_option toStorageEntry (foldl (\<lambda>a es. a ++ by_key es) Map.empty ts k) = tables_map ts k"
  by (induction ts rule: rev_induct) (auto simp: tables_map_def tmap_def map_add_def split: option.splits)

section \<open>The entries of a compaction\<close>

definition compacted :: "time \<Rightarrow> (string \<times> SEntry) list \<Rightarrow> SEntry list" where
  "compacted now m =
     map (\<lambda>k. the (map_of m k)) (sort (map fst (filter (\<lambda>(k, en). keep_compacted now en) m)))"

lemma keep_compacted_iff:
  "keep_compacted now en \<longleftrightarrow> \<not> Tombstone (toStorageEntry en) \<and> \<not> Expired (toStorageEntry en) now"
  by (auto simp: keep_compacted_def toStorageEntry_def Expired_def)

lemma by_key_compacted:
  assumes "merged_ok m"
  shows "by_key (compacted now m) k = (case map_of m k of
     None \<Rightarrow> None | Some en \<Rightarrow> if keep_compacted now en then Some en else None)"
proof -
  let ?ks = "map fst (filter (\<lambda>(k, en). keep_compacted now en) m)"
  have d: "distinct (map fst m)" using assms by (simp add: merged_ok_def)
  have dk: "distinct (sort ?ks)" using d by (simp add: distinct_map_filter)
  have mem: "k \<in> set ?ks \<longleftrightarrow> (\<exists>en. map_of m k = Some en \<and> keep_compacted now en)" for k
    using d by (force simp: map_of_eq_Some_iff)
  have "sKey (the (map_of m k)) = k" if "k \<in> set (sort ?ks)" for k
  proof -
    from that obtain en where "map_of m k = Some en" using mem by auto
    then show ?thesis using assms map_of_SomeD [of m k en] by (auto simp: merged_ok_def)
  qed
  then have "by_key (compacted now m) k = (if k \<in> set (sort ?ks) then Some (the (map_of m k)) else None)"
    unfolding compacted_def by (intro by_key_map [OF dk])
  then show ?thesis using mem [of k] by (auto simp del: set_map split: option.splits)
qed

lemma live_compacted:
  assumes "merged_ok m" and "\<And>k. map_option toStorageEntry (map_of m k) = tm k" and "now \<le> t"
  shows "live t (tmap (compacted now m) ++ r) = live t (tm ++ r)"
proof
  fix k
  have tm: "tm k = map_option toStorageEntry (map_of m k)" using assms(2) by simp
  have "live t (tmap (compacted now m)) k = live t tm k"
    using by_key_compacted [OF assms(1), of now k] Expired_mono [OF _ assms(3)]
    by (auto simp: live_def tmap_def tm keep_compacted_iff split: option.splits)
  then show "live t (tmap (compacted now m) ++ r) k = live t (tm ++ r) k"
    by (auto simp: live_def map_add_def split: option.splits)
qed

lemma sum_list_filter_le: "sum_list (map f (filter P xs)) \<le> (sum_list (map f xs) :: nat)"
  by (induction xs) auto

lemma table_ok_compacted:
  assumes "merged_ok m" and "merged_bytes m < 2 ^ 64"
  shows "table_ok (compacted now m)"
proof (rule table_okI)
  let ?f = "filter (\<lambda>(k, en). keep_compacted now en) m"
  have d: "distinct (map fst m)" "distinct (map fst ?f)"
    using assms by (auto simp: merged_ok_def distinct_map_filter)
  have get: "the (map_of m (fst x)) = snd x" if "x \<in> set ?f" for x
  proof -
    obtain k en where "x = (k, en)" by fastforce
    moreover from this that have "map_of m k = Some en"
      using d(1) by (auto intro: map_of_is_SomeI)
    ultimately show ?thesis by simp
  qed
  have keys: "map sKey (compacted now m) = sort (map fst ?f)"
  proof -
    have "map sKey (compacted now m) = map (\<lambda>k. sKey (the (map_of m k))) (sort (map fst ?f))"
      by (simp add: compacted_def o_def)
    also have "\<dots> = map (\<lambda>k. k) (sort (map fst ?f))"
      using get assms(1) by (intro map_cong) (fastforce simp: merged_ok_def)+
    finally show ?thesis by simp
  qed
  show "distinct (map sKey (compacted now m))" using d by (simp add: keys)
  show "list_all sentry_ok (compacted now m)"
    using get assms(1) by (fastforce simp: list_all_iff compacted_def merged_ok_def)
  have "length (data_block (compacted now m))
      = sum_list (map (\<lambda>k. length (encodeEntry (the (map_of m k)))) (sort (map fst ?f)))"
    by (simp add: data_block_def compacted_def length_concat o_def)
  also have "\<dots> = sum_list (map (\<lambda>k. length (encodeEntry (the (map_of m k)))) (map fst ?f))"
    by (rule sum_list_sort_distinct) (rule d(2))
  also have "map (\<lambda>k. length (encodeEntry (the (map_of m k)))) (map fst ?f)
      = map (\<lambda>(k, en). length (encodeEntry en)) ?f"
    using get by (auto intro!: map_cong)
  also have "sum_list \<dots> \<le> merged_bytes m"
    unfolding merged_bytes_def by (rule sum_list_filter_le)
  finally show "length (data_block (compacted now m)) < 2 ^ 64" using assms(2) by simp
qed

section \<open>Compaction and flush\<close>

definition lsm_bytes :: "Engine \<Rightarrow> nat" where
  "lsm_bytes e = sum_list (map (\<lambda>pt. tindexOffset (snd pt)) (sstables e)) + mt_bytes (memtable e)"

lemma lsm_bytes_tables:
  "sstables e = map tbl L \<Longrightarrow>
   lsm_bytes e = sum_list (map (\<lambda>ne. length (data_block (snd ne))) L) + mt_bytes (memtable e)"
  by (simp add: lsm_bytes_def tbl_def table_of_def o_def)

lemma remove_files_ok:
  "faults d = [] \<Longrightarrow> faults (remove_files ps d) = [] \<and>
   (\<forall>q. read_file q (remove_files ps d) = (if q \<in> set ps then None else read_file q d))"
  by (induction ps arbitrary: d) auto

lemma not_tmp_final: "\<not> prefix (sstables_dir @ ''tmp-'') (final_path n)"
  using not_tmp_name [of n] by (simp add: final_path_def sstables_dir_def)

lemma prefix_tmp_path: "prefix (sstables_dir @ ''tmp-'') (tmp_path n)"
  by (simp add: tmp_path_def)

lemma prefix_dir_final: "prefix sstables_dir (final_path n)"
  by (simp add: final_path_def)

lemma not_prefix_wal: "\<not> prefix sstables_dir wal_path" "\<not> prefix (sstables_dir @ ''tmp-'') wal_path"
  by (simp_all add: sstables_dir_def wal_path_def)

lemma compactLocked_ok:
  assumes rep: "lsm_rep e L rs" and size: "lsm_bytes e < 2 ^ 64" and seq: "sstableSeq e + 1 < 1000000"
  shows "\<exists>e' L'. compactLocked now e = (None, e') \<and> lsm_rep e' L' rs
    \<and> opCh e' = opCh e \<and> nextSeq e' = nextSeq e
    \<and> (\<forall>t \<ge> now. live t (content L' (memtable e')) = live t (content L (memtable e)))"
proof -
  let ?n = "sstableSeq e + 1"
  have L: "\<forall>(n, es) \<in> set L. table_ok es" and tabs: "sstables e = map tbl L"
    using rep rep_tables_ok by (auto simp: lsm_rep_def)
  obtain m where m: "merge_sstables (map tbl L) [] = Inr m" "merged_ok m"
    "merged_bytes m \<le> sum_list (map (\<lambda>ne. length (data_block (snd ne))) L)"
    "map_of m = foldl (\<lambda>a es. a ++ by_key es) Map.empty (map snd L)"
    using merge_sstables_ok [OF L, of "[]"] by (auto simp: merged_ok_def merged_bytes_def)
  let ?es = "compacted now m"
  have "merged_bytes m < 2 ^ 64" using m(3) size by (simp add: lsm_bytes_tables [OF tabs])
  then have ok: "table_ok ?es" by (rule table_ok_compacted [OF m(2)])
  have nf: "faults (edisk e) = []" using rep by (simp add: lsm_rep_def)
  obtain d1 where d1: "writeAndOpenSSTable ?es e = (Inr (tbl (?n, ?es)), e\<lparr>sstableSeq := ?n, edisk := d1\<rparr>)"
    "faults d1 = []"
    "\<forall>p. read_file p d1 = (if p = final_path ?n then Some (sst_file ?es)
                            else if p = tmp_path ?n then None else read_file p (edisk e))"
    using writeAndOpenSSTable_ok [OF nf ok] by blast
  let ?paths = "map fst (map tbl L)"
  let ?d2 = "remove_files ?paths d1"
  let ?e' = "e\<lparr>sstableSeq := ?n, edisk := ?d2, sstables := [tbl (?n, ?es)]\<rparr>"
  have step: "compactLocked now e = (None, ?e')"
    using m(1) d1(1) tabs by (simp add: compactLocked_def Let_def compacted_def tbl_def)
  have fresh: "final_path ?n \<notin> set ?paths" using rep by (fastforce simp: lsm_rep_def tbl_def)
  have d2: "faults ?d2 = []" "read_file q ?d2 = (if q \<in> set ?paths then None else read_file q d1)" for q
    using remove_files_ok [OF d1(2), of ?paths] by blast+
  have wal2: "read_file wal_path ?d2 = read_file wal_path (edisk e)"
    using d1(3) d2(2) [of wal_path] by (auto simp: tbl_def)
  have tmp2: "read_file p ?d2 = None" if "prefix (sstables_dir @ ''tmp-'') p" for p
    using that rep d1(3) d2(2) [of p] not_tmp_final by (auto simp: lsm_rep_def)
  have only: "p = final_path ?n" if "read_file p ?d2 \<noteq> None" "prefix sstables_dir p" for p
    using that rep d1(3) d2(2) [of p] tmp2 [of p]
    by (auto simp: lsm_rep_def disk_holds_def tbl_def split: if_splits)
  have new: "read_file (final_path ?n) ?d2 = Some (sst_file ?es)" using d1(3) d2(2) fresh by simp
  have "disk_holds ?d2 [(?n, ?es)] rs"
    using rep seq ok only new wal2 by (auto simp: disk_holds_def lsm_rep_def)
  then have "lsm_rep ?e' [(?n, ?es)] rs"
    using rep d2(1) wal2 tmp2 seq by (simp add: lsm_rep_def)
  moreover have "live t (content [(?n, ?es)] (memtable ?e')) = live t (content L (memtable e))" if "now \<le> t" for t
    using live_compacted [OF m(2) _ that, of "tables_map (map snd L)"]
    by (simp add: content_def foldl_by_key_tables_map m(4) tables_map_def)
  ultimately show ?thesis using step by auto
qed

lemma flushLocked_ok:
  assumes rep: "lsm_rep e L rs" and size: "lsm_bytes e < 2 ^ 64" and seq: "sstableSeq e + 2 < 1000000"
  shows "\<exists>e' L' rs'. flushLocked now e = (None, e') \<and> lsm_rep e' L' rs'
    \<and> opCh e' = opCh e \<and> nextSeq e' = nextSeq e
    \<and> (\<forall>t \<ge> now. live t (content L' (memtable e')) = live t (content L (memtable e)))"
proof (cases "memtable e = []")
  case True
  then have "flushLocked now e = (None, e)" by (simp add: flushLocked_def)
  with rep show ?thesis by blast
next
  case False
  let ?n = "sstableSeq e + 1"
  let ?es = "mt_entries (memtable e)"
  have tabs: "sstables e = map tbl L" and nf: "faults (edisk e) = []" using rep by (auto simp: lsm_rep_def)
  have mt: "mt_ok (memtable e)" by (rule rep_mt_ok [OF rep])
  have ok: "table_ok ?es" using size by (intro table_ok_mt_entries mt) (simp add: lsm_bytes_def)
  obtain d1 where d1: "writeAndOpenSSTable ?es e = (Inr (tbl (?n, ?es)), e\<lparr>sstableSeq := ?n, edisk := d1\<rparr>)"
    "faults d1 = []"
    "\<forall>p. read_file p d1 = (if p = final_path ?n then Some (sst_file ?es)
                            else if p = tmp_path ?n then None else read_file p (edisk e))"
    using writeAndOpenSSTable_ok [OF nf ok] by blast
  have "read_file wal_path d1 = Some (concat (map encode rs))" using rep d1(3) by (simp add: lsm_rep_def)
  then obtain d2 where d2: "Reset d1 = (True, d2)" "faults d2 = []"
    "\<forall>q. read_file q d2 = (if q = wal_path then Some [] else read_file q d1)"
    using Reset_ok [OF d1(2)] by blast
  define e2 where "e2 = e\<lparr>sstableSeq := ?n, edisk := d2, sstables := sstables e @ [tbl (?n, ?es)],
    memtable := [], memtableSize := 0\<rparr>"
  let ?L = "L @ [(?n, ?es)]"
  have fl: "flushLocked now e =
      (if int (length (sstables e2)) > CompactionThreshold (eopts e2) then compactLocked now e2 else (None, e2))"
    using False d1(1) d2(1) by (simp add: flushLocked_def Let_def mt_entries_def e2_def tbl_def)
  have lt: "\<forall>n \<in> fst ` set L. n < ?n" using rep by (auto simp: lsm_rep_def)
  have rd: "read_file p d2 = (if p = wal_path then Some [] else if p = final_path ?n then Some (sst_file ?es)
      else if p = tmp_path ?n then None else read_file p (edisk e))" for p
    using d1(3) d2(3) by simp
  have srt: "sorted_wrt (<) (map fst ?L)" using rep lt by (auto simp: lsm_rep_def disk_holds_def sorted_wrt_append)
  have "disk_holds d2 ?L []"
    unfolding disk_holds_def
  proof (intro conjI)
    show "\<forall>(n, es) \<in> set ?L. n < 1000000 \<and> table_ok es \<and> read_file (final_path n) d2 = Some (sst_file es)"
      using rep lt ok seq by (fastforce simp: lsm_rep_def disk_holds_def rd)
    show "\<forall>p. read_file p d2 \<noteq> None \<longrightarrow> prefix sstables_dir p \<longrightarrow>
            p \<in> final_path ` fst ` set ?L \<or> prefix (sstables_dir @ ''tmp-'') p"
      using rep not_prefix_wal by (auto simp: lsm_rep_def disk_holds_def rd split: if_splits)
  qed (use srt in \<open>simp_all add: rd\<close>)
  moreover have "\<forall>p. prefix (sstables_dir @ ''tmp-'') p \<longrightarrow> read_file p d2 = None"
    using rep not_prefix_wal not_tmp_final by (auto simp: lsm_rep_def rd)
  ultimately have rep2: "lsm_rep e2 ?L []"
    using rep d2(2) seq lt by (auto simp: lsm_rep_def e2_def rd)
  have same: "content ?L (memtable e2) = content L (memtable e)"
    by (simp add: content_def e2_def tmap_mt_entries [OF mt])
  have size2: "lsm_bytes e2 < 2 ^ 64"
    using size mt length_data_block_mt [of "memtable e"]
    by (simp add: lsm_bytes_def e2_def tbl_def table_of_def mt_ok_def mt_bytes_def)
  show ?thesis
  proof (cases "int (length (sstables e2)) > CompactionThreshold (eopts e2)")
    case True
    have "sstableSeq e2 + 1 < 1000000" using seq by (simp add: e2_def)
    from compactLocked_ok [OF rep2 size2 this, of now] obtain e' L' where
      "compactLocked now e2 = (None, e')" "lsm_rep e' L' []" "opCh e' = opCh e2" "nextSeq e' = nextSeq e2"
      "\<forall>t \<ge> now. live t (content L' (memtable e')) = live t (content ?L (memtable e2))" by blast
    with True fl same show ?thesis by (auto simp: e2_def)
  next
    case False
    with fl rep2 same show ?thesis by (auto simp: e2_def)
  qed
qed

end
