(* ===== verification/Lsm_Engine.thy ===== *)
theory Lsm_Engine
  imports Lsm_Correct
begin

text \<open>
  The engine of \<^verbatim>\<open>internal/storage/lsm/engine.go\<close> under its invariant on a disk without faults: group commit,
  flush, compaction, reads, scans and reopening, and the bounds a write needs.  The engine is an
  interpretation of the interface of the storage engines.
\<close>

section \<open>Group commit\<close>

definition record_entry :: "Record \<Rightarrow> Entry option" where
  "record_entry r = (case Op r of
     OpSet \<Rightarrow> Some \<lparr>Value = rValue r, Consistency = rConsistency r,
                ExpiresAt = (if ExpiresAtUnixNano r \<noteq> 0 then Some (ExpiresAtUnixNano r) else None),
                Tombstone = False, Version = Seq r\<rparr>
   | OpDelete \<Rightarrow> Some (tombstone (Seq r))
   | OpOther _ \<Rightarrow> None)"

definition op_wf :: "engineOp \<Rightarrow> bool" where
  "op_wf op \<longleftrightarrow> record_ok (op_rec op) \<and> op_key op = rKey (op_rec op)
     \<and> record_entry (op_rec op) = Some (op_entry op)"

definition op_bytes :: "engineOp \<Rightarrow> nat" where
  "op_bytes op = length (encodeEntry (toSSTableEntry (op_key op) (op_entry op)))"

definition apply_op :: "(string \<rightharpoonup> Entry) \<Rightarrow> engineOp \<Rightarrow> (string \<rightharpoonup> Entry)" where
  "apply_op m op = m(op_key op \<mapsto> op_entry op)"

lemma applyToMemtable_record:
  assumes "op_wf op"
  shows "applyToMemtable (op_key op) (op_entry op) e =
    (let (mt, size) = applyRecordToMemtable (memtable e, memtableSize e) (op_rec op)
     in e\<lparr>memtable := mt, memtableSize := size\<rparr>)"
  using assms
  by (cases "Op (op_rec op)")
    (auto simp: op_wf_def record_entry_def applyToMemtable_def applyRecordToMemtable_def Let_def)

lemma applyOps_Cons: "applyOps (op # ops) e = applyOps ops (applyToMemtable (op_key op) (op_entry op) e)"
  by (simp add: applyOps_def)

lemma applyOps_records:
  "list_all op_wf ops \<Longrightarrow> applyOps ops e =
    (let (mt, size) = foldl applyRecordToMemtable (memtable e, memtableSize e) (map op_rec ops)
     in e\<lparr>memtable := mt, memtableSize := size\<rparr>)"
proof (induction ops arbitrary: e)
  case Nil
  then show ?case by (simp add: applyOps_def)
next
  case (Cons op ops)
  obtain mt size where ms: "applyRecordToMemtable (memtable e, memtableSize e) (op_rec op) = (mt, size)"
    by fastforce
  have "applyToMemtable (op_key op) (op_entry op) e = e\<lparr>memtable := mt, memtableSize := size\<rparr>"
    using Cons.prems by (simp add: applyToMemtable_record ms)
  with Cons show ?case by (simp add: applyOps_Cons ms split: prod.splits)
qed

lemma mt_bytes_update: "mt_bytes (AList.update k en mt) \<le> mt_bytes mt + length (encodeEntry (toSSTableEntry k en))"
  by (induction mt) (auto simp: mt_bytes_def)

lemma applyOps_frame:
  "sstables (applyOps ops e) = sstables e \<and> edisk (applyOps ops e) = edisk e \<and> eopts (applyOps ops e) = eopts e
   \<and> sstableSeq (applyOps ops e) = sstableSeq e \<and> nextSeq (applyOps ops e) = nextSeq e \<and> opCh (applyOps ops e) = opCh e"
  by (induction ops arbitrary: e) (simp_all add: applyOps_Cons, simp_all add: applyOps_def applyToMemtable_def Let_def)

lemma applyOps_memtable:
  "map_of (memtable (applyOps ops e)) = foldl apply_op (map_of (memtable e)) ops
   \<and> mt_bytes (memtable (applyOps ops e)) \<le> mt_bytes (memtable e) + sum_list (map op_bytes ops)"
proof (induction ops arbitrary: e)
  case (Cons op ops)
  let ?e = "applyToMemtable (op_key op) (op_entry op) e"
  have "memtable ?e = AList.update (op_key op) (op_entry op) (memtable e)"
    by (simp add: applyToMemtable_def Let_def)
  then have "map_of (memtable ?e) = apply_op (map_of (memtable e)) op"
    and "mt_bytes (memtable ?e) \<le> mt_bytes (memtable e) + op_bytes op"
    by (simp_all add: apply_op_def map_of_update mt_bytes_update op_bytes_def)
  with Cons [of ?e] show ?case by (simp add: applyOps_Cons)
qed (simp add: applyOps_def)

lemma foldl_apply_op_add: "foldl apply_op (m ++ r) ops = m ++ foldl apply_op r ops"
proof (induction ops arbitrary: r)
  case (Cons op ops)
  have "apply_op (m ++ r) op = m ++ apply_op r op" by (simp add: apply_op_def)
  with Cons show ?case by simp
qed simp

lemma processBatch_ok:
  assumes rep: "lsm_rep e L rs" and wf: "list_all op_wf ops"
    and size: "lsm_bytes e + sum_list (map op_bytes ops) < 2 ^ 64" and seq: "sstableSeq e + 2 < 1000000"
  shows "\<exists>e' L' rs'. processBatch now ops e = (None, e') \<and> lsm_rep e' L' rs'
    \<and> opCh e' = opCh e \<and> nextSeq e' = nextSeq e
    \<and> (\<forall>t \<ge> now. live t (content L' (memtable e')) = live t (foldl apply_op (content L (memtable e)) ops))"
proof -
  let ?rs = "map op_rec ops"
  obtain d1 where d1: "AppendBatch ?rs (edisk e) = (True, d1)" "faults d1 = []"
    "\<forall>q. read_file q d1 = (if q = wal_path then Some (concat (map encode rs) @ concat (map encode ?rs))
                            else read_file q (edisk e))"
    using AppendBatch_ok [of "edisk e" "concat (map encode rs)" ?rs] rep by (auto simp: lsm_rep_def)
  define e1 where "e1 = applyOps ops (e\<lparr>edisk := d1\<rparr>)"
  have fr: "sstables e1 = sstables e" "edisk e1 = d1" "eopts e1 = eopts e" "sstableSeq e1 = sstableSeq e"
    "nextSeq e1 = nextSeq e" "opCh e1 = opCh e"
    using applyOps_frame [of ops "e\<lparr>edisk := d1\<rparr>"] by (simp_all add: e1_def)
  have oks: "list_all record_ok (rs @ ?rs)"
    using rep wf by (auto simp: lsm_rep_def op_wf_def list_all_iff)
  have mt: "(memtable e1, memtableSize e1) = foldl applyRecordToMemtable ([], 0) (rs @ ?rs)"
    using rep wf by (auto simp: e1_def applyOps_records lsm_rep_def split: prod.splits)
  have "ReadAll (concat (map encode (rs @ ?rs))) = rs @ ?rs" by (rule wal.replay_all [OF oks])
  then have "disk_holds d1 L (rs @ ?rs)"
    using rep not_prefix_wal d1(3) by (auto simp: lsm_rep_def disk_holds_def)
  then have rep1: "lsm_rep e1 L (rs @ ?rs)"
    using rep d1(2,3) oks mt fr not_prefix_wal by (auto simp: lsm_rep_def)
  have view1: "content L (memtable e1) = foldl apply_op (content L (memtable e)) ops"
    using applyOps_memtable [of ops "e\<lparr>edisk := d1\<rparr>"]
    by (simp add: content_def foldl_apply_op_add e1_def)
  have size1: "lsm_bytes e1 < 2 ^ 64"
    using applyOps_memtable [of ops "e\<lparr>edisk := d1\<rparr>"] size fr(1) by (simp add: lsm_bytes_def e1_def)
  have pb: "processBatch now ops e = maybeFlushLocked now e1" by (simp add: processBatch_def d1(1) e1_def)
  show ?thesis
  proof (cases "memtableSize e1 < MemtableFlushThresholdBytes (eopts e1)")
    case True
    with pb rep1 fr view1 show ?thesis by (auto simp: maybeFlushLocked_def)
  next
    case False
    have "sstableSeq e1 + 2 < 1000000" using seq fr by simp
    from flushLocked_ok [OF rep1 size1 this, of now] False pb view1 fr show ?thesis
      by (simp add: maybeFlushLocked_def)
  qed
qed

section \<open>The engine contract\<close>

definition lsm_inv :: "Engine \<Rightarrow> bool" where
  "lsm_inv e \<longleftrightarrow> opCh e = [] \<and> nextSeq e < 2 ^ 64 \<and> (\<exists>L rs. lsm_rep e L rs)"

text \<open>
  What a write needs of the engine: table numbers below the six digits of a file name, table
  offsets within 64 bits, and a record within the widths of the log's fields.
\<close>

definition fits_batch :: "Engine \<Rightarrow> nat \<Rightarrow> bool" where
  "fits_batch e n \<longleftrightarrow> sstableSeq e + 2 < 1000000 \<and> lsm_bytes e + n < 2 ^ 64"

definition lsm_fits_put :: "Engine \<Rightarrow> time \<Rightarrow> string \<Rightarrow> bytes \<Rightarrow> Consistency \<Rightarrow> int \<Rightarrow> bool" where
  "lsm_fits_put e t k v c ttl \<longleftrightarrow>
     in_s64 t \<and> (0 < ttl \<longrightarrow> in_s64 (t + ttl) \<and> t + ttl \<noteq> 0) \<and> length k < 2 ^ 16 \<and> length c < 2 ^ 8
     \<and> length k + length c + length v + 32 < 2 ^ 32
     \<and> fits_batch e (24 + length k + length c + length v)"

definition lsm_fits_del :: "Engine \<Rightarrow> time \<Rightarrow> bool" where
  "lsm_fits_del e t \<longleftrightarrow> in_s64 t \<and> fits_batch e (24 + 2 ^ 16)"

definition put_op :: "Engine \<Rightarrow> time \<Rightarrow> string \<Rightarrow> bytes \<Rightarrow> Consistency \<Rightarrow> int \<Rightarrow> engineOp" where
  "put_op e t k v c ttl = last (opCh (Put_enqueue e t k v c ttl))"

lemma Put_enqueue_eq:
  "Put_enqueue e t k v c ttl =
     e\<lparr>nextSeq := u64 (nextSeq e + 1), opCh := opCh e @ [put_op e t k v c ttl]\<rparr>"
  by (simp add: put_op_def Put_enqueue_def Let_def)

lemma put_op_wf:
  assumes "lsm_fits_put e t k v c ttl" and "nextSeq e < 2 ^ 64"
  shows "op_wf (put_op e t k v c ttl)" and "op_bytes (put_op e t k v c ttl) = 24 + length k + length c + length v"
    and "apply_op m (put_op e t k v c ttl) = m(k \<mapsto> new_entry v c t ttl (nextSeq e))"
  using assms
  by (auto simp: put_op_def Put_enqueue_def Let_def op_wf_def record_ok_def record_entry_def lsm_fits_put_def
      UnixNano_def op_bytes_def length_encodeEntry toSSTableEntry_def apply_op_def new_entry_def expires_at_def
      op_ok_def in_s64_def)

lemma lsm_batch_inv:
  assumes "lsm_rep e L rs" and "opCh e = []" and "list_all op_wf ops"
    and "fits_batch e (sum_list (map op_bytes ops))" and "n < 2 ^ 64"
  shows "\<exists>e'. opLoop_round t (length ops) (e\<lparr>nextSeq := n, opCh := ops\<rparr>) = (None, e') \<and> lsm_inv e'
    \<and> lsm_view e' t = live t (foldl apply_op (content L (memtable e)) ops)"
proof -
  let ?e = "e\<lparr>nextSeq := n, opCh := []\<rparr>"
  have rep: "lsm_rep ?e L rs" using assms(1) by (simp add: lsm_rep_def)
  have "lsm_bytes ?e + sum_list (map op_bytes ops) < 2 ^ 64" "sstableSeq ?e + 2 < 1000000"
    using assms(4) by (simp_all add: fits_batch_def lsm_bytes_def)
  from processBatch_ok [OF rep assms(3) this, of t] obtain e' L' rs' where
    "processBatch t ops ?e = (None, e')" "lsm_rep e' L' rs'" "opCh e' = []" "nextSeq e' = n"
    "live t (content L' (memtable e')) = live t (foldl apply_op (content L (memtable e)) ops)" by auto
  then show ?thesis using assms(5) by (auto simp: opLoop_round_def lsm_inv_def rep_view)
qed

lemma lsm_put_view:
  assumes "lsm_inv e" and "lsm_fits_put e t k v c ttl"
  shows "\<exists>e' ver. lsm_Put e t k v c ttl = (None, e') \<and> lsm_inv e' \<and>
    lsm_view e' t = (lsm_view e t)(k \<mapsto> new_entry v c t ttl ver)"
proof -
  obtain L rs where e: "lsm_rep e L rs" "opCh e = []" "nextSeq e < 2 ^ 64" using assms(1) by (auto simp: lsm_inv_def)
  let ?op = "put_op e t k v c ttl"
  have op: "list_all op_wf [?op]" "fits_batch e (sum_list (map op_bytes [?op]))"
    "apply_op (content L (memtable e)) ?op = (content L (memtable e))(k \<mapsto> new_entry v c t ttl (nextSeq e))"
    using put_op_wf [OF assms(2) e(3)] assms(2) by (simp_all add: lsm_fits_put_def)
  have "u64 (nextSeq e + 1) < 2 ^ 64" by simp
  from lsm_batch_inv [OF e(1,2) op(1,2) this, of t] show ?thesis
    by (auto simp: lsm_Put_def Put_enqueue_eq Let_def e op(3) rep_view [OF e(1)] live_upd_new)
qed

lemma lsm_del_absent:
  "lsm_inv e \<Longrightarrow> lsm_view e t k = None \<Longrightarrow> lsm_Delete e t k = (Some ErrKeyNotFound, e)"
  by (auto simp: lsm_inv_def lsm_Delete_def Delete_enqueue_def rep_view rep_lookup)

lemma mt_key_short: "mt_ok mt \<Longrightarrow> map_of mt k = Some en \<Longrightarrow> length k < 2 ^ 16"
  by (auto simp: mt_ok_def entry_fits_def dest!: map_of_SomeD)

lemma tables_map_key_short:
  "\<forall>es \<in> set ts. list_all sentry_ok es \<Longrightarrow> tables_map ts k = Some en \<Longrightarrow> length k < 2 ^ 16"
proof (induction ts arbitrary: en rule: rev_induct)
  case (snoc es ts)
  then consider "tables_map ts k = Some en" | "tmap es k = Some en" by (auto simp: map_add_Some_iff)
  then show ?case
  proof cases
    case 1
    with snoc show ?thesis by auto
  next
    case 2
    then obtain se where "se \<in> set es" "sKey se = k"
      by (auto simp: tmap_def by_key_def map_comp_def split: option.splits dest!: map_of_SomeD)
    with snoc.prems(1) show ?thesis by (auto simp: list_all_iff sentry_ok_def)
  qed
qed simp

lemma rep_key_short:
  assumes "lsm_rep e L rs" and "content L (memtable e) k = Some en"
  shows "length k < 2 ^ 16"
proof -
  have "\<forall>es \<in> set (map snd L). list_all sentry_ok es"
    using rep_tables_ok [OF assms(1)] by (auto simp: table_ok_def)
  from tables_map_key_short [OF this, of k en] mt_key_short [OF rep_mt_ok [OF assms(1)], of k en] assms(2)
  show ?thesis by (auto simp: content_def map_add_Some_iff)
qed

lemma lsm_del_present:
  assumes "lsm_inv e" and "lsm_fits_del e t" and "lsm_view e t k = Some en"
  shows "\<exists>e'. lsm_Delete e t k = (None, e') \<and> lsm_inv e' \<and> lsm_view e' t = (lsm_view e t)(k := None)"
proof -
  obtain L rs where e: "lsm_rep e L rs" "opCh e = []" "nextSeq e < 2 ^ 64" using assms(1) by (auto simp: lsm_inv_def)
  have lk: "lookupLocked t k e = Inr en" using assms(3) by (auto simp: lsm_view_def split: sum.splits)
  have k: "length k < 2 ^ 16"
    using assms(3) rep_key_short [OF e(1)] by (auto simp: rep_view [OF e(1)] dest: live_SomeD)
  define op where "op = \<lparr>op_rec = \<lparr>Seq = nextSeq e, Op = OpDelete, Timestamp = UnixNano t, ExpiresAtUnixNano = 0,
    rKey = k, rConsistency = '''', rValue = []\<rparr>, op_key = k, op_entry = tombstone (nextSeq e)\<rparr>"
  have op: "list_all op_wf [op]" "fits_batch e (sum_list (map op_bytes [op]))"
    "apply_op (content L (memtable e)) op = (content L (memtable e))(k \<mapsto> tombstone (nextSeq e))"
    using k e(3) assms(2)
    by (simp_all add: op_def op_wf_def record_ok_def record_entry_def op_bytes_def length_encodeEntry
        toSSTableEntry_def tombstone_def apply_op_def UnixNano_def op_ok_def in_s64_def lsm_fits_del_def fits_batch_def)
  have "u64 (nextSeq e + 1) < 2 ^ 64" by simp
  from lsm_batch_inv [OF e(1,2) op(1,2) this, of t] show ?thesis
    by (auto simp: lsm_Delete_def Delete_enqueue_def lk Let_def e(2) op(3) rep_view [OF e(1)] live_upd_tombstone
        op_def [symmetric])
qed


lemma restrict_map_add: "(a ++ b) |` P = a |` P ++ b |` P"
  by (auto simp: restrict_map_def map_add_def fun_eq_iff)

lemma fold_prefix_update:
  assumes "distinct (map fst kvs)"
  shows "map_of (foldl (\<lambda>m (k, v). if prefix p k then AList.update k v m else m) m kvs)
    = map_of m ++ map_of kvs |` {k. prefix p k}"
    and "distinct (map fst m) \<Longrightarrow>
      distinct (map fst (foldl (\<lambda>m (k, v). if prefix p k then AList.update k v m else m) m kvs))"
proof -
  show "map_of (foldl (\<lambda>m (k, v). if prefix p k then AList.update k v m else m) m kvs)
    = map_of m ++ map_of kvs |` {k. prefix p k}"
    using assms
  proof (induction kvs arbitrary: m)
    case (Cons kv kvs)
    obtain k v where kv: "kv = (k, v)" by fastforce
    have no: "map_of kvs k = None" using Cons.prems by (simp add: kv map_of_eq_None_iff)
    have "distinct (map fst kvs)" using Cons.prems by simp
    note IH = Cons.IH [OF this]
    show ?case
      by (rule ext)
        (use no in \<open>auto simp: kv IH map_of_update map_add_def restrict_map_def split: option.splits\<close>)
  qed simp
  show "distinct (map fst m) \<Longrightarrow>
      distinct (map fst (foldl (\<lambda>m (k, v). if prefix p k then AList.update k v m else m) m kvs))"
    by (induction kvs arbitrary: m) (auto split: prod.splits)
qed

definition sst_kvs :: "SEntry list \<Rightarrow> (string \<times> Entry) list" where
  "sst_kvs es = map (\<lambda>se. (sKey se, toStorageEntry se)) es"

lemma map_of_sst_kvs: "map_of (sst_kvs es) = tmap es"
  by (induction es) (auto simp: sst_kvs_def tmap_def by_key_def map_comp_def fun_eq_iff)

lemma foldl_sst_kvs:
  "foldl (\<lambda>m se. if prefix p (sKey se) then AList.update (sKey se) (toStorageEntry se) m else m) m es
   = foldl (\<lambda>m (k, v). if prefix p k then AList.update k v m else m) m (sst_kvs es)"
  by (induction es arbitrary: m) (simp_all add: sst_kvs_def)

lemma table_ok_distinct: "table_ok es \<Longrightarrow> distinct (map sKey es)"
  by (auto simp: table_ok_def strict_sorted_iff)

lemma scan_sstables_ok:
  "\<forall>(n, es) \<in> set L. table_ok es \<Longrightarrow> distinct (map fst m) \<Longrightarrow>
   \<exists>m'. scan_sstables p (map tbl L) m = Inr m' \<and> distinct (map fst m') \<and>
     map_of m' = foldl (\<lambda>a es. a ++ tmap es |` {k. prefix p k}) (map_of m) (map snd L)"
proof (induction L arbitrary: m)
  case (Cons ne L)
  obtain n es where ne: "ne = (n, es)" by fastforce
  have ok: "table_ok es" using Cons.prems by (auto simp: ne)
  let ?m = "foldl (\<lambda>m (k, v). if prefix p k then AList.update k v m else m) m (sst_kvs es)"
  have d: "distinct (map fst (sst_kvs es))" using table_ok_distinct [OF ok] by (simp add: sst_kvs_def o_def)
  have "distinct (map fst ?m)" "map_of ?m = map_of m ++ tmap es |` {k. prefix p k}"
    using fold_prefix_update [OF d] Cons.prems(2) by (simp_all add: map_of_sst_kvs)
  moreover have "scan_sstables p (map tbl (ne # L)) m = scan_sstables p (map tbl L) ?m"
    using ok by (simp add: ne tbl_def Iterate_table_of foldl_sst_kvs)
  moreover have "\<forall>(n, es) \<in> set L. table_ok es" using Cons.prems(1) by simp
  ultimately show ?case using Cons.IH [of ?m] by (simp add: ne)
qed simp

lemma foldl_restrict: "foldl (\<lambda>a es. a ++ tmap es |` P) (a |` P) ts = foldl (\<lambda>a es. a ++ tmap es) a ts |` P"
  by (induction ts arbitrary: a) (simp_all add: restrict_map_add flip: restrict_map_add)

lemma map_of_filter_live_all:
  assumes "distinct (map fst al)"
  shows "map_of (filter (\<lambda>(k, v). \<not> (Tombstone v \<or> Expired v t)) al) = live t (map_of al)"
  using map_of_filter_live [OF assms, of "[]" t] by (simp add: restrict_map_def)

lemma live_restrict: "live t (m |` P) = live t m |` P"
  by (auto simp: live_def restrict_map_def fun_eq_iff)

lemma lsm_scan_view:
  assumes "lsm_inv e"
  shows "\<exists>m. lsm_Scan e t p = Inr m \<and> distinct (map fst m) \<and> map_of m = lsm_view e t |` {k. prefix p k}"
proof -
  obtain L rs where e: "lsm_rep e L rs" using assms by (auto simp: lsm_inv_def)
  obtain m0 where m0: "scan_sstables p (map tbl L) [] = Inr m0" "distinct (map fst m0)"
    "map_of m0 = tables_map (map snd L) |` {k. prefix p k}"
    using scan_sstables_ok [OF rep_tables_ok [OF e], of "[]" p] foldl_restrict [of "{k. prefix p k}" Map.empty]
    by (auto simp: tables_map_def)
  let ?m = "foldl (\<lambda>m (k, v). if prefix p k then AList.update k v m else m) m0 (memtable e)"
  have d: "distinct (map fst (memtable e))" using rep_mt_ok [OF e] by (simp add: mt_ok_def)
  have dm: "distinct (map fst ?m)" by (rule fold_prefix_update(2) [OF d m0(2)])
  have "map_of ?m = content L (memtable e) |` {k. prefix p k}"
    using fold_prefix_update(1) [OF d] by (simp add: content_def m0(3) restrict_map_add)
  then have "map_of (filter (\<lambda>(k, v). \<not> (Tombstone v \<or> Expired v t)) ?m) = lsm_view e t |` {k. prefix p k}"
    using map_of_filter_live_all [OF dm, of t] by (simp add: live_restrict rep_view [OF e])
  moreover have "lsm_Scan e t p = Inr (filter (\<lambda>(k, v). \<not> (Tombstone v \<or> Expired v t)) ?m)"
    using e m0(1) by (simp add: lsm_Scan_def lsm_rep_def)
  ultimately show ?thesis using distinct_map_filter [OF dm] by auto
qed

interpretation lsm: kv_engine lsm_inv lsm_view lsm_fits_put lsm_fits_del lsm_Get lsm_Put lsm_Delete lsm_Scan
proof (unfold_locales, goal_cases aging get put absent present scan)
  case (aging e t t')
  then show ?case by (auto simp: lsm_inv_def rep_view live_live)
next
  case (get e t k)
  then show ?case by (auto simp: lsm_inv_def lsm_Get_def rep_view rep_lookup)
next
  case (put e t k v c ttl)
  then show ?case by (rule lsm_put_view)
next
  case (absent e t k)
  then show ?case by (rule lsm_del_absent)
next
  case (present e t k en)
  then show ?case by (rule lsm_del_present)
next
  case (scan e t p)
  then show ?case by (rule lsm_scan_view)
qed

end
