(* ===== verification/Lsm_Crash.thy ===== *)
theory Lsm_Crash
  imports Lsm_Engine
begin

text \<open>
  The engine on a disk that fails or stops at any operation: what each call leaves behind, and that
  reopening the directory recovers the entries from before the call with a prefix of its batch.
\<close>

section \<open>What a failing call leaves behind\<close>

definition crash_only :: "fault list \<Rightarrow> bool" where
  "crash_only fs \<longleftrightarrow> (\<forall>f \<in> set fs. case f of Fail _ \<Rightarrow> False | _ \<Rightarrow> True)"

lemma crash_only_next: "next_fault d = (f, d') \<Longrightarrow> crash_only (faults d) \<Longrightarrow> crash_only (faults d')"
  by (cases "faults d"; cases "hd (faults d)") (auto simp: next_fault_def crash_only_def)

lemma crash_only_calls:
  "crash_only (faults d) \<Longrightarrow> os_create p d = (ok, d') \<Longrightarrow> crash_only (faults d')"
  "crash_only (faults d) \<Longrightarrow> os_write p bs d = (ok, d') \<Longrightarrow> crash_only (faults d')"
  "crash_only (faults d) \<Longrightarrow> os_sync d = (ok, d') \<Longrightarrow> crash_only (faults d')"
  "crash_only (faults d) \<Longrightarrow> os_truncate p n d = (ok, d') \<Longrightarrow> crash_only (faults d')"
  "crash_only (faults d) \<Longrightarrow> os_rename p q d = (ok, d') \<Longrightarrow> crash_only (faults d')"
  by (auto simp: disk_defs split: prod.splits option.splits dest: crash_only_next)

lemma crash_only_write_all:
  "crash_only (faults d) \<Longrightarrow> os_write_all p cs d = (ok, d') \<Longrightarrow> crash_only (faults d')"
  by (induction cs arbitrary: d) (auto split: prod.splits bool.splits dest: crash_only_calls)

lemma os_write_any:
  assumes "os_write p bs d = (ok, d')" and "read_file p d = Some old"
  shows "\<exists>w. prefix w bs \<and> (ok \<longrightarrow> w = bs) \<and>
    (\<forall>q. read_file q d' = (if q = p then Some (old @ w) else read_file q d))"
proof -
  obtain f d1 where f: "next_fault d = (f, d1)" by fastforce
  show ?thesis
  proof (cases f)
    case None
    with f assms show ?thesis by (auto simp: os_write_def read_append_file read_next_fault [OF f])
  next
    case (Some n)
    with f assms show ?thesis
      by (auto simp: os_write_def read_append_file read_next_fault [OF f] take_is_prefix intro!: exI [of _ "take n bs"])
  qed
qed

lemma os_write_all_any:
  "os_write_all p cs d = (ok, d') \<Longrightarrow> read_file p d = Some old \<Longrightarrow>
   \<exists>w. prefix w (concat cs) \<and> (ok \<longrightarrow> w = concat cs) \<and>
     (\<forall>q. read_file q d' = (if q = p then Some (old @ w) else read_file q d))"
proof (induction cs arbitrary: d old)
  case (Cons c cs)
  obtain ok1 d1 where w1: "os_write p c d = (ok1, d1)" by fastforce
  obtain w where w: "prefix w c" "ok1 \<longrightarrow> w = c"
    "\<forall>q. read_file q d1 = (if q = p then Some (old @ w) else read_file q d)"
    using os_write_any [OF w1 Cons.prems(2)] by blast
  show ?case
  proof (cases ok1)
    case True
    then have "os_write_all p cs d1 = (ok, d')" "read_file p d1 = Some (old @ c)"
      using Cons.prems w1 w by auto
    from Cons.IH [OF this] obtain v where v: "prefix v (concat cs)" "ok \<longrightarrow> v = concat cs"
      "\<forall>q. read_file q d' = (if q = p then Some ((old @ c) @ v) else read_file q d1)" by blast
    with w show ?thesis by (intro exI [of _ "c @ v"]) auto
  next
    case False
    with Cons.prems w1 w show ?thesis by (intro exI [of _ w]) auto
  qed
qed (auto intro!: exI [of _ "[]"])

lemma AppendBatch_any:
  assumes "AppendBatch rs d = (ok, d')" and "read_file wal_path d = Some old"
  shows "\<exists>w. prefix w (concat (map encode rs)) \<and> (ok \<longrightarrow> w = concat (map encode rs)) \<and>
    (\<forall>q. read_file q d' = (if q = wal_path then Some (old @ w) else read_file q d))"
proof (cases "rs = []")
  case True
  with assms show ?thesis by (auto simp: AppendBatch_def intro!: exI [of _ "[]"])
next
  case False
  obtain ok1 d1 where w1: "os_write_all wal_path (map encode rs) d = (ok1, d1)" by fastforce
  have "\<forall>q. read_file q d' = read_file q d1" "ok \<longrightarrow> ok1"
    using assms(1) False w1
    by (auto simp: AppendBatch_def os_sync_def read_next_fault split: bool.splits prod.splits option.splits)
  with os_write_all_any [OF w1 assms(2)] show ?thesis by auto
qed

lemma Reset_any:
  assumes "Reset d = (ok, d')"
  shows "(\<forall>q. q \<noteq> wal_path \<longrightarrow> read_file q d' = read_file q d) \<and>
    (read_file wal_path d' = read_file wal_path d \<and> \<not> ok \<or> read_file wal_path d' = map_option (\<lambda>_. []) (read_file wal_path d))"
  using assms
  by (auto simp: Reset_def os_truncate_def os_sync_def read_next_fault
      split: prod.splits option.splits bool.splits if_splits)

definition tmp_file :: "string \<Rightarrow> bool" where
  "tmp_file p \<longleftrightarrow> prefix (sstables_dir @ ''tmp-'') p"

lemma tmp_file_paths [simp]: "tmp_file (tmp_path n)" "\<not> tmp_file (final_path n)" "\<not> tmp_file wal_path"
  using prefix_tmp_path not_tmp_final not_prefix_wal by (auto simp: tmp_file_def)

text \<open>The finalised files of two disks agree.\<close>

definition same_final :: "disk \<Rightarrow> disk \<Rightarrow> bool" where
  "same_final d d' \<longleftrightarrow> (\<forall>p. \<not> tmp_file p \<longrightarrow> read_file p d' = read_file p d)"

lemma disk_holds_same_final:
  assumes "same_final d d'" and "disk_holds d L rs"
  shows "disk_holds d' L rs"
proof -
  have rd: "read_file p d' = read_file p d" if "\<not> tmp_file p" for p using assms(1) that by (simp add: same_final_def)
  have "p \<in> final_path ` fst ` set L \<or> tmp_file p" if "read_file p d' \<noteq> None" "prefix sstables_dir p" for p
  proof (cases "tmp_file p")
    case False
    then have "read_file p d \<noteq> None" using rd that(1) by metis
    with assms(2) that(2) show ?thesis by (auto simp: disk_holds_def tmp_file_def)
  qed simp
  moreover have "read_file (final_path n) d' = read_file (final_path n) d" "read_file wal_path d' = read_file wal_path d"
    for n using rd by simp_all
  ultimately show ?thesis using assms(2) by (simp add: disk_holds_def tmp_file_def)
qed

lemma WriteSorted_any:
  assumes "WriteSorted p ses d = (ok, d')"
  shows "(\<forall>q. q \<noteq> p \<longrightarrow> read_file q d' = read_file q d) \<and> (ok \<longrightarrow> read_file p d' = Some (sst_file ses))"
proof -
  obtain ok1 d1 where c: "os_create p d = (ok1, d1)" by fastforce
  show ?thesis
  proof (cases ok1)
    case True
    then have d1: "\<forall>q. read_file q d1 = (if q = p then Some [] else read_file q d)"
      using c by (auto simp: os_create_def read_next_fault split: prod.splits option.splits)
    obtain ok2 d2 where w: "os_write_all p (WriteSorted_chunks ses) d1 = (ok2, d2)" by fastforce
    obtain v where v: "ok2 \<longrightarrow> v = concat (WriteSorted_chunks ses)"
      "\<forall>q. read_file q d2 = (if q = p then Some v else read_file q d1)"
      using os_write_all_any [OF w, of "[]"] d1 by auto
    have "\<forall>q. read_file q d' = read_file q d2" "ok \<longrightarrow> ok2"
      using assms True c w
      by (auto simp: WriteSorted_def os_sync_def read_next_fault split: bool.splits prod.splits option.splits)
    with v d1 show ?thesis by (auto simp: sst_file_def)
  next
    case False
    with assms c show ?thesis
      by (auto simp: WriteSorted_def os_create_def read_next_fault split: prod.splits option.splits)
  qed
qed

text \<open>A table file appears under its final name whole or not at all.\<close>

definition published :: "nat \<Rightarrow> SEntry list \<Rightarrow> disk \<Rightarrow> disk \<Rightarrow> bool" where
  "published n ses d d' \<longleftrightarrow>
     (\<forall>p. \<not> tmp_file p \<longrightarrow> read_file p d' = (if p = final_path n then Some (sst_file ses) else read_file p d))"

lemma rename_any:
  assumes "os_rename (tmp_path n) (final_path n) d = (ok, d')" and "read_file (tmp_path n) d = Some (sst_file ses)"
  shows "if ok then published n ses d d' else same_final d d'"
  using assms
  by (auto simp: os_rename_def published_def same_final_def read_next_fault split: prod.splits option.splits)

lemma crash_only_WriteSorted:
  assumes "WriteSorted p ses d = (ok, d')" and "crash_only (faults d)"
  shows "crash_only (faults d')"
proof -
  obtain ok1 d1 where c: "os_create p d = (ok1, d1)" by fastforce
  obtain ok2 d2 where w: "os_write_all p (WriteSorted_chunks ses) d1 = (ok2, d2)" by fastforce
  obtain ok3 d3 where s: "os_sync d2 = (ok3, d3)" by fastforce
  note c1 = crash_only_calls(1) [OF assms(2) c]
  note c2 = crash_only_write_all [OF c1 w]
  show ?thesis using assms(1) c w s c1 c2 crash_only_calls(3) [OF c2 s]
    by (auto simp: WriteSorted_def split: bool.splits)
qed

lemma writeAndOpenSSTable_any:
  assumes "writeAndOpenSSTable ses e = (r, e')" and n: "n = sstableSeq e + 1"
  shows "\<exists>d'. e' = e\<lparr>sstableSeq := n, edisk := d'\<rparr> \<and>
    (published n ses (edisk e) d' \<or> (same_final (edisk e) d' \<and> isl r)) \<and>
    (\<forall>t. r = Inr t \<longrightarrow> table_ok ses \<longrightarrow> t = tbl (n, ses)) \<and>
    (crash_only (faults (edisk e)) \<longrightarrow> crash_only (faults d'))"
proof -
  obtain ok1 d1 where w: "WriteSorted (tmp_path n) ses (edisk e) = (ok1, d1)" by fastforce
  have w1: "same_final (edisk e) d1" "ok1 \<longrightarrow> read_file (tmp_path n) d1 = Some (sst_file ses)"
    using WriteSorted_any [OF w] tmp_file_paths(1) [of n] unfolding same_final_def by metis+
  have c1: "crash_only (faults (edisk e)) \<longrightarrow> crash_only (faults d1)"
    using crash_only_WriteSorted [OF w] by blast
  show ?thesis
  proof (cases ok1)
    case False
    with assms w w1 c1 show ?thesis by (auto simp: writeAndOpenSSTable_def Let_def)
  next
    case True
    obtain ok2 d2 where rn: "os_rename (tmp_path n) (final_path n) d1 = (ok2, d2)" by fastforce
    have c2: "crash_only (faults (edisk e)) \<longrightarrow> crash_only (faults d2)"
      using c1 crash_only_calls(5) [OF _ rn] by blast
    have p2: "if ok2 then published n ses (edisk e) d2 else same_final (edisk e) d2"
      using rename_any [OF rn, of ses] w1 True by (auto simp: published_def same_final_def split: if_splits)
    show ?thesis
    proof (cases ok2)
      case False
      with assms w True rn p2 c2 show ?thesis by (auto simp: writeAndOpenSSTable_def Let_def)
    next
      case t2: True
      obtain ok3 d3 where s3: "os_sync d2 = (ok3, d3)" by fastforce
      have r3: "\<forall>q. read_file q d3 = read_file q d2"
        using s3 by (auto simp: os_sync_def read_next_fault split: prod.splits option.splits)
      have "published n ses (edisk e) d3" using p2 t2 r3 by (simp add: published_def)
      moreover from this have "read_file (final_path n) d3 = Some (sst_file ses)" by (simp add: published_def)
      moreover have "crash_only (faults (edisk e)) \<longrightarrow> crash_only (faults d3)"
        using c2 crash_only_calls(3) [OF _ s3] by blast
      moreover have "writeAndOpenSSTable ses e = (if ok3 then (case Open (sst_file ses) of
            Inl _ \<Rightarrow> (Inl ErrIO, e\<lparr>sstableSeq := n, edisk := d3\<rparr>)
          | Inr table \<Rightarrow> (Inr (final_path n, table), e\<lparr>sstableSeq := n, edisk := d3\<rparr>))
          else (Inl ErrIO, e\<lparr>sstableSeq := n, edisk := d3\<rparr>))"
        using n w True rn t2 s3 calculation(2)
        by (cases ok3) (simp_all add: writeAndOpenSSTable_def Let_def n split: sum.splits)
      then have e': "e' = e\<lparr>sstableSeq := n, edisk := d3\<rparr>"
        and r: "r = Inr t \<longrightarrow> (\<exists>u. Open (sst_file ses) = Inr u \<and> t = (final_path n, u))" for t
        using assms(1) by (auto split: if_splits sum.splits)
      from r have "\<forall>t. r = Inr t \<longrightarrow> table_ok ses \<longrightarrow> t = tbl (n, ses)" by (auto simp: tbl_def Open_sst_file)
      ultimately show ?thesis using e' by blast
    qed
  qed
qed

lemma remove_files_crashed: "faults d = Crash n # fs \<Longrightarrow> read_file q (remove_files ps d) = read_file q d"
proof (induction ps arbitrary: d n fs)
  case (Cons p ps)
  then have "snd (os_remove p d) = d\<lparr>faults := [Crash 0]\<rparr>" by (simp add: os_remove_def next_fault_def)
  with Cons.IH [of "d\<lparr>faults := [Crash 0]\<rparr>" 0 "[]"] show ?case by (simp add: read_file_def)
qed simp

lemma remove_files_crash:
  "crash_only (faults d) \<Longrightarrow> \<exists>j \<le> length ps. \<forall>q. read_file q (remove_files ps d) =
     (if q \<in> set (take j ps) then None else read_file q d)"
proof (induction ps arbitrary: d)
  case (Cons p ps)
  obtain f d1 where f: "next_fault d = (f, d1)" by fastforce
  show ?case
  proof (cases f)
    case None
    then have rm: "remove_files (p # ps) d = remove_files ps (unset_file p d1)" by (simp add: os_remove_def f)
    have "crash_only (faults (unset_file p d1))" using crash_only_next [OF f Cons.prems] by simp
    from Cons.IH [OF this] obtain j where j: "j \<le> length ps" "\<forall>q. read_file q (remove_files ps (unset_file p d1)) =
        (if q \<in> set (take j ps) then None else read_file q (unset_file p d1))" by blast
    have "read_file q (remove_files (p # ps) d) =
        (if q \<in> set (take (Suc j) (p # ps)) then None else read_file q d)" for q
      unfolding rm using j(2) by (simp add: read_next_fault [OF f])
    then show ?thesis using j(1) by (intro exI [of _ "Suc j"] conjI allI) simp_all
  next
    case (Some n)
    then have "faults d1 = [Crash 0]"
      using f Cons.prems by (auto simp: next_fault_def crash_only_def split: list.splits fault.splits)
    moreover have "remove_files (p # ps) d = remove_files ps d1" using Some by (simp add: os_remove_def f)
    ultimately have "read_file q (remove_files (p # ps) d) = read_file q d" for q
      by (simp only: remove_files_crashed read_next_fault [OF f])
    then show ?thesis by (intro exI [of _ 0] conjI allI) simp_all
  qed
qed simp

section \<open>Recovery after a crash\<close>

definition replayed :: "Record list \<Rightarrow> (string \<times> Entry) list" where
  "replayed rs = fst (foldl applyRecordToMemtable ([], 0) rs)"

text \<open>What the disk recovers to, for reads from time \<open>now\<close> on.\<close>

definition recovers :: "time \<Rightarrow> disk \<Rightarrow> (string \<rightharpoonup> Entry) \<Rightarrow> bool" where
  "recovers now d m \<longleftrightarrow> (\<exists>L rs. disk_holds d L rs \<and> (\<forall>t \<ge> now. live t (content L (replayed rs)) = live t m))"

lemma disk_holds_faults: "disk_holds (d\<lparr>faults := fs\<rparr>) L rs = disk_holds d L rs"
  by (simp add: disk_holds_def read_file_def)

lemma recovers_Open:
  assumes "recovers now d m"
  shows "\<exists>e d'. lsm_Open (d\<lparr>faults := []\<rparr>) opts = (Inr e, d') \<and> (\<forall>t \<ge> now. lsm_view e t = live t m)"
proof -
  obtain L rs where h: "disk_holds (d\<lparr>faults := []\<rparr>) L rs"
    and m: "\<forall>t \<ge> now. live t (content L (replayed rs)) = live t m"
    using assms by (auto simp: recovers_def disk_holds_faults)
  obtain e d' where e: "lsm_Open (d\<lparr>faults := []\<rparr>) opts = (Inr e, d')" "sstables e = map tbl L"
    "(memtable e, memtableSize e) = foldl applyRecordToMemtable ([], 0) rs"
    using lsm_Open_ok [OF h, of opts] by auto
  have "\<forall>(n, es) \<in> set L. table_ok es" using h by (auto simp: disk_holds_def)
  from lookup_content [OF this e(2)] have "lsm_view e t = live t (content L (memtable e))" for t
    by (auto simp: lsm_view_def fun_eq_iff split: option.splits)
  moreover have "memtable e = replayed rs" using e(3) by (metis replayed_def fst_conv)
  ultimately show ?thesis using e(1) m by auto
qed

lemma recoversI: "disk_holds d L rs \<Longrightarrow> (\<And>t. now \<le> t \<Longrightarrow> live t (content L (replayed rs)) = live t m) \<Longrightarrow> recovers now d m"
  by (auto simp: recovers_def)

text \<open>
  Publishing a table adds it to what the disk holds; then the oldest tables can go one by one.
\<close>

lemma disk_holds_other:
  "disk_holds d L rs \<Longrightarrow> read_file p d \<noteq> None \<Longrightarrow> prefix sstables_dir p \<Longrightarrow>
   p \<in> final_path ` fst ` set L \<or> tmp_file p"
  by (auto simp: disk_holds_def tmp_file_def)

lemma disk_holds_table:
  "disk_holds d L rs \<Longrightarrow> (n, es) \<in> set L \<Longrightarrow>
   n < 1000000 \<and> table_ok es \<and> read_file (final_path n) d = Some (sst_file es)"
  by (auto simp: disk_holds_def)

lemma disk_holdsI:
  assumes "sorted_wrt (<) (map fst L)"
    and "\<And>n es. (n, es) \<in> set L \<Longrightarrow> n < 1000000 \<and> table_ok es \<and> read_file (final_path n) d = Some (sst_file es)"
    and "\<And>p. read_file p d \<noteq> None \<Longrightarrow> prefix sstables_dir p \<Longrightarrow> p \<in> final_path ` fst ` set L \<or> tmp_file p"
    and "case read_file wal_path d of None \<Rightarrow> rs = [] | Some f \<Rightarrow> ReadAll f = rs"
  shows "disk_holds d L rs"
  using assms by (auto simp: disk_holds_def tmp_file_def)

lemma disk_holds_published:
  assumes "disk_holds d L rs" and "published n ses d d'" and "table_ok ses" and "n < 1000000"
    and "\<forall>k \<in> fst ` set L. k < n"
  shows "disk_holds d' (L @ [(n, ses)]) rs"
proof -
  have rd: "\<not> tmp_file p \<Longrightarrow> read_file p d' = (if p = final_path n then Some (sst_file ses) else read_file p d)" for p
    using assms(2) by (simp add: published_def)
  have "p \<in> final_path ` fst ` set (L @ [(n, ses)]) \<or> tmp_file p"
    if "read_file p d' \<noteq> None" "prefix sstables_dir p" for p
  proof (cases "tmp_file p \<or> p = final_path n")
    case False
    then have "read_file p d \<noteq> None" using that(1) rd [of p] by simp
    from disk_holds_other [OF assms(1) this that(2)] show ?thesis by auto
  qed auto
  moreover have "read_file (final_path k) d' = (if k = n then Some (sst_file ses) else read_file (final_path k) d)" for k
    using rd [of "final_path k"] by simp
  moreover have "read_file wal_path d' = read_file wal_path d" using rd [of wal_path] by simp
  moreover have "sorted_wrt (<) (map fst (L @ [(n, ses)]))"
    using assms(1,5) by (auto simp: disk_holds_def sorted_wrt_append)
  moreover have "case read_file wal_path d of None \<Rightarrow> rs = [] | Some f \<Rightarrow> ReadAll f = rs"
    using assms(1) by (simp add: disk_holds_def)
  ultimately show ?thesis
    using assms(3,4,5) disk_holds_table [OF assms(1)] by (intro disk_holdsI) (auto split: if_splits)
qed

lemma disk_holds_drop:
  assumes "disk_holds d (L @ L2) rs" and "j \<le> length L"
    and "\<forall>q. read_file q d' = (if q \<in> set (take j (map fst (map tbl L))) then None else read_file q d)"
  shows "disk_holds d' (drop j L @ L2) rs"
proof -
  have paths: "set (take j (map fst (map tbl L))) = final_path ` fst ` set (take j L)"
    by (simp add: take_map tbl_def image_image)
  have rd: "read_file q d' = (if q \<in> final_path ` fst ` set (take j L) then None else read_file q d)" for q
    using assms(3) unfolding paths by blast
  have srt: "sorted_wrt (<) (map fst (take j L) @ map fst (drop j L @ L2))"
  proof -
    have "map fst (take j L) @ map fst (drop j L @ L2) = map fst (L @ L2)"
      by (metis append.assoc append_take_drop_id map_append)
    moreover have "sorted_wrt (<) (map fst (L @ L2))" using assms(1) by (simp add: disk_holds_def)
    ultimately show ?thesis by (simp only:)
  qed
  have kept: "n \<notin> fst ` set (take j L)" if "n \<in> fst ` set (drop j L @ L2)" for n
  proof
    assume "n \<in> fst ` set (take j L)"
    with srt that have "n < n" unfolding sorted_wrt_append set_map by blast
    then show False by simp
  qed
  have sub: "set L = set (take j L) \<union> set (drop j L)" by (metis append_take_drop_id set_append)
  have "p \<in> final_path ` fst ` set (drop j L @ L2) \<or> tmp_file p"
    if "read_file p d' \<noteq> None" "prefix sstables_dir p" for p
  proof -
    have no: "p \<notin> final_path ` fst ` set (take j L)" and "read_file p d \<noteq> None"
      using that(1) unfolding rd by (auto split: if_splits)
    from disk_holds_other [OF assms(1) this(2) that(2)] no show ?thesis by (auto simp: sub image_Un)
  qed
  moreover have "read_file (final_path n) d' = read_file (final_path n) d" if "n \<in> fst ` set (drop j L @ L2)" for n
    using kept [OF that] unfolding rd by (simp add: inj_image_mem_iff [OF injI] image_iff)
  moreover have "read_file wal_path d' = read_file wal_path d" unfolding rd by auto
  moreover have "ne \<in> set (L @ L2)" if "ne \<in> set (drop j L @ L2)" for ne using that sub by auto
  moreover have "sorted_wrt (<) (map fst (drop j L @ L2))" using srt unfolding sorted_wrt_append by blast
  moreover have "case read_file wal_path d of None \<Rightarrow> rs = [] | Some f \<Rightarrow> ReadAll f = rs"
    using assms(1) by (simp add: disk_holds_def)
  ultimately show ?thesis
    using disk_holds_table [OF assms(1)] by (intro disk_holdsI) (simp_all add: image_iff, force+)
qed

lemma tables_map_append: "tables_map (ts @ us) = tables_map ts ++ tables_map us"
  by (induction us rule: rev_induct) (simp_all flip: append_assoc)

lemma live_add: "live t (a ++ r) k = (if r k = None then live t a k else live t r k)"
  by (simp add: live_def map_add_def split: option.splits)

lemma live_map_add: "live t a = live t b \<Longrightarrow> live t (a ++ r) = live t (b ++ r)"
  by (simp add: live_add fun_eq_iff)

lemma live_drop_compacted:
  assumes "live t (tmap c) = live t (tables_map ts)"
  shows "live t (tables_map (drop j ts) ++ tmap c) = live t (tables_map ts)"
proof
  fix k
  have split: "tables_map ts = tables_map (take j ts) ++ tables_map (drop j ts)"
    by (simp flip: tables_map_append)
  have eq: "live t (tmap c) k = live t (tables_map ts) k" using assms by simp
  show "live t (tables_map (drop j ts) ++ tmap c) k = live t (tables_map ts) k"
  proof (cases "tmap c k")
    case (Some x)
    then show ?thesis using eq by (simp add: live_add)
  next
    case None
    then have no: "live t (tables_map ts) k = None" using eq by (simp add: live_def)
    then have "live t (tables_map (drop j ts)) k = None"
      unfolding split live_add by (auto simp: live_def split: if_splits)
    with None no show ?thesis by (simp add: live_add)
  qed
qed

lemma compactLocked_crash:
  assumes tabs: "sstables e = map tbl L" and h: "disk_holds (edisk e) L rs" and size: "lsm_bytes e < 2 ^ 64"
    and seq: "sstableSeq e + 1 < 1000000" "\<forall>n \<in> fst ` set L. n \<le> sstableSeq e"
    and cr: "crash_only (faults (edisk e))"
  shows "recovers now (edisk (snd (compactLocked now e))) (content L (replayed rs))"
proof -
  let ?n = "sstableSeq e + 1"
  have L: "\<forall>(n, es) \<in> set L. table_ok es" using h by (auto simp: disk_holds_def)
  obtain m where m: "merge_sstables (map tbl L) [] = Inr m" "merged_ok m"
    "merged_bytes m \<le> sum_list (map (\<lambda>ne. length (data_block (snd ne))) L)"
    "map_of m = foldl (\<lambda>a es. a ++ by_key es) Map.empty (map snd L)"
    using merge_sstables_ok [OF L, of "[]"] by (auto simp: merged_ok_def merged_bytes_def)
  let ?c = "compacted now m"
  have "merged_bytes m < 2 ^ 64" using m(3) size by (simp add: lsm_bytes_tables [OF tabs])
  then have ok: "table_ok ?c" by (rule table_ok_compacted [OF m(2)])
  obtain r e1 where w: "writeAndOpenSSTable ?c e = (r, e1)" by fastforce
  obtain d1 where d1: "e1 = e\<lparr>sstableSeq := ?n, edisk := d1\<rparr>"
    "published ?n ?c (edisk e) d1 \<or> (same_final (edisk e) d1 \<and> isl r)"
    "\<forall>t. r = Inr t \<longrightarrow> t = tbl (?n, ?c)" "crash_only (faults d1)"
    using writeAndOpenSSTable_any [OF w refl] ok cr by auto
  have same: "live t (tmap ?c) = live t (tables_map (map snd L))" if "now \<le> t" for t
    using live_compacted [OF m(2) _ that, of "tables_map (map snd L)" Map.empty]
    by (simp add: foldl_by_key_tables_map m(4))
  have step: "edisk (snd (compactLocked now e)) =
      (case r of Inl _ \<Rightarrow> d1 | Inr _ \<Rightarrow> remove_files (map fst (map tbl L)) d1)"
    using m(1) w d1(1) tabs
    by (cases r) (simp_all add: compactLocked_def Let_def compacted_def split: prod.splits)
  show ?thesis
  proof (cases "published ?n ?c (edisk e) d1")
    case True
    have h1: "disk_holds d1 (L @ [(?n, ?c)]) rs"
      using seq by (intro disk_holds_published [OF h True ok]) auto
    have "\<exists>j \<le> length L. \<forall>q. read_file q (edisk (snd (compactLocked now e))) =
        (if q \<in> set (take j (map fst (map tbl L))) then None else read_file q d1)"
    proof (cases r)
      case (Inl err)
      then show ?thesis unfolding step by (intro exI [of _ 0]) simp
    next
      case (Inr t)
      with remove_files_crash [OF d1(4), of "map fst (map tbl L)"] show ?thesis
        unfolding step by (simp only: sum.case length_map)
    qed
    then obtain j where j: "j \<le> length L" "\<forall>q. read_file q (edisk (snd (compactLocked now e))) =
        (if q \<in> set (take j (map fst (map tbl L))) then None else read_file q d1)" by blast
    have "disk_holds (edisk (snd (compactLocked now e))) (drop j L @ [(?n, ?c)]) rs"
      by (rule disk_holds_drop [OF h1 j])
    moreover have "live t (content (drop j L @ [(?n, ?c)]) (replayed rs)) = live t (content L (replayed rs))"
      if "now \<le> t" for t
      using live_map_add [OF live_drop_compacted [OF same [OF that], of j]]
      by (simp add: content_def drop_map)
    ultimately show ?thesis by (rule recoversI)
  next
    case False
    with d1(2) have "same_final (edisk e) d1" "isl r" by auto
    then have "disk_holds (edisk (snd (compactLocked now e))) L rs"
      using disk_holds_same_final [OF _ h] by (cases r) (simp_all add: step)
    then show ?thesis by (rule recoversI) simp
  qed
qed

lemma Reset_crash_only:
  assumes "Reset d = (ok, d')" and "crash_only (faults d)"
  shows "crash_only (faults d')"
proof -
  obtain ok1 d1 where t: "os_truncate wal_path 0 d = (ok1, d1)" by fastforce
  obtain ok2 d2 where s: "os_sync d1 = (ok2, d2)" by fastforce
  obtain ok3 d3 where s': "os_sync d2 = (ok3, d3)" by fastforce
  note c1 = crash_only_calls(4) [OF assms(2) t]
  note c2 = crash_only_calls(3) [OF c1 s]
  show ?thesis using assms(1) t s s' c1 c2 crash_only_calls(3) [OF c2 s']
    by (auto simp: Reset_def split: bool.splits)
qed

lemma AppendBatch_crash_only:
  assumes "crash_only (faults d)" and "AppendBatch rs d = (ok, d')"
  shows "crash_only (faults d')"
proof -
  obtain ok1 d1 where w: "os_write_all wal_path (map encode rs) d = (ok1, d1)" by fastforce
  obtain ok2 d2 where s: "os_sync d1 = (ok2, d2)" by fastforce
  note c1 = crash_only_write_all [OF assms(1) w]
  show ?thesis using assms w s c1 crash_only_calls(3) [OF c1 s]
    by (auto simp: AppendBatch_def split: bool.splits if_splits)
qed

lemma disk_holds_wal:
  assumes "disk_holds d L rs" and "\<forall>q. q \<noteq> wal_path \<longrightarrow> read_file q d' = read_file q d"
    and "case read_file wal_path d' of None \<Rightarrow> rs' = [] | Some f \<Rightarrow> ReadAll f = rs'"
  shows "disk_holds d' L rs'"
proof (rule disk_holdsI)
  show "p \<in> final_path ` fst ` set L \<or> tmp_file p" if "read_file p d' \<noteq> None" "prefix sstables_dir p" for p
  proof -
    have "p \<noteq> wal_path" using that(2) not_prefix_wal by auto
    then have "read_file p d \<noteq> None" using assms(2) that(1) by metis
    from disk_holds_other [OF assms(1) this that(2)] show ?thesis .
  qed
  show "n < 1000000 \<and> table_ok es \<and> read_file (final_path n) d' = Some (sst_file es)" if "(n, es) \<in> set L" for n es
    using disk_holds_table [OF assms(1) that] assms(2) by simp
qed (use assms in \<open>simp_all add: disk_holds_def\<close>)

lemma replayed_nil [simp]: "replayed [] = []"
  by (simp add: replayed_def)

lemma ReadAll_nil: "ReadAll [] = []"
  using wal.replay_all [of "[]"] by simp

lemma flushLocked_crash:
  assumes tabs: "sstables e = map tbl L" and h: "disk_holds (edisk e) L rs"
    and wal: "read_file wal_path (edisk e) \<noteq> None"
    and mt: "memtable e = replayed rs" "mt_ok (memtable e)" and size: "lsm_bytes e < 2 ^ 64"
    and seq: "sstableSeq e + 2 < 1000000" "\<forall>n \<in> fst ` set L. n \<le> sstableSeq e"
    and cr: "crash_only (faults (edisk e))"
  shows "recovers now (edisk (snd (flushLocked now e))) (content L (memtable e))"
proof (cases "memtable e = []")
  case True
  then have "flushLocked now e = (None, e)" by (simp add: flushLocked_def)
  with h mt(1) show ?thesis by (auto intro: recoversI)
next
  case False
  let ?n = "sstableSeq e + 1"
  let ?es = "mt_entries (memtable e)"
  let ?L = "L @ [(?n, ?es)]"
  have ok: "table_ok ?es" using size by (intro table_ok_mt_entries mt(2)) (simp add: lsm_bytes_def)
  obtain r e1 where w: "writeAndOpenSSTable ?es e = (r, e1)" by fastforce
  obtain d1 where d1: "e1 = e\<lparr>sstableSeq := ?n, edisk := d1\<rparr>"
    "published ?n ?es (edisk e) d1 \<or> (same_final (edisk e) d1 \<and> isl r)"
    "\<forall>t. r = Inr t \<longrightarrow> t = tbl (?n, ?es)" "crash_only (faults d1)"
    using writeAndOpenSSTable_any [OF w refl] ok cr by auto
  have twice: "content ?L (replayed rs) = content L (memtable e)"
    using tmap_mt_entries [OF mt(2)]
    by (auto simp: content_def mt(1) map_add_def fun_eq_iff split: option.splits)
  have once: "content ?L [] = content L (memtable e)"
    by (simp add: content_def tmap_mt_entries [OF mt(2)])
  show ?thesis
  proof (cases r)
    case (Inl err)
    then have step: "edisk (snd (flushLocked now e)) = d1"
      using False w d1(1) by (simp add: flushLocked_def Let_def mt_entries_def)
    show ?thesis
    proof (cases "published ?n ?es (edisk e) d1")
      case True
      have "disk_holds d1 ?L rs" using seq by (intro disk_holds_published [OF h True ok]) auto
      then show ?thesis unfolding step by (rule recoversI) (simp only: twice)
    next
      case False
      with d1(2) have "disk_holds d1 L rs" using disk_holds_same_final [OF _ h] by blast
      then show ?thesis unfolding step by (rule recoversI) (simp only: mt(1))
    qed
  next
    case (Inr t)
    then have pub: "published ?n ?es (edisk e) d1" and t: "t = tbl (?n, ?es)" using d1(2,3) by auto
    have h1: "disk_holds d1 ?L rs" using seq by (intro disk_holds_published [OF h pub ok]) auto
    obtain ok2 d2 where rs2: "Reset d1 = (ok2, d2)" by fastforce
    have wal1: "read_file wal_path d1 \<noteq> None" using wal pub by (simp add: published_def)
    have keep: "\<forall>q. q \<noteq> wal_path \<longrightarrow> read_file q d2 = read_file q d1"
      and "read_file wal_path d2 = read_file wal_path d1 \<and> \<not> ok2 \<or> read_file wal_path d2 = Some []"
      using Reset_any [OF rs2] wal1 by auto
    then consider (old) "\<not> ok2" "read_file wal_path d2 = read_file wal_path d1" | (new) "read_file wal_path d2 = Some []"
      by blast
    then have h2: "disk_holds d2 ?L rs \<and> \<not> ok2 \<or> disk_holds d2 ?L []"
    proof cases
      case old
      have "case read_file wal_path d1 of None \<Rightarrow> rs = [] | Some f \<Rightarrow> ReadAll f = rs"
        using h1 by (simp add: disk_holds_def)
      then show ?thesis using disk_holds_wal [OF h1 keep, of rs] old by simp
    next
      case new
      then show ?thesis using disk_holds_wal [OF h1 keep, of "[]"] by (simp add: ReadAll_nil)
    qed
    define e2 where "e2 = e\<lparr>sstableSeq := ?n, edisk := d2, sstables := sstables e @ [tbl (?n, ?es)],
      memtable := [], memtableSize := 0\<rparr>"
    have fl: "edisk (snd (flushLocked now e)) =
      (if ok2 \<and> int (length (sstables e2)) > CompactionThreshold (eopts e2)
       then edisk (snd (compactLocked now e2)) else d2)"
      using False w d1(1) rs2 Inr t
      by (cases ok2) (simp_all add: flushLocked_def Let_def mt_entries_def e2_def tbl_def)
    show ?thesis
    proof (cases "ok2 \<and> int (length (sstables e2)) > CompactionThreshold (eopts e2)")
      case True
      have "recovers now (edisk (snd (compactLocked now e2))) (content ?L (replayed []))"
      proof (rule compactLocked_crash)
        show "disk_holds (edisk e2) ?L []" using h2 True by (simp add: e2_def)
        show "lsm_bytes e2 < 2 ^ 64"
          using size mt(2) length_data_block_mt [of "memtable e"]
          by (simp add: lsm_bytes_def e2_def tbl_def table_of_def mt_ok_def mt_bytes_def)
        show "crash_only (faults (edisk e2))" using Reset_crash_only [OF rs2 d1(4)] by (simp add: e2_def)
      qed (use tabs seq in \<open>auto simp: e2_def\<close>)
      then show ?thesis unfolding fl if_P [OF True] by (simp only: once replayed_nil)
    next
      case False
      then have "edisk (snd (flushLocked now e)) = d2" using fl by (simp only: if_False)
      with h2 show ?thesis using twice once by (auto intro: recoversI)
    qed
  qed
qed


lemma content_replayed:
  assumes "lsm_rep e L rs" and "list_all op_wf ops"
  shows "content L (replayed (rs @ map op_rec ops)) = foldl apply_op (content L (memtable e)) ops"
proof -
  have "memtable (applyOps ops e) = replayed (rs @ map op_rec ops)"
    using assms by (auto simp: applyOps_records replayed_def lsm_rep_def split: prod.splits)
  then show ?thesis using applyOps_memtable [of ops e] by (simp add: content_def foldl_apply_op_add)
qed

lemma processBatch_crash:
  assumes rep: "lsm_rep e L rs" and wf: "list_all op_wf ops"
    and fits: "fits_batch e (sum_list (map op_bytes ops))" and cr: "crash_only fs"
    and run: "processBatch now ops (e\<lparr>edisk := (edisk e)\<lparr>faults := fs\<rparr>\<rparr>) = (r, e')"
  shows "\<exists>i \<le> length ops. (r = None \<longrightarrow> i = length ops) \<and>
    recovers now (edisk e') (foldl apply_op (content L (memtable e)) (take i ops))"
proof -
  let ?d = "(edisk e)\<lparr>faults := fs\<rparr>"
  let ?rs = "map op_rec ops"
  have h: "disk_holds ?d L rs" and wal: "read_file wal_path ?d = Some (concat (map encode rs))"
    using rep by (auto simp: lsm_rep_def disk_holds_faults read_file_def)
  obtain ok d1 where ab: "AppendBatch ?rs ?d = (ok, d1)" by fastforce
  obtain w where w: "prefix w (concat (map encode ?rs))" "ok \<longrightarrow> w = concat (map encode ?rs)"
    "\<forall>q. read_file q d1 = (if q = wal_path then Some (concat (map encode rs) @ w) else read_file q ?d)"
    using AppendBatch_any [OF ab wal] by blast
  have oks: "list_all record_ok rs" "list_all record_ok ?rs"
    using rep wf by (auto simp: lsm_rep_def op_wf_def list_all_iff)
  obtain i where i: "i \<le> length ops" "ReadAll (concat (map encode rs) @ w) = rs @ map op_rec (take i ops)"
  proof -
    obtain i where "i \<le> length ?rs" "ReadAll w = take i ?rs" using wal.replay_cut [OF oks(2) w(1)] by blast
    then show ?thesis using that [of i] oks(1) by (simp add: wal.replay_append take_map)
  qed
  have h1: "disk_holds d1 L (rs @ map op_rec (take i ops))"
    using i(2) w(3) by (intro disk_holds_wal [OF h]) simp_all
  have wfi: "list_all op_wf (take i ops)" using wf by (auto simp: list_all_iff dest: in_set_takeD)
  note ci = content_replayed [OF rep wfi]
  show ?thesis
  proof (cases ok)
    case False
    then have "r = Some ErrIO" "edisk e' = d1" using run ab by (auto simp: processBatch_def)
    then show ?thesis using i(1) recoversI [OF h1, of now "content L (replayed (rs @ map op_rec (take i ops)))"] ci by auto
  next
    case True
    then have "ReadAll (concat (map encode rs) @ w) = rs @ ?rs" using w(2) oks wal.replay_all [of "rs @ ?rs"] by simp
    then have "length (take i ops) = length ops" using i(2) by (metis length_map same_append_eq)
    then have i_all: "take i ops = ops" by simp
    define e1 where "e1 = applyOps ops (e\<lparr>edisk := d1\<rparr>)"
    have fr: "sstables e1 = sstables e" "edisk e1 = d1" "sstableSeq e1 = sstableSeq e"
      using applyOps_frame [of ops "e\<lparr>edisk := d1\<rparr>"] by (simp_all add: e1_def)
    have mt: "memtable e1 = replayed (rs @ ?rs)"
      using rep wf by (auto simp: e1_def applyOps_records replayed_def lsm_rep_def split: prod.splits)
    have mtok: "mt_ok (memtable e1)" unfolding mt replayed_def
      by (rule mt_ok_replay) (use oks in \<open>auto simp: mt_ok_def\<close>)
    have size: "lsm_bytes e1 < 2 ^ 64"
      using applyOps_memtable [of ops "e\<lparr>edisk := d1\<rparr>"] fits fr(1) by (simp add: lsm_bytes_def e1_def fits_batch_def)
    have c1: "crash_only (faults d1)" using cr by (intro AppendBatch_crash_only [OF _ ab]) simp
    have e': "(r, e') = maybeFlushLocked now e1" using run ab True by (simp add: processBatch_def e1_def)
    have "recovers now (edisk (snd (flushLocked now e1))) (content L (memtable e1))"
      using rep h1 i_all w(3) mt mtok size fits c1 fr
      by (intro flushLocked_crash [where rs = "rs @ ?rs"]) (auto simp: lsm_rep_def fits_batch_def)
    moreover have "recovers now d1 (content L (memtable e1))"
      using h1 by (intro recoversI) (simp_all add: i_all mt)
    ultimately have "recovers now (edisk e') (content L (memtable e1))"
      using e' fr(2) by (auto simp: maybeFlushLocked_def split: if_splits) (metis snd_conv)
    then show ?thesis using ci by (intro exI [of _ "length ops"]) (simp add: mt i_all)
  qed
qed


lemma live_apply_op: "live t (apply_op m op) = live t ((live t m)(op_key op \<mapsto> op_entry op))"
  by (auto simp: apply_op_def live_def fun_eq_iff split: option.splits)

lemma foldl_apply_op_live:
  "now \<le> t \<Longrightarrow> live t (foldl apply_op (live now m) ops) = live t (foldl apply_op m ops)"
proof (induction ops rule: rev_induct)
  case Nil
  then show ?case by (simp add: live_live)
next
  case (snoc op ops)
  then show ?case by (simp add: live_apply_op [of t "foldl apply_op _ ops"])
qed

end
