(* ===== verification/Engine_Refinement.thy ===== *)
theory Engine_Refinement
  imports Lsm_Crash
begin

text \<open>
  A client of the \<^verbatim>\<open>Engine\<close> interface (\<^verbatim>\<open>internal/storage/storage.go\<close>): sequences of calls and what the client
  sees of them, with a simulation that makes two engines indistinguishable, interpreted for the LSM
  engine against the in-memory store.
\<close>

section \<open>Two engines answer alike\<close>

text \<open>A client's calls, with the clock reading of each, and what the client sees of the result.\<close>

datatype kv_call =
  KGet string | KPut string bytes Consistency int | KDelete string | KScan string

type_synonym seen = "bytes \<times> Consistency \<times> time option"

datatype kv_seen =
  SGet "kv_error + seen" | SWrite "kv_error option" | SScan "kv_error + (string \<rightharpoonup> seen)"

definition seen :: "Entry \<Rightarrow> seen" where
  "seen e = (Value e, Consistency e, ExpiresAt e)"

definition kv_call_step ::
  "('s \<Rightarrow> time \<Rightarrow> string \<Rightarrow> kv_error + Entry) \<Rightarrow>
   ('s \<Rightarrow> time \<Rightarrow> string \<Rightarrow> bytes \<Rightarrow> Consistency \<Rightarrow> int \<Rightarrow> kv_error option \<times> 's) \<Rightarrow>
   ('s \<Rightarrow> time \<Rightarrow> string \<Rightarrow> kv_error option \<times> 's) \<Rightarrow>
   ('s \<Rightarrow> time \<Rightarrow> string \<Rightarrow> kv_error + (string \<times> Entry) list) \<Rightarrow>
   's \<Rightarrow> time \<Rightarrow> kv_call \<Rightarrow> kv_seen \<times> 's" where
  "kv_call_step get put del scan s t c =
     (case c of
        KGet k \<Rightarrow> (SGet (map_sum id seen (get s t k)), s)
      | KPut k v cs ttl \<Rightarrow> map_prod SWrite id (put s t k v cs ttl)
      | KDelete k \<Rightarrow> map_prod SWrite id (del s t k)
      | KScan p \<Rightarrow> (SScan (map_sum id (\<lambda>m k. map_option seen (map_of m k)) (scan s t p)), s))"

fun kv_run ::
  "('s \<Rightarrow> time \<Rightarrow> kv_call \<Rightarrow> kv_seen \<times> 's) \<Rightarrow> 's \<Rightarrow> (time \<times> kv_call) list \<Rightarrow> kv_seen list" where
  "kv_run step s [] = []"
| "kv_run step s ((t, c) # cs) = (let (r, s') = step s t c in r # kv_run step s' cs)"

text \<open>The bounds of the engine hold at every call of the run.\<close>

fun kv_fits ::
  "('s \<Rightarrow> time \<Rightarrow> kv_call \<Rightarrow> kv_seen \<times> 's) \<Rightarrow>
   ('s \<Rightarrow> time \<Rightarrow> string \<Rightarrow> bytes \<Rightarrow> Consistency \<Rightarrow> int \<Rightarrow> bool) \<Rightarrow> ('s \<Rightarrow> time \<Rightarrow> bool) \<Rightarrow>
   's \<Rightarrow> (time \<times> kv_call) list \<Rightarrow> bool" where
  "kv_fits step fp fd s [] \<longleftrightarrow> True"
| "kv_fits step fp fd s ((t, c) # cs) \<longleftrightarrow>
     (case c of KPut k v cs ttl \<Rightarrow> fp s t k v cs ttl | KDelete k \<Rightarrow> fd s t | _ \<Rightarrow> True)
     \<and> kv_fits step fp fd (snd (step s t c)) cs"

locale kv_sim =
  a: kv_engine inv view fp fd get put del scan +
  b: kv_engine inv' view' fp' fd' get' put' del' scan'
  for inv :: "'a \<Rightarrow> bool" and view fp fd get put del scan
    and inv' :: "'b \<Rightarrow> bool" and view' fp' fd' get' put' del' scan'
begin

definition alike :: "time \<Rightarrow> 'a \<Rightarrow> 'b \<Rightarrow> bool" where
  "alike t s u \<longleftrightarrow> inv s \<and> inv' u \<and> (\<forall>k. map_option seen (view s t k) = map_option seen (view' u t k))"

lemma alike_later:
  assumes "alike t s u" and "t \<le> t'"
  shows "alike t' s u"
proof -
  have inv: "inv s" "inv' u" and eq: "map_option seen (view s t k) = map_option seen (view' u t k)" for k
    using assms(1) unfolding alike_def by blast+
  have "map_option seen (live t' (view s t) k) = map_option seen (live t' (view' u t) k)" for k
  proof (cases "view s t k")
    case None
    then have "view' u t k = None" using eq [of k] by simp
    with None show ?thesis by (simp add: live_def)
  next
    case (Some e)
    then obtain e' where e': "view' u t k = Some e'" "seen e = seen e'" using eq [of k] by (cases "view' u t k") auto
    have "\<not> Tombstone e" "\<not> Tombstone e'" using a.view_SomeD [OF inv(1) Some] b.view_SomeD [OF inv(2) e'(1)] by blast+
    moreover have "Expired e t' = Expired e' t'" using e'(2) by (simp add: seen_def Expired_def)
    ultimately show ?thesis using e'(2) by (simp add: live_def Some e'(1))
  qed
  then show ?thesis
    using inv unfolding alike_def a.view_aging [OF inv(1) assms(2)] b.view_aging [OF inv(2) assms(2)] by blast
qed

lemma alike_step:
  assumes "alike t s u"
    and "case c of KPut k v cs ttl \<Rightarrow> fp s t k v cs ttl | KDelete k \<Rightarrow> fd s t | _ \<Rightarrow> True"
    and "case c of KPut k v cs ttl \<Rightarrow> fp' u t k v cs ttl | KDelete k \<Rightarrow> fd' u t | _ \<Rightarrow> True"
  shows "fst (kv_call_step get put del scan s t c) = fst (kv_call_step get' put' del' scan' u t c)
    \<and> alike t (snd (kv_call_step get put del scan s t c)) (snd (kv_call_step get' put' del' scan' u t c))"
proof -
  have inv: "inv s" "inv' u" and eq: "map_option seen (view s t k) = map_option seen (view' u t k)" for k
    using assms(1) by (auto simp: alike_def)
  show ?thesis
  proof (cases c)
    case (KGet k)
    with eq [of k] assms(1) show ?thesis
      by (cases "view s t k"; cases "view' u t k")
        (auto simp: kv_call_step_def a.get_view [OF inv(1)] b.get_view [OF inv(2)])
  next
    case (KPut k v cs ttl)
    obtain s' ver where s': "put s t k v cs ttl = (None, s')" "inv s'"
      "view s' t = (view s t)(k \<mapsto> new_entry v cs t ttl ver)"
      using a.put_view [OF inv(1)] assms(2) KPut by fastforce
    obtain u' ver' where u': "put' u t k v cs ttl = (None, u')" "inv' u'"
      "view' u' t = (view' u t)(k \<mapsto> new_entry v cs t ttl ver')"
      using b.put_view [OF inv(2)] assms(3) KPut by fastforce
    show ?thesis using KPut s' u' eq by (auto simp: kv_call_step_def alike_def seen_def new_entry_def)
  next
    case (KDelete k)
    show ?thesis
    proof (cases "view s t k")
      case None
      then have "view' u t k = None" using eq [of k] by simp
      with None KDelete assms(1) show ?thesis
        by (simp add: kv_call_step_def a.del_absent [OF inv(1)] b.del_absent [OF inv(2)])
    next
      case (Some e)
      then obtain e' where e': "view' u t k = Some e'" using eq [of k] by fastforce
      obtain s' where s': "del s t k = (None, s')" "inv s'" "view s' t = (view s t)(k := None)"
        using a.del_present [OF inv(1) _ Some] assms(2) KDelete by auto
      obtain u' where u': "del' u t k = (None, u')" "inv' u'" "view' u' t = (view' u t)(k := None)"
        using b.del_present [OF inv(2) _ e'] assms(3) KDelete by auto
      show ?thesis using KDelete s' u' eq by (auto simp: kv_call_step_def alike_def)
    qed
  next
    case (KScan p)
    obtain m where m: "scan s t p = Inr m" "map_of m = view s t |` {k. prefix p k}"
      using a.scan_view [OF inv(1)] by blast
    obtain m' where m': "scan' u t p = Inr m'" "map_of m' = view' u t |` {k. prefix p k}"
      using b.scan_view [OF inv(2)] by blast
    show ?thesis using KScan m m' eq assms(1) by (auto simp: kv_call_step_def restrict_map_def fun_eq_iff)
  qed
qed

lemma alike_run:
  assumes "alike t0 s u" and "sorted (t0 # map fst cs)"
    and "kv_fits (kv_call_step get put del scan) fp fd s cs"
    and "kv_fits (kv_call_step get' put' del' scan') fp' fd' u cs"
  shows "kv_run (kv_call_step get put del scan) s cs = kv_run (kv_call_step get' put' del' scan') u cs"
  using assms
proof (induction cs arbitrary: t0 s u)
  case (Cons tc cs)
  obtain t c where tc: "tc = (t, c)" by fastforce
  have "alike t s u" using Cons.prems(1,2) alike_later by (simp add: tc)
  from alike_step [OF this, of c] have step:
    "fst (kv_call_step get put del scan s t c) = fst (kv_call_step get' put' del' scan' u t c)"
    "alike t (snd (kv_call_step get put del scan s t c)) (snd (kv_call_step get' put' del' scan' u t c))"
    using Cons.prems(3,4) by (simp_all add: tc)
  have "sorted (t # map fst cs)" using Cons.prems(2) by (simp add: tc)
  from Cons.IH [OF step(2) this] Cons.prems(3,4) step(1) show ?case by (simp add: tc case_prod_beta)
qed simp

end

interpretation lsm_mem: kv_sim lsm_inv lsm_view lsm_fits_put lsm_fits_del lsm_Get lsm_Put lsm_Delete lsm_Scan
  mem_inv mem_view "\<lambda>_ _ _ _ _ _. True" "\<lambda>_ _. True" mem_Get mem_Put mem_Delete mem_Scan
  by unfold_locales

end
