(* ===== verification/Lsm_Props.thy ===== *)
theory Lsm_Props
  imports Engine_Refinement
begin

text \<open>
  The properties of the LSM storage engine, with the concrete engines their witnesses use.
\<close>

section \<open>Durability\<close>

definition sample_opts :: Options where
  "sample_opts = \<lparr>MemtableFlushThresholdBytes = 4194304, CompactionThreshold = 4\<rparr>"

definition sample_engine :: Engine where
  "sample_engine = \<lparr>edisk = \<lparr>files = [(wal_path, [])], faults = []\<rparr>, eopts = sample_opts, memtable = [],
     memtableSize = 0, sstables = [], sstableSeq = 0, nextSeq = 1, opCh = []\<rparr>"

lemma read_wal_only: "read_file p \<lparr>files = [(wal_path, f)], faults = []\<rparr> = (if p = wal_path then Some f else None)"
  by (simp add: read_file_def)

lemma sample_rep: "lsm_rep sample_engine [] []"
  using not_prefix_wal
  by (auto simp: lsm_rep_def sample_engine_def disk_holds_def read_wal_only ReadAll_nil)

lemma sample_inv: "lsm_inv sample_engine"
  using sample_rep by (auto simp: lsm_inv_def) (simp_all add: sample_engine_def)

lemma sample_bytes: "lsm_bytes sample_engine = 0" "sstableSeq sample_engine = 0" "nextSeq sample_engine = 1"
  by (simp_all add: lsm_bytes_def sample_engine_def mt_bytes_def)

lemma sample_view: "lsm_view sample_engine t = Map.empty"
  unfolding rep_view [OF sample_rep] by (simp add: content_def sample_engine_def live_def fun_eq_iff)

text \<open>
  C1: Whatever instant of the group commit of a batch the machine dies at (in the middle of a
  log write, a flush, a compaction or its clean-up), reopening the data directory succeeds and
  every read sees the entries from before the batch with a prefix of the batch applied; the
  prefix is the whole batch if the writers had been told that it succeeded.
\<close>

theorem lsm_crash_safe:
  assumes "lsm_inv e" and "list_all op_wf ops" and "fits_batch e (sum_list (map op_bytes ops))"
    and "crash_only fs" and "processBatch now ops (e\<lparr>edisk := (edisk e)\<lparr>faults := fs\<rparr>\<rparr>) = (r, e1)"
  shows "\<exists>i \<le> length ops. (r = None \<longrightarrow> i = length ops) \<and>
    (\<exists>e2 d2. lsm_Open ((edisk e1)\<lparr>faults := []\<rparr>) opts = (Inr e2, d2) \<and>
       (\<forall>t \<ge> now. lsm_view e2 t = live t (foldl apply_op (lsm_view e now) (take i ops))))"
proof -
  obtain L rs where rep: "lsm_rep e L rs" using assms(1) by (auto simp: lsm_inv_def)
  obtain i where i: "i \<le> length ops" "r = None \<longrightarrow> i = length ops"
    "recovers now (edisk e1) (foldl apply_op (content L (memtable e)) (take i ops))"
    using processBatch_crash [OF rep assms(2-5)] by blast
  then show ?thesis
    using recovers_Open [OF i(3), of opts] by (auto simp: rep_view [OF rep] foldl_apply_op_live)
qed

definition sample_op :: engineOp where
  "sample_op = put_op sample_engine 5 ''a'' [7] ConsistencyStrong 0"

lemma sample_op_fits: "lsm_fits_put sample_engine 5 ''a'' [7] ConsistencyStrong 0"
  by (simp add: lsm_fits_put_def fits_batch_def sample_bytes ConsistencyStrong_def in_s64_def)

lemma sample_op_wf: "op_wf sample_op" "op_bytes sample_op = 32"
  using put_op_wf [OF sample_op_fits] by (simp_all add: sample_op_def sample_bytes ConsistencyStrong_def)

theorem lsm_crash_safe_witness:
  "\<exists>i \<le> length [sample_op].
     (fst (processBatch 5 [sample_op] (sample_engine\<lparr>edisk := (edisk sample_engine)\<lparr>faults := [Crash 3]\<rparr>\<rparr>)) = None
        \<longrightarrow> i = length [sample_op]) \<and>
     (\<exists>e2 d2. lsm_Open ((edisk (snd (processBatch 5 [sample_op]
            (sample_engine\<lparr>edisk := (edisk sample_engine)\<lparr>faults := [Crash 3]\<rparr>\<rparr>))))\<lparr>faults := []\<rparr>) sample_opts = (Inr e2, d2) \<and>
        (\<forall>t \<ge> 5. lsm_view e2 t = live t (foldl apply_op (lsm_view sample_engine 5) (take i [sample_op]))))"
  by (rule lsm_crash_safe [OF sample_inv])
    (simp_all add: sample_op_wf fits_batch_def sample_bytes crash_only_def)

text \<open>
  C6: Closing and reopening the engine loses nothing: from any state the fault-free operations
  reach, \<^verbatim>\<open>Open\<close> succeeds, gives back a good state and every read answers as before.
\<close>

theorem lsm_reopen:
  assumes "lsm_inv e"
  shows "\<exists>e' d'. lsm_Open (edisk e) opts = (Inr e', d') \<and> lsm_inv e' \<and> lsm_view e' = lsm_view e"
proof -
  obtain L rs where rep: "lsm_rep e L rs" using assms by (auto simp: lsm_inv_def)
  from rep_reopen [OF rep, of opts] obtain e' d' where e': "lsm_Open (edisk e) opts = (Inr e', d')" "opCh e' = []"
    "lsm_rep e' L rs" "memtable e' = memtable e" by blast
  have "nextSeq e' < 2 ^ 64"
    using e'(1) by (auto simp: lsm_Open_def Let_def split: prod.splits bool.splits sum.splits)
  with e' show ?thesis by (auto simp: lsm_inv_def rep_view [OF rep] rep_view [OF e'(3)])
qed

theorem lsm_reopen_witness:
  "\<exists>e' d'. lsm_Open (edisk sample_engine) sample_opts = (Inr e', d') \<and> lsm_inv e' \<and> lsm_view e' = lsm_view sample_engine"
  by (rule lsm_reopen [OF sample_inv])

text \<open>
  C5: One round of the write loop over the first \<open>n\<close> queued operations, with everything it may
  trigger (the log append, a flush, a compaction), reports success, leaves the rest queued, and
  is seen by every later read as those \<open>n\<close> operations applied in queue order.
\<close>

theorem lsm_group_commit:
  assumes "lsm_inv (e\<lparr>opCh := []\<rparr>)" and "list_all op_wf (take n (opCh e))"
    and "fits_batch e (sum_list (map op_bytes (take n (opCh e))))"
  shows "\<exists>e'. opLoop_round now n e = (None, e') \<and> opCh e' = drop n (opCh e) \<and> lsm_inv (e'\<lparr>opCh := []\<rparr>) \<and>
    (\<forall>t \<ge> now. lsm_view e' t = live t (foldl apply_op (lsm_view e now) (take n (opCh e))))"
proof -
  obtain L rs where rep0: "lsm_rep (e\<lparr>opCh := []\<rparr>) L rs" "nextSeq e < 2 ^ 64" using assms(1) by (auto simp: lsm_inv_def)
  let ?e = "e\<lparr>opCh := drop n (opCh e)\<rparr>"
  have rep: "lsm_rep ?e L rs" "lsm_rep e L rs" using rep0 by (simp_all add: lsm_rep_def)
  have "lsm_bytes ?e + sum_list (map op_bytes (take n (opCh e))) < 2 ^ 64" "sstableSeq ?e + 2 < 1000000"
    using assms(3) by (simp_all add: fits_batch_def lsm_bytes_def)
  from processBatch_ok [OF rep(1) assms(2) this, of now] obtain e' L' rs' where
    e': "processBatch now (take n (opCh e)) ?e = (None, e')" "lsm_rep e' L' rs'" "opCh e' = drop n (opCh e)"
      "nextSeq e' = nextSeq e" "\<forall>t \<ge> now. live t (content L' (memtable e')) =
         live t (foldl apply_op (content L (memtable e)) (take n (opCh e)))" by auto
  have "lsm_rep (e'\<lparr>opCh := []\<rparr>) L' rs'" using e'(2) by (simp add: lsm_rep_def)
  then show ?thesis
    using e' rep0(2)
    by (auto simp: opLoop_round_def lsm_inv_def rep_view [OF e'(2)] rep_view [OF rep(2)] foldl_apply_op_live)
qed

definition sample_queue :: Engine where
  "sample_queue = sample_engine\<lparr>opCh := [sample_op, sample_op]\<rparr>"

theorem lsm_group_commit_witness:
  "\<exists>e'. opLoop_round 6 2 sample_queue = (None, e') \<and> opCh e' = drop 2 (opCh sample_queue) \<and> lsm_inv (e'\<lparr>opCh := []\<rparr>) \<and>
    (\<forall>t \<ge> 6. lsm_view e' t = live t (foldl apply_op (lsm_view sample_queue 6) (take 2 (opCh sample_queue))))"
proof (rule lsm_group_commit)
  have "sample_queue\<lparr>opCh := []\<rparr> = sample_engine" by (simp add: sample_queue_def sample_engine_def)
  then show "lsm_inv (sample_queue\<lparr>opCh := []\<rparr>)" using sample_inv by simp
  show "list_all op_wf (take 2 (opCh sample_queue))" by (simp add: sample_queue_def sample_op_wf)
  show "fits_batch sample_queue (sum_list (map op_bytes (take 2 (opCh sample_queue))))"
    by (simp add: sample_queue_def sample_op_wf fits_batch_def lsm_bytes_def sample_engine_def mt_bytes_def)
qed

lemma kv_fits_True: "kv_fits step (\<lambda>_ _ _ _ _ _. True) (\<lambda>_ _. True) s cs"
  by (induction cs arbitrary: s) (auto split: kv_call.splits)

text \<open>
  C2: The LSM engine refines the in-memory store: a client that starts from stores with the same
  contents and makes the same calls at the same (never decreasing) clock readings sees the same
  results, through any number of flushes and compactions.
\<close>

theorem lsm_refines_memstore:
  assumes "lsm_inv e" and "mem_inv s" and "\<forall>k. map_option seen (lsm_view e t0 k) = map_option seen (mem_view s t0 k)"
    and "sorted (t0 # map fst cs)"
    and "kv_fits (kv_call_step lsm_Get lsm_Put lsm_Delete lsm_Scan) lsm_fits_put lsm_fits_del e cs"
  shows "kv_run (kv_call_step lsm_Get lsm_Put lsm_Delete lsm_Scan) e cs
       = kv_run (kv_call_step mem_Get mem_Put mem_Delete mem_Scan) s cs"
  using assms by (intro lsm_mem.alike_run [of t0]) (simp_all add: lsm_mem.alike_def kv_fits_True)

lemma mem_view_New: "mem_view NewMemStore t k = None"
  by (simp add: mem_view_def NewMemStore_def live_def)

theorem lsm_refines_memstore_witness:
  "kv_run (kv_call_step lsm_Get lsm_Put lsm_Delete lsm_Scan) sample_engine
     [(5, KPut ''a'' [7] ConsistencyStrong 0), (6, KGet ''a''), (7, KScan [])]
   = kv_run (kv_call_step mem_Get mem_Put mem_Delete mem_Scan) NewMemStore
     [(5, KPut ''a'' [7] ConsistencyStrong 0), (6, KGet ''a''), (7, KScan [])]"
  by (rule lsm_refines_memstore [of _ _ 0])
    (simp_all add: sample_inv mem_inv_New sample_view mem_view_New sample_op_fits)


section \<open>Writing after a torn tail\<close>

text \<open>
  \<^verbatim>\<open>Open\<close> replays the log up to a torn record but leaves the torn bytes in the file, and
  \<^verbatim>\<open>OpenWriter\<close> appends after them.  The next replay stops at the torn bytes.
\<close>

lemma be_bytes_4:
  "be_bytes 4 v = [word_of_nat (v div 256 div 256 div 256), word_of_nat (v div 256 div 256), word_of_nat (v div 256), word_of_nat v]"
proof -
  have "(4 :: nat) = Suc (Suc (Suc (Suc 0)))" by simp
  then show ?thesis by (simp only: be_bytes.simps append.simps)
qed

lemma take_encode: "length (encode_payload y) < 256 \<Longrightarrow> take 3 (encode y) = [0, 0, 0]"
  by (simp add: encode_def frame_def be_bytes_4)

lemma decode_zero_length:
  "b \<noteq> 0 \<or> c \<noteq> 0 \<Longrightarrow> decode ([0, 0, 0, 0, 0, 0, b, c] @ rest) = Inl ErrCorrupt"
  by (auto simp: decode_def unframe_def ReadFull_def be_val_def ChecksumIEEE_def unat_eq_0)

lemma ReadAll_after_torn:
  assumes "list_all record_ok rs" and "length (encode_payload y) < 256" and "length (encode_payload r) < 256"
  shows "ReadAll (concat (map encode rs) @ take 3 (encode y) @ encode r @ rest) = rs"
proof -
  obtain c cs where cs: "encode_payload r = c # cs"
    by (cases "encode_payload r") (auto dest: arg_cong [of _ _ length] simp: len_simps)
  let ?l = "word_of_nat (length (encode_payload r)) :: byte"
  have "unat ?l = length (encode_payload r)" 
    using assms(3) by (simp add: unsigned_of_nat take_bit_nat_eq_self)
  then have l: "?l \<noteq> 0" using cs by (metis length_0_conv list.distinct(1) unat_0)
  have "take 3 (encode y) @ encode r @ rest = [0, 0, 0, 0, 0, 0, ?l, c] @ cs @ be_bytes 4 (ChecksumIEEE (c # cs)) @ rest"
    using assms(3) take_encode [OF assms(2)] by (simp add: encode_def frame_def cs be_bytes_4 [of "Suc _"])
  then have "decode (take 3 (encode y) @ encode r @ rest) = Inl ErrCorrupt"
    using decode_zero_length [OF disjI1 [OF l], of c "cs @ be_bytes 4 (ChecksumIEEE (c # cs)) @ rest"] by (simp only:)
  then show ?thesis using assms(1) by (simp add: wal.replay_append wal.replay_error)
qed


lemma put_op_key: "op_key (put_op e t k v c ttl) = k"
  by (simp add: put_op_def Put_enqueue_def Let_def)

text \<open>
  C9: A data directory whose log was cut three bytes into a record (a crash in the middle of a
  write) opens; a write accepted after that is acknowledged and readable, and it is gone at the
  next \<^verbatim>\<open>Open\<close>, because it was appended behind the torn bytes that \<^verbatim>\<open>Open\<close> left in the file.
\<close>

theorem lsm_torn_tail_loses_write:
  assumes "length (encode_payload y) < 256" and "in_s64 t" and "length k + length c + length v + 32 < 256"
    and "32 + int (length k) + int (length v) < MemtableFlushThresholdBytes opts"
  shows "\<exists>e1 d1 e2 en e3 d3.
    lsm_Open \<lparr>files = [(wal_path, take 3 (encode y))], faults = []\<rparr> opts = (Inr e1, d1) \<and>
    lsm_Put e1 t k v c 0 = (None, e2) \<and> lsm_Get e2 t k = Inr en \<and> Value en = v \<and>
    lsm_Open (edisk e2) opts = (Inr e3, d3) \<and> lsm_Get e3 t k = Inl ErrKeyNotFound"
proof -
  let ?d = "\<lparr>files = [(wal_path, take 3 (encode y))], faults = []\<rparr>"
  have "ReadAll (take 3 (encode y)) = []"
    using take_encode [OF assms(1)]
    by (intro wal.replay_error [of _ ErrUnexpectedEOF]) (simp add: decode_def unframe_def ReadFull_def)
  then have "disk_holds ?d [] []" using not_prefix_wal by (auto simp: disk_holds_def read_wal_only)
  from lsm_Open_ok [OF this, of opts] obtain e1 d1 where e1: "lsm_Open ?d opts = (Inr e1, d1)" "edisk e1 = d1"
    "faults d1 = []" "opCh e1 = []" "disk_holds d1 [] []" "read_file wal_path d1 = Some (take 3 (encode y))"
    "sstables e1 = []" "memtable e1 = []" "memtableSize e1 = 0" "eopts e1 = opts"
    by (auto simp: read_wal_only)
  let ?op = "put_op e1 t k v c 0"
  obtain d2 where d2: "AppendBatch [op_rec ?op] d1 = (True, d2)" "faults d2 = []"
    "\<forall>q. read_file q d2 = (if q = wal_path then Some (take 3 (encode y) @ encode (op_rec ?op)) else read_file q d1)"
    using AppendBatch_ok [OF e1(3,6), of "[op_rec ?op]"] by auto
  define e2 where "e2 = applyToMemtable k (op_entry ?op) (e1\<lparr>nextSeq := u64 (nextSeq e1 + 1), opCh := [], edisk := d2\<rparr>)"
  have e2: "edisk e2 = d2" "memtable e2 = [(k, op_entry ?op)]" "eopts e2 = opts"
    "memtableSize e2 < MemtableFlushThresholdBytes opts"
    using e1 assms(4) by (simp_all add: e2_def applyToMemtable_def Let_def entrySize_def put_op_def Put_enqueue_def)
  have put: "lsm_Put e1 t k v c 0 = (None, e2)"
    using e1 d2 e2 by (simp add: lsm_Put_def Put_enqueue_eq opLoop_round_def processBatch_def applyOps_def Let_def
        maybeFlushLocked_def e2_def put_op_key)
  have "length (encode_payload (op_rec ?op)) < 256"
    using assms(3) by (simp add: len_simps put_op_def Put_enqueue_def Let_def)
  from ReadAll_after_torn [of "[]", OF _ assms(1) this, of "[]"]
  have "disk_holds d2 [] []" using d2(3) by (intro disk_holds_wal [OF e1(5)]) simp_all
  from lsm_Open_ok [OF this d2(2), of opts] obtain e3 d3 where e3: "lsm_Open d2 opts = (Inr e3, d3)"
    "sstables e3 = []" "memtable e3 = []" by auto
  have "lsm_Get e2 t k = Inr (op_entry ?op)" "Value (op_entry ?op) = v"
    by (simp_all add: lsm_Get_def lookupLocked_def e2(2) checkedEntry_def put_op_def Put_enqueue_def Let_def Expired_def)
  moreover have "lsm_Get e3 t k = Inl ErrKeyNotFound" using e3 by (simp add: lsm_Get_def lookupLocked_def)
  ultimately show ?thesis using e1(1) put e3(1) e2(1) by blast
qed

theorem lsm_torn_tail_loses_write_witness:
  "\<exists>e1 d1 e2 en e3 d3.
    lsm_Open \<lparr>files = [(wal_path, take 3 (encode sample_record))], faults = []\<rparr> sample_opts = (Inr e1, d1) \<and>
    lsm_Put e1 5 ''a'' [7] ConsistencyStrong 0 = (None, e2) \<and> lsm_Get e2 5 ''a'' = Inr en \<and> Value en = [7] \<and>
    lsm_Open (edisk e2) sample_opts = (Inr e3, d3) \<and> lsm_Get e3 5 ''a'' = Inl ErrKeyNotFound"
  by (rule lsm_torn_tail_loses_write)
    (simp_all add: len_simps sample_record_def in_s64_def ConsistencyStrong_def sample_opts_def)

end
