(* ===== verification/Raft_Types.thy ===== *)
theory Raft_Types
  imports Framing
begin

text \<open>
  The data of package \<^verbatim>\<open>internal/raft\<close> (\<^verbatim>\<open>types.go\<close>, \<^verbatim>\<open>interfaces.go\<close>) and the codec of a
  persisted log entry (\<^verbatim>\<open>logentry_codec.go\<close>).  Terms and indices are the naturals below
  \<open>2 ^ 64\<close>; additions and subtractions on them wrap (\<open>u64\<close>, \<open>sub64\<close>).  The Go interfaces
  \<^verbatim>\<open>Storage\<close> and \<^verbatim>\<open>StateMachine\<close> are records of operations on an implementation's state, so that
  the node of the theory \<open>Raft_Node\<close> runs on any implementation.
\<close>

section \<open>types.go\<close>

datatype State = Follower | Candidate | Leader

definition State_String :: "State \<Rightarrow> string" where
  "State_String s = (case s of Follower \<Rightarrow> ''FOLLOWER'' | Candidate \<Rightarrow> ''CANDIDATE'' | Leader \<Rightarrow> ''LEADER'')"

record LogEntry =
  eTerm :: nat
  eIndex :: nat
  eCommand :: bytes

record RequestVoteArgs =
  rvTerm :: nat
  rvCandidateID :: string
  rvLastLogIndex :: nat
  rvLastLogTerm :: nat

record RequestVoteReply =
  vrTerm :: nat
  vrVoteGranted :: bool

record AppendEntriesArgs =
  aeTerm :: nat
  aeLeaderID :: string
  aePrevLogIndex :: nat
  aePrevLogTerm :: nat
  aeEntries :: "LogEntry list"
  aeLeaderCommit :: nat

record AppendEntriesReply =
  arTerm :: nat
  arSuccess :: bool
  arConflictIndex :: nat

record InstallSnapshotArgs =
  isTerm :: nat
  isLeaderID :: string
  isLastIncludedIndex :: nat
  isLastIncludedTerm :: nat
  isData :: bytes

record InstallSnapshotReply =
  irTerm :: nat

record raftOptions =
  MinElectionTimeout :: time
  MaxElectionTimeout :: time
  HeartbeatInterval :: time
  TickInterval :: time
  RPCTimeout :: time
  SnapshotThreshold :: int

definition ms :: "int \<Rightarrow> time" where
  "ms n = n * 1000000"

definition DefaultOptions :: raftOptions where
  "DefaultOptions = \<lparr>MinElectionTimeout = ms 300, MaxElectionTimeout = ms 600, HeartbeatInterval = ms 75,
     TickInterval = ms 10, RPCTimeout = ms 200, SnapshotThreshold = 1000\<rparr>"

record Status =
  sID :: string
  sState :: State
  sTerm :: nat
  sLeaderID :: string
  sCommitIndex :: nat
  sLastApplied :: nat
  sLastLogIndex :: nat

section \<open>interfaces.go\<close>

text \<open>An error is \<open>False\<close> for the operations that return only an error, \<open>None\<close> for the loads.\<close>

record 'st Storage =
  SaveTermAndVote :: "'st \<Rightarrow> nat \<Rightarrow> string \<Rightarrow> bool \<times> 'st"
  LoadTermAndVote :: "'st \<Rightarrow> (nat \<times> string) option"
  AppendEntries :: "'st \<Rightarrow> LogEntry list \<Rightarrow> bool \<times> 'st"
  TruncateFrom :: "'st \<Rightarrow> nat \<Rightarrow> bool \<times> 'st"
  LoadLog :: "'st \<Rightarrow> LogEntry list option"
  SaveSnapshot :: "'st \<Rightarrow> nat \<Rightarrow> nat \<Rightarrow> bytes \<Rightarrow> bool \<times> 'st"
  LoadSnapshot :: "'st \<Rightarrow> (nat \<times> nat \<times> bytes) option option"
  DiscardLogThrough :: "'st \<Rightarrow> nat \<Rightarrow> bool \<times> 'st"

record 'sm StateMachine =
  Apply :: "'sm \<Rightarrow> bytes \<Rightarrow> bool \<times> 'sm"
  Snapshot :: "'sm \<Rightarrow> bytes option"
  Restore :: "'sm \<Rightarrow> bytes \<Rightarrow> bool \<times> 'sm"

section \<open>64-bit indices and slices\<close>

definition sub64 :: "nat \<Rightarrow> nat \<Rightarrow> nat" where
  "sub64 a b = u64 (a + 2 ^ 64 - b)"

lemma sub64_le:
  assumes "b \<le> a" and "a < 2 ^ 64"
  shows "sub64 a b = a - b"
proof -
  have eq: "a + 2 ^ 64 - b = (a - b) + 2 ^ 64" using assms(1) by (rule Nat.diff_add_assoc2)
  have "a - b < 2 ^ 64" using assms(2) by (rule less_imp_diff_less)
  then show ?thesis unfolding sub64_def u64_def eq mod_add_self2 by (rule mod_less)
qed

text \<open>An index or slice expression out of range panics: \<open>None\<close>.\<close>

definition at :: "'a list \<Rightarrow> nat \<Rightarrow> 'a option" where
  "at xs i = (if i < length xs then Some (xs ! i) else None)"

definition slice_to :: "'a list \<Rightarrow> nat \<Rightarrow> 'a list option" where
  "slice_to xs i = (if i \<le> length xs then Some (take i xs) else None)"

definition slice_from :: "'a list \<Rightarrow> nat \<Rightarrow> 'a list option" where
  "slice_from xs i = (if i \<le> length xs then Some (drop i xs) else None)"

lemma at_Some [simp]: "i < length xs \<Longrightarrow> at xs i = Some (xs ! i)"
  by (simp add: at_def)

lemma slice_Some [simp]:
  "i \<le> length xs \<Longrightarrow> slice_to xs i = Some (take i xs)"
  "i \<le> length xs \<Longrightarrow> slice_from xs i = Some (drop i xs)"
  by (simp_all add: slice_to_def slice_from_def)

section \<open>logentry\_codec.go\<close>

definition encode_entry_payload :: "LogEntry \<Rightarrow> bytes" where
  "encode_entry_payload e =
     be_bytes 8 (eTerm e) @ be_bytes 8 (eIndex e) @ be_bytes 4 (length (eCommand e)) @ eCommand e"

definition encodeLogEntry :: "LogEntry \<Rightarrow> bytes" where
  "encodeLogEntry e = frame (encode_entry_payload e)"

definition decodeLogEntryPayload :: "bytes \<Rightarrow> decode_error + LogEntry" where
  "decodeLogEntryPayload b0 =
     (case ReadUint 8 b0 of Inl _ \<Rightarrow> Inl ErrCorrupt | Inr (tm, b1) \<Rightarrow>
     (case ReadUint 8 b1 of Inl _ \<Rightarrow> Inl ErrCorrupt | Inr (idx, b2) \<Rightarrow>
     (case ReadUint 4 b2 of Inl _ \<Rightarrow> Inl ErrCorrupt | Inr (cmdLen, b3) \<Rightarrow>
     (case ReadFull cmdLen b3 of Inl _ \<Rightarrow> Inl ErrCorrupt | Inr (cmd, _) \<Rightarrow>
        Inr \<lparr>eTerm = tm, eIndex = idx, eCommand = cmd\<rparr>))))"

text \<open>The reader that remains stands for the frame size: the frame is what was consumed.\<close>

definition decodeLogEntry :: "bytes \<Rightarrow> decode_error + (LogEntry \<times> bytes)" where
  "decodeLogEntry r =
     (case unframe r of
        Inl e \<Rightarrow> Inl e
      | Inr (payload, rest) \<Rightarrow>
         (case decodeLogEntryPayload payload of
            Inl e \<Rightarrow> Inl e
          | Inr entry \<Rightarrow> Inr (entry, rest)))"

definition entry_ok :: "LogEntry \<Rightarrow> bool" where
  "entry_ok e \<longleftrightarrow> eTerm e < 2 ^ 64 \<and> eIndex e < 2 ^ 64 \<and> length (eCommand e) + 20 < 2 ^ 32"

lemma length_entry_payload [len_simps]: "length (encode_entry_payload e) = 20 + length (eCommand e)"
  by (simp add: encode_entry_payload_def)

lemma length_encodeLogEntry [len_simps]: "length (encodeLogEntry e) = 28 + length (eCommand e)"
  by (simp add: encodeLogEntry_def len_simps)

lemma decodeLogEntryPayload_encode [codec_simps]:
  assumes "entry_ok e"
  shows "decodeLogEntryPayload (encode_entry_payload e) = Inr e"
  using assms by (simp add: decodeLogEntryPayload_def encode_entry_payload_def entry_ok_def)

lemma decodeLogEntry_encode:
  assumes "entry_ok e"
  shows "decodeLogEntry (encodeLogEntry e @ rest) = Inr (e, rest)"
proof -
  have "length (encode_entry_payload e) < 256 ^ 4" using assms by (simp add: len_simps entry_ok_def)
  with assms show ?thesis by (simp add: decodeLogEntry_def encodeLogEntry_def codec_simps)
qed

lemma decodeLogEntry_torn:
  assumes "entry_ok e" and "strict_prefix q (encodeLogEntry e)"
  shows "decodeLogEntry q = Inl (if q = [] then EOF else ErrUnexpectedEOF)"
proof -
  have "length (encode_entry_payload e) < 256 ^ 4" using assms by (simp add: len_simps entry_ok_def)
  with assms show ?thesis by (simp add: decodeLogEntry_def encodeLogEntry_def unframe_torn)
qed

end
