(* ===== verification/Raft_Node.thy ===== *)
theory Raft_Node
  imports Raft_Types
begin

text \<open>
  The Raft node (\<^verbatim>\<open>node.go\<close>, \<^verbatim>\<open>log.go\<close>, \<^verbatim>\<open>election.go\<close>, \<^verbatim>\<open>tick.go\<close>, \<^verbatim>\<open>replication.go\<close>,
  \<^verbatim>\<open>apply.go\<close>).  Every stretch of code that runs under \<^verbatim>\<open>n.mu\<close> is one function on the node's
  state; a method that releases the lock in between is split there (\<open>_request\<close> and \<open>_reply\<close>
  around an RPC, \<open>_begin\<close>, \<open>_restore\<close> and \<open>_finish\<close> of \<^verbatim>\<open>HandleInstallSnapshot\<close>).  The clock and
  the random number generator are arguments.  A result \<open>None\<close> is a Go run-time panic.
  Buffered channels of capacity one are booleans: a signal is pending or not.
\<close>

section \<open>node.go\<close>

datatype raft_error = ErrNotLeader | ErrStorage | ErrRestore

record ('st, 'sm) Node =
  nodeID :: string
  peers :: "string list"
  storage :: 'st
  stateMachine :: 'sm
  opts :: raftOptions
  currentTerm :: nat
  votedFor :: string
  log :: "LogEntry list"
  logBaseIndex :: nat
  logBaseTerm :: nat
  state :: State
  commitIndex :: nat
  lastApplied :: nat
  leaderID :: string
  nextIndex :: "(string \<times> nat) list"
  matchIndex :: "(string \<times> nat) list"
  electionResetAt :: time
  electionTimeout :: time
  lastHeartbeatSent :: "time option"
  applyNotify :: bool
  replicateCh :: "(string \<times> bool) list"
  proposeCh :: "(nat \<times> bytes) list"  \<comment> \<open>waiting proposals with their number\<close>
  votes :: nat  \<comment> \<open>the vote count shared by the goroutines of the current election\<close>

text \<open>Reading an absent key of a Go map gives zero.\<close>

definition map_get :: "(string \<times> nat) list \<Rightarrow> string \<Rightarrow> nat" where
  "map_get m k = (case map_of m k of None \<Rightarrow> 0 | Some v \<Rightarrow> v)"

definition NewNode ::
  "'st Storage \<Rightarrow> 'sm StateMachine \<Rightarrow> string \<Rightarrow> string list \<Rightarrow> 'st \<Rightarrow> 'sm \<Rightarrow> raftOptions \<Rightarrow>
   raft_error + ('st, 'sm) Node" where
  "NewNode S M i ps st sm op =
     (case LoadTermAndVote S st of
        None \<Rightarrow> Inl ErrStorage
      | Some (tm, vote) \<Rightarrow>
         (case LoadSnapshot S st of
            None \<Rightarrow> Inl ErrStorage
          | Some snap \<Rightarrow>
             (case (case snap of
                      None \<Rightarrow> (True, sm, 0, 0)
                    | Some (idx, stm, data) \<Rightarrow>
                        (case Restore M sm data of (ok, sm') \<Rightarrow> (ok, sm', idx, stm))) of
                (False, _) \<Rightarrow> Inl ErrRestore
              | (True, sm1, base, baseTerm) \<Rightarrow>
                 (case LoadLog S st of
                    None \<Rightarrow> Inl ErrStorage
                  | Some lg \<Rightarrow>
                      Inr \<lparr>nodeID = i, peers = ps, storage = st, stateMachine = sm1, opts = op,
                           currentTerm = tm, votedFor = vote, log = lg,
                           logBaseIndex = base, logBaseTerm = baseTerm, state = Follower,
                           commitIndex = base, lastApplied = base, leaderID = '''',
                           nextIndex = [], matchIndex = [], electionResetAt = 0, electionTimeout = 0,
                           lastHeartbeatSent = None, applyNotify = False,
                           replicateCh = map (\<lambda>p. (p, False)) ps, proposeCh = [], votes = 0\<rparr>))))"

definition IsLeader :: "('st, 'sm) Node \<Rightarrow> bool" where
  "IsLeader n \<longleftrightarrow> state n = Leader"

definition LeaderOf :: "('st, 'sm) Node \<Rightarrow> string \<times> bool" where
  "LeaderOf n = (leaderID n, leaderID n \<noteq> '''')"

definition majority :: "('st, 'sm) Node \<Rightarrow> nat" where
  "majority n = (length (peers n) + 1) div 2 + 1"

definition persistTermAndVoteLocked :: "'st Storage \<Rightarrow> ('st, 'sm) Node \<Rightarrow> ('st, 'sm) Node" where
  "persistTermAndVoteLocked S n =
     n\<lparr>storage := snd (SaveTermAndVote S (storage n) (currentTerm n) (votedFor n))\<rparr>"

definition becomeFollowerLocked :: "'st Storage \<Rightarrow> nat \<Rightarrow> ('st, 'sm) Node \<Rightarrow> ('st, 'sm) Node" where
  "becomeFollowerLocked S tm n0 =
     (let n = n0\<lparr>state := Follower, leaderID := ''''\<rparr>
      in if tm > currentTerm n
         then persistTermAndVoteLocked S (n\<lparr>currentTerm := tm, votedFor := ''''\<rparr>)
         else n)"

section \<open>log.go\<close>

definition lastLogIndexLocked :: "('st, 'sm) Node \<Rightarrow> nat" where
  "lastLogIndexLocked n = (if log n = [] then logBaseIndex n else eIndex (last (log n)))"

definition lastLogTermLocked :: "('st, 'sm) Node \<Rightarrow> nat" where
  "lastLogTermLocked n = (if log n = [] then logBaseTerm n else eTerm (last (log n)))"

definition NodeStatus :: "('st, 'sm) Node \<Rightarrow> Status" where
  "NodeStatus n = \<lparr>sID = nodeID n, sState = state n, sTerm = currentTerm n, sLeaderID = leaderID n,
     sCommitIndex = commitIndex n, sLastApplied = lastApplied n, sLastLogIndex = lastLogIndexLocked n\<rparr>"

definition termAtLocked :: "('st, 'sm) Node \<Rightarrow> nat \<Rightarrow> nat option" where
  "termAtLocked n index =
     (if index = 0 \<or> index > lastLogIndexLocked n then Some 0
      else if index = logBaseIndex n then Some (logBaseTerm n)
      else if index < logBaseIndex n then Some 0
      else map_option eTerm (at (log n) (sub64 (sub64 index (logBaseIndex n)) 1)))"

definition appendLogLocked :: "'st Storage \<Rightarrow> LogEntry list \<Rightarrow> ('st, 'sm) Node \<Rightarrow> ('st, 'sm) Node" where
  "appendLogLocked S es n =
     (if es = [] then n
      else n\<lparr>log := log n @ es, storage := snd (AppendEntries S (storage n) es)\<rparr>)"

definition truncateLogFromLocked :: "'st Storage \<Rightarrow> nat \<Rightarrow> ('st, 'sm) Node \<Rightarrow> ('st, 'sm) Node option" where
  "truncateLogFromLocked S index n =
     (if index \<le> logBaseIndex n \<or> index > lastLogIndexLocked n then Some n
      else case slice_to (log n) (sub64 (sub64 index (logBaseIndex n)) 1) of
             None \<Rightarrow> None
           | Some lg \<Rightarrow> Some (n\<lparr>log := lg, storage := snd (TruncateFrom S (storage n) index)\<rparr>))"

definition discardLogPrefixLocked ::
  "'st Storage \<Rightarrow> nat \<Rightarrow> nat \<Rightarrow> ('st, 'sm) Node \<Rightarrow> ('st, 'sm) Node" where
  "discardLogPrefixLocked S index0 tm n =
     (if index0 \<le> logBaseIndex n then n
      else
        let index = (if index0 > lastLogIndexLocked n then lastLogIndexLocked n else index0);
            drp = min (sub64 index (logBaseIndex n)) (length (log n))
        in n\<lparr>log := drop drp (log n), logBaseIndex := index, logBaseTerm := tm,
             storage := snd (DiscardLogThrough S (storage n) index)\<rparr>)"

section \<open>election.go\<close>

text \<open>\<^verbatim>\<open>rand.Int63n(k)\<close> is some number reduced modulo \<^verbatim>\<open>k\<close>.\<close>

definition randomDuration :: "time \<Rightarrow> time \<Rightarrow> int \<Rightarrow> time" where
  "randomDuration lo hi rnd = (if hi \<le> lo then lo else lo + rnd mod (hi - lo))"

definition resetElectionTimerLocked :: "time \<Rightarrow> int \<Rightarrow> ('st, 'sm) Node \<Rightarrow> ('st, 'sm) Node" where
  "resetElectionTimerLocked now rnd n =
     n\<lparr>electionResetAt := now,
       electionTimeout := randomDuration (MinElectionTimeout (opts n)) (MaxElectionTimeout (opts n)) rnd\<rparr>"

text \<open>The second component is what the goroutines send: one request per peer.\<close>

definition startElectionLocked ::
  "'st Storage \<Rightarrow> time \<Rightarrow> int \<Rightarrow> ('st, 'sm) Node \<Rightarrow> ('st, 'sm) Node \<times> (string \<times> RequestVoteArgs) list" where
  "startElectionLocked S now rnd n0 =
     (let n1 = n0\<lparr>state := Candidate, currentTerm := u64 (currentTerm n0 + 1), votedFor := nodeID n0\<rparr>;
          n2 = resetElectionTimerLocked now rnd (persistTermAndVoteLocked S n1);
          n = n2\<lparr>votes := 1\<rparr>;
          args = \<lparr>rvTerm = currentTerm n, rvCandidateID = nodeID n,
                  rvLastLogIndex = lastLogIndexLocked n, rvLastLogTerm = lastLogTermLocked n\<rparr>
      in (n, map (\<lambda>peer. (peer, args)) (peers n)))"

definition becomeLeaderLocked :: "('st, 'sm) Node \<Rightarrow> ('st, 'sm) Node" where
  "becomeLeaderLocked n =
     n\<lparr>state := Leader, leaderID := nodeID n,
       nextIndex := map (\<lambda>p. (p, u64 (lastLogIndexLocked n + 1))) (peers n),
       matchIndex := map (\<lambda>p. (p, 0)) (peers n),
       lastHeartbeatSent := None\<rparr>"

text \<open>What a goroutine of the election of term \<open>tm\<close> does with its reply.\<close>

definition startElection_reply ::
  "'st Storage \<Rightarrow> nat \<Rightarrow> RequestVoteReply \<Rightarrow> ('st, 'sm) Node \<Rightarrow> ('st, 'sm) Node" where
  "startElection_reply S tm reply n =
     (if vrTerm reply > currentTerm n then becomeFollowerLocked S (vrTerm reply) n
      else if state n \<noteq> Candidate \<or> currentTerm n \<noteq> tm then n
      else if vrVoteGranted reply
      then let n1 = n\<lparr>votes := votes n + 1\<rparr>
           in if votes n1 \<ge> majority n1 then becomeLeaderLocked n1 else n1
      else n)"

definition HandleRequestVote ::
  "'st Storage \<Rightarrow> time \<Rightarrow> int \<Rightarrow> RequestVoteArgs \<Rightarrow> ('st, 'sm) Node \<Rightarrow> RequestVoteReply \<times> ('st, 'sm) Node" where
  "HandleRequestVote S now rnd args n0 =
     (if rvTerm args < currentTerm n0
      then (\<lparr>vrTerm = currentTerm n0, vrVoteGranted = False\<rparr>, n0)
      else
        let n = (if rvTerm args > currentTerm n0 then becomeFollowerLocked S (rvTerm args) n0 else n0);
            canVote = (votedFor n = '''' \<or> votedFor n = rvCandidateID args);
            logOK = (rvLastLogTerm args > lastLogTermLocked n
                     \<or> rvLastLogTerm args = lastLogTermLocked n \<and> rvLastLogIndex args \<ge> lastLogIndexLocked n)
        in if canVote \<and> logOK
           then (\<lparr>vrTerm = currentTerm n, vrVoteGranted = True\<rparr>,
                 resetElectionTimerLocked now rnd
                   (persistTermAndVoteLocked S (n\<lparr>votedFor := rvCandidateID args\<rparr>)))
           else (\<lparr>vrTerm = currentTerm n, vrVoteGranted = False\<rparr>, n))"

section \<open>tick.go\<close>

definition triggerReplication :: "string \<Rightarrow> ('st, 'sm) Node \<Rightarrow> ('st, 'sm) Node" where
  "triggerReplication peer n = n\<lparr>replicateCh := AList.map_entry peer (\<lambda>_. True) (replicateCh n)\<rparr>"

text \<open>\<^verbatim>\<open>time.Since\<close> of the zero time is longer than any interval.\<close>

definition tick ::
  "'st Storage \<Rightarrow> time \<Rightarrow> int \<Rightarrow> ('st, 'sm) Node \<Rightarrow> ('st, 'sm) Node \<times> (string \<times> RequestVoteArgs) list" where
  "tick S now rnd n0 =
     (let electionDue = (state n0 \<noteq> Leader \<and> now - electionResetAt n0 \<ge> electionTimeout n0);
          heartbeatDue = (state n0 = Leader \<and>
            (case lastHeartbeatSent n0 of None \<Rightarrow> True | Some t \<Rightarrow> now - t \<ge> HeartbeatInterval (opts n0)));
          (n1, sent) = (if electionDue then startElectionLocked S now rnd n0 else (n0, []));
          n2 = (if heartbeatDue
                then fold triggerReplication (peers n1) (n1\<lparr>lastHeartbeatSent := Some now\<rparr>)
                else n1)
      in (n2, sent))"

definition Start :: "time \<Rightarrow> int \<Rightarrow> ('st, 'sm) Node \<Rightarrow> ('st, 'sm) Node" where
  "Start now rnd n = (resetElectionTimerLocked now rnd n)\<lparr>lastHeartbeatSent := Some now\<rparr>"

section \<open>replication.go\<close>

definition signalApply :: "('st, 'sm) Node \<Rightarrow> ('st, 'sm) Node" where
  "signalApply n = n\<lparr>applyNotify := True\<rparr>"

text \<open>The first index of the run of entries with the conflicting term.\<close>

fun conflict_index :: "('st, 'sm) Node \<Rightarrow> nat \<Rightarrow> nat \<Rightarrow> nat option" where
  "conflict_index n conflictTerm 0 = Some 0"
| "conflict_index n conflictTerm (Suc i) =
     (if Suc i > 1
      then case termAtLocked n i of
             None \<Rightarrow> None
           | Some t \<Rightarrow> if t = conflictTerm then conflict_index n conflictTerm i else Some (Suc i)
      else Some (Suc i))"

text \<open>The loop over \<^verbatim>\<open>args.Entries\<close>, from position \<open>i\<close>.\<close>

fun append_entries ::
  "'st Storage \<Rightarrow> nat \<Rightarrow> nat \<Rightarrow> LogEntry list \<Rightarrow> ('st, 'sm) Node \<Rightarrow> ('st, 'sm) Node option" where
  "append_entries S prev i [] n = Some n"
| "append_entries S prev i (e # es) n =
     (let idx = u64 (prev + 1 + i)
      in if idx \<le> lastLogIndexLocked n
         then case termAtLocked n idx of
                None \<Rightarrow> None
              | Some t \<Rightarrow>
                  if t = eTerm e then append_entries S prev (i + 1) es n
                  else (case truncateLogFromLocked S idx n of
                          None \<Rightarrow> None
                        | Some n1 \<Rightarrow> Some (appendLogLocked S (e # es) n1))
         else Some (appendLogLocked S (e # es) n))"

text \<open>
  The consistency check on \<^verbatim>\<open>PrevLogIndex\<close>: \<open>Some None\<close> accepts, \<open>Some (Some c)\<close> rejects with
  \<^verbatim>\<open>ConflictIndex\<close> \<open>c\<close>.
\<close>

definition check_prev :: "AppendEntriesArgs \<Rightarrow> ('st, 'sm) Node \<Rightarrow> nat option option" where
  "check_prev args n =
     (let prev = aePrevLogIndex args
      in if prev > 0
         then if prev < logBaseIndex n then Some (Some (u64 (logBaseIndex n + 1)))
              else if prev > lastLogIndexLocked n then Some (Some (u64 (lastLogIndexLocked n + 1)))
              else case termAtLocked n prev of
                     None \<Rightarrow> None
                   | Some got \<Rightarrow>
                       if got \<noteq> aePrevLogTerm args then map_option Some (conflict_index n got prev)
                       else Some None
         else Some None)"

definition HandleAppendEntries ::
  "'st Storage \<Rightarrow> time \<Rightarrow> int \<Rightarrow> AppendEntriesArgs \<Rightarrow> ('st, 'sm) Node \<Rightarrow>
   (AppendEntriesReply \<times> ('st, 'sm) Node) option" where
  "HandleAppendEntries S now rnd args n0 =
     (if aeTerm args < currentTerm n0
      then Some (\<lparr>arTerm = currentTerm n0, arSuccess = False, arConflictIndex = 0\<rparr>, n0)
      else
        let n1 = (if aeTerm args > currentTerm n0 then becomeFollowerLocked S (aeTerm args) n0
                  else if state n0 = Candidate then becomeFollowerLocked S (aeTerm args) n0
                  else n0);
            n = resetElectionTimerLocked now rnd (n1\<lparr>state := Follower, leaderID := aeLeaderID args\<rparr>)
        in case check_prev args n of
             None \<Rightarrow> None
           | Some (Some c) \<Rightarrow>
               Some (\<lparr>arTerm = currentTerm n, arSuccess = False, arConflictIndex = c\<rparr>, n)
           | Some None \<Rightarrow>
              (case append_entries S (aePrevLogIndex args) 0 (aeEntries args) n of
                 None \<Rightarrow> None
               | Some n2 \<Rightarrow>
                   Some (\<lparr>arTerm = currentTerm n2, arSuccess = True, arConflictIndex = 0\<rparr>,
                         if aeLeaderCommit args > commitIndex n2
                         then signalApply (n2\<lparr>commitIndex := min (aeLeaderCommit args) (lastLogIndexLocked n2)\<rparr>)
                         else n2)))"

definition maxReplicationBatchSize :: nat where
  "maxReplicationBatchSize = 64"

datatype send = SendNothing | SendSnapshot nat | SendAppend AppendEntriesArgs

definition sendAppendEntriesTo_request :: "string \<Rightarrow> ('st, 'sm) Node \<Rightarrow> send option" where
  "sendAppendEntriesTo_request peer n =
     (if state n \<noteq> Leader then Some SendNothing
      else
        let next0 = map_get (nextIndex n) peer;
            nextIdx = (if next0 = 0 then 1 else next0)
        in if nextIdx \<le> logBaseIndex n then Some (SendSnapshot (currentTerm n))
           else case termAtLocked n (sub64 nextIdx 1) of
                  None \<Rightarrow> None
                | Some prevLogTerm \<Rightarrow>
                   (case (if nextIdx \<le> lastLogIndexLocked n
                          then map_option (take maxReplicationBatchSize)
                                 (slice_from (log n) (sub64 (sub64 nextIdx (logBaseIndex n)) 1))
                          else Some []) of
                      None \<Rightarrow> None
                    | Some es \<Rightarrow>
                        Some (SendAppend \<lparr>aeTerm = currentTerm n, aeLeaderID = nodeID n,
                          aePrevLogIndex = sub64 nextIdx 1, aePrevLogTerm = prevLogTerm,
                          aeEntries = es, aeLeaderCommit = commitIndex n\<rparr>)))"

definition replica_count :: "('st, 'sm) Node \<Rightarrow> nat \<Rightarrow> nat" where
  "replica_count n idx = 1 + length (filter (\<lambda>p. map_get (matchIndex n) p \<ge> idx) (peers n))"

function advance_commit :: "nat \<Rightarrow> ('st, 'sm) Node \<Rightarrow> ('st, 'sm) Node option" where
  "advance_commit idx n =
     (if idx > commitIndex n
      then case termAtLocked n idx of
             None \<Rightarrow> None
           | Some t \<Rightarrow>
               if t \<noteq> currentTerm n then advance_commit (idx - 1) n
               else if replica_count n idx \<ge> majority n
               then Some (signalApply (n\<lparr>commitIndex := idx\<rparr>))
               else advance_commit (idx - 1) n
      else Some n)"
  by pat_completeness auto
termination
  by (relation "measure fst") auto

declare advance_commit.simps [simp del]

definition maybeAdvanceCommitIndexLocked :: "('st, 'sm) Node \<Rightarrow> ('st, 'sm) Node option" where
  "maybeAdvanceCommitIndexLocked n =
     (if state n \<noteq> Leader then Some n else advance_commit (lastLogIndexLocked n) n)"

text \<open>\<open>tm\<close>, \<open>prev\<close> and \<open>cnt\<close> are the sender's local variables: term, previous index, entries sent.\<close>

definition sendAppendEntriesTo_reply ::
  "'st Storage \<Rightarrow> string \<Rightarrow> nat \<Rightarrow> nat \<Rightarrow> nat \<Rightarrow> AppendEntriesReply \<Rightarrow> ('st, 'sm) Node \<Rightarrow> ('st, 'sm) Node option" where
  "sendAppendEntriesTo_reply S peer tm prev cnt reply n =
     (if arTerm reply > currentTerm n then Some (becomeFollowerLocked S (arTerm reply) n)
      else if state n \<noteq> Leader \<or> currentTerm n \<noteq> tm then Some n
      else if arSuccess reply
      then let newMatch = u64 (prev + cnt);
               n1 = (if newMatch > map_get (matchIndex n) peer
                     then n\<lparr>matchIndex := AList.update peer newMatch (matchIndex n)\<rparr> else n)
           in maybeAdvanceCommitIndexLocked
                (n1\<lparr>nextIndex := AList.update peer (u64 (newMatch + 1)) (nextIndex n1)\<rparr>)
      else if arConflictIndex reply > 0
      then Some (n\<lparr>nextIndex := AList.update peer (arConflictIndex reply) (nextIndex n)\<rparr>)
      else if map_get (nextIndex n) peer > 1
      then Some (n\<lparr>nextIndex := AList.update peer (map_get (nextIndex n) peer - 1) (nextIndex n)\<rparr>)
      else Some n)"

definition sendInstallSnapshotTo_request ::
  "'st Storage \<Rightarrow> nat \<Rightarrow> ('st, 'sm) Node \<Rightarrow> InstallSnapshotArgs option" where
  "sendInstallSnapshotTo_request S tm n =
     (case LoadSnapshot S (storage n) of
        Some (Some (idx, stm, data)) \<Rightarrow>
          Some \<lparr>isTerm = tm, isLeaderID = nodeID n, isLastIncludedIndex = idx,
                isLastIncludedTerm = stm, isData = data\<rparr>
      | _ \<Rightarrow> None)"

definition sendInstallSnapshotTo_reply ::
  "'st Storage \<Rightarrow> string \<Rightarrow> nat \<Rightarrow> nat \<Rightarrow> InstallSnapshotReply \<Rightarrow> ('st, 'sm) Node \<Rightarrow> ('st, 'sm) Node option" where
  "sendInstallSnapshotTo_reply S peer tm idx reply n =
     (if irTerm reply > currentTerm n then Some (becomeFollowerLocked S (irTerm reply) n)
      else if state n \<noteq> Leader \<or> currentTerm n \<noteq> tm then Some n
      else
        let n1 = (if u64 (idx + 1) > map_get (nextIndex n) peer
                  then n\<lparr>nextIndex := AList.update peer (u64 (idx + 1)) (nextIndex n)\<rparr> else n);
            n2 = (if idx > map_get (matchIndex n1) peer
                  then n1\<lparr>matchIndex := AList.update peer idx (matchIndex n1)\<rparr> else n1)
        in maybeAdvanceCommitIndexLocked n2)"

text \<open>\<open>Inl\<close> replies at once; \<open>Inr\<close> goes on with the term to answer if persisting fails.\<close>

definition HandleInstallSnapshot_begin ::
  "'st Storage \<Rightarrow> time \<Rightarrow> int \<Rightarrow> InstallSnapshotArgs \<Rightarrow> ('st, 'sm) Node \<Rightarrow>
   (InstallSnapshotReply + nat) \<times> ('st, 'sm) Node" where
  "HandleInstallSnapshot_begin S now rnd args n0 =
     (if isTerm args < currentTerm n0 then (Inl \<lparr>irTerm = currentTerm n0\<rparr>, n0)
      else
        let n1 = (if isTerm args > currentTerm n0 then becomeFollowerLocked S (isTerm args) n0 else n0);
            n = resetElectionTimerLocked now rnd (n1\<lparr>state := Follower, leaderID := isLeaderID args\<rparr>)
        in if isLastIncludedIndex args \<le> logBaseIndex n then (Inl \<lparr>irTerm = currentTerm n\<rparr>, n)
           else (Inr (currentTerm n), n))"

definition HandleInstallSnapshot_restore ::
  "'st Storage \<Rightarrow> 'sm StateMachine \<Rightarrow> InstallSnapshotArgs \<Rightarrow> ('st, 'sm) Node \<Rightarrow> bool \<times> ('st, 'sm) Node" where
  "HandleInstallSnapshot_restore S M args n =
     (case SaveSnapshot S (storage n) (isLastIncludedIndex args) (isLastIncludedTerm args) (isData args) of
        (False, st) \<Rightarrow> (False, n\<lparr>storage := st\<rparr>)
      | (True, st) \<Rightarrow>
         (case Restore M (stateMachine n) (isData args) of
            (ok, sm) \<Rightarrow> (ok, n\<lparr>storage := st, stateMachine := sm\<rparr>)))"

definition HandleInstallSnapshot_finish ::
  "'st Storage \<Rightarrow> InstallSnapshotArgs \<Rightarrow> ('st, 'sm) Node \<Rightarrow> InstallSnapshotReply \<times> ('st, 'sm) Node" where
  "HandleInstallSnapshot_finish S args n =
     (if isLastIncludedIndex args \<le> logBaseIndex n then (\<lparr>irTerm = currentTerm n\<rparr>, n)
      else
        let base = isLastIncludedIndex args
        in (\<lparr>irTerm = currentTerm n\<rparr>,
            n\<lparr>log := [], storage := snd (DiscardLogThrough S (storage n) base),
              logBaseIndex := base, logBaseTerm := isLastIncludedTerm args,
              commitIndex := max (commitIndex n) base, lastApplied := max (lastApplied n) base\<rparr>))"

text \<open>The whole call, when nothing else runs while the lock is released.\<close>

definition HandleInstallSnapshot ::
  "'st Storage \<Rightarrow> 'sm StateMachine \<Rightarrow> time \<Rightarrow> int \<Rightarrow> InstallSnapshotArgs \<Rightarrow> ('st, 'sm) Node \<Rightarrow>
   InstallSnapshotReply \<times> ('st, 'sm) Node" where
  "HandleInstallSnapshot S M now rnd args n0 =
     (case HandleInstallSnapshot_begin S now rnd args n0 of
        (Inl reply, n) \<Rightarrow> (reply, n)
      | (Inr tm, n) \<Rightarrow>
         (case HandleInstallSnapshot_restore S M args n of
            (False, n1) \<Rightarrow> (\<lparr>irTerm = tm\<rparr>, n1)
          | (True, n1) \<Rightarrow> HandleInstallSnapshot_finish S args n1))"

section \<open>apply.go\<close>

definition maxAppendBatchSize :: nat where
  "maxAppendBatchSize = 64"

text \<open>The part of \<^verbatim>\<open>Propose\<close> before it waits for its result.\<close>

definition Propose_enqueue :: "nat \<Rightarrow> bytes \<Rightarrow> ('st, 'sm) Node \<Rightarrow> raft_error + ('st, 'sm) Node" where
  "Propose_enqueue req command n =
     (if \<not> IsLeader n then Inl ErrNotLeader else Inr (n\<lparr>proposeCh := proposeCh n @ [(req, command)]\<rparr>))"

definition appendBatch ::
  "'st Storage \<Rightarrow> (nat \<times> bytes) list \<Rightarrow> ('st, 'sm) Node \<Rightarrow>
   (nat \<times> (raft_error + LogEntry)) list \<times> ('st, 'sm) Node" where
  "appendBatch S batch n =
     (if state n \<noteq> Leader then (map (\<lambda>(req, _). (req, Inl ErrNotLeader)) batch, n)
      else
        let next = u64 (lastLogIndexLocked n + 1);
            es = map (\<lambda>(i, req, command). \<lparr>eTerm = currentTerm n, eIndex = u64 (next + i), eCommand = command\<rparr>)
                   (zip [0..<length batch] batch)
        in (map2 (\<lambda>(req, _) e. (req, Inr e)) batch es, appendLogLocked S es n))"

text \<open>One round of \<^verbatim>\<open>appendLoop\<close>: it drains what is queued, at most a full batch.\<close>

definition appendLoop_round ::
  "'st Storage \<Rightarrow> ('st, 'sm) Node \<Rightarrow> (nat \<times> (raft_error + LogEntry)) list \<times> ('st, 'sm) Node" where
  "appendLoop_round S n =
     appendBatch S (take maxAppendBatchSize (proposeCh n))
       (n\<lparr>proposeCh := drop maxAppendBatchSize (proposeCh n)\<rparr>)"

definition Propose_replicate :: "('st, 'sm) Node \<Rightarrow> ('st, 'sm) Node" where
  "Propose_replicate n = fold triggerReplication (peers n) n"

datatype wait_result = WaitDone | WaitFailed raft_error | WaitMore

text \<open>One turn of the loop of \<^verbatim>\<open>waitForApply\<close>.\<close>

definition waitForApply_poll :: "nat \<Rightarrow> nat \<Rightarrow> ('st, 'sm) Node \<Rightarrow> wait_result option" where
  "waitForApply_poll index proposedTerm n =
     (case (if index \<le> lastLogIndexLocked n then map_option (\<lambda>t. t \<noteq> proposedTerm) (termAtLocked n index)
            else Some False) of
        None \<Rightarrow> None
      | Some overwritten \<Rightarrow>
          Some (if overwritten then WaitFailed ErrNotLeader
                else if lastApplied n \<ge> index then WaitDone
                else if state n \<noteq> Leader then WaitFailed ErrNotLeader
                else WaitMore))"

text \<open>The locked part of one turn of \<^verbatim>\<open>applyPending\<close>: \<open>Some (None, n)\<close> leaves the loop.\<close>

definition applyPending_next :: "('st, 'sm) Node \<Rightarrow> (LogEntry option \<times> ('st, 'sm) Node) option" where
  "applyPending_next n =
     (if lastApplied n \<ge> commitIndex n then Some (None, n)
      else
        let n1 = n\<lparr>lastApplied := u64 (lastApplied n + 1)\<rparr>
        in case at (log n1) (sub64 (sub64 (lastApplied n1) (logBaseIndex n1)) 1) of
             None \<Rightarrow> None
           | Some e \<Rightarrow> Some (Some e, n1))"

definition apply_entry :: "'sm StateMachine \<Rightarrow> LogEntry \<Rightarrow> ('st, 'sm) Node \<Rightarrow> ('st, 'sm) Node" where
  "apply_entry M e n = n\<lparr>stateMachine := snd (Apply M (stateMachine n) (eCommand e))\<rparr>"

function apply_all :: "'sm StateMachine \<Rightarrow> ('st, 'sm) Node \<Rightarrow> ('st, 'sm) Node option" where
  "apply_all M n =
     (if lastApplied n < commitIndex n \<and> commitIndex n < 2 ^ 64
      then case applyPending_next n of
             Some (Some e, n1) \<Rightarrow> apply_all M (apply_entry M e n1)
           | _ \<Rightarrow> None
      else Some n)"
  by pat_completeness auto
termination
  by (relation "measure (\<lambda>(M, n). commitIndex n - lastApplied n)")
    (auto simp: applyPending_next_def apply_entry_def Let_def u64_def split: if_splits option.splits)

declare apply_all.simps [simp del]

definition maybeSnapshot :: "'st Storage \<Rightarrow> 'sm StateMachine \<Rightarrow> ('st, 'sm) Node \<Rightarrow> ('st, 'sm) Node option" where
  "maybeSnapshot S M n =
     (if SnapshotThreshold (opts n) \<le> 0 then Some n
      else if lastApplied n \<le> logBaseIndex n
              \<or> int (lastApplied n - logBaseIndex n) < SnapshotThreshold (opts n) then Some n
      else case termAtLocked n (lastApplied n) of
             None \<Rightarrow> None
           | Some tm \<Rightarrow>
              (case Snapshot M (stateMachine n) of
                 None \<Rightarrow> Some n
               | Some data \<Rightarrow>
                  (case SaveSnapshot S (storage n) (lastApplied n) tm data of
                     (False, st) \<Rightarrow> Some (n\<lparr>storage := st\<rparr>)
                   | (True, st) \<Rightarrow>
                       Some (discardLogPrefixLocked S (lastApplied n) tm (n\<lparr>storage := st\<rparr>)))))"

text \<open>\<^verbatim>\<open>applyPending\<close> when nothing else runs while the lock is released.\<close>

definition applyPending :: "'st Storage \<Rightarrow> 'sm StateMachine \<Rightarrow> ('st, 'sm) Node \<Rightarrow> ('st, 'sm) Node option" where
  "applyPending S M n =
     (case apply_all M (n\<lparr>applyNotify := False\<rparr>) of None \<Rightarrow> None | Some n1 \<Rightarrow> maybeSnapshot S M n1)"

end
