(* ===== verification/Raft_Log.thy ===== *)
theory Raft_Log
  imports Raft_Node
begin

text \<open>
  The log of a single node: the representation invariant behind \<^verbatim>\<open>log.go\<close> (\<open>log_ok\<close>: the entry at
  position \<open>i\<close> has index \<open>logBaseIndex + i + 1\<close>), what the helpers compute under it, and the
  behaviour of the handlers that read or change the log.
\<close>

section \<open>The representation invariant\<close>

definition log_ok :: "('st, 'sm) Node \<Rightarrow> bool" where
  "log_ok n \<longleftrightarrow> (\<forall>i < length (log n). eIndex (log n ! i) = logBaseIndex n + i + 1)
     \<and> logBaseIndex n + length (log n) + 1 < 2 ^ 64"

definition commit_ok :: "('st, 'sm) Node \<Rightarrow> bool" where
  "commit_ok n \<longleftrightarrow> logBaseIndex n \<le> lastApplied n \<and> lastApplied n \<le> commitIndex n
     \<and> commitIndex n \<le> logBaseIndex n + length (log n)"

named_theorems log_simps \<open>the log helpers under the representation invariant\<close>

lemma lastLogIndex_ok [log_simps]:
  "log_ok n \<Longrightarrow> lastLogIndexLocked n = logBaseIndex n + length (log n)"
  by (auto simp: lastLogIndexLocked_def log_ok_def last_conv_nth)

lemma u64_small: "x < 2 ^ 64 \<Longrightarrow> u64 x = x"
  by (simp add: u64_def)

lemma sub64_position:
  assumes "log_ok n" and "logBaseIndex n < idx" and "idx \<le> logBaseIndex n + length (log n)"
  shows "sub64 (sub64 idx (logBaseIndex n)) (Suc 0) = idx - Suc (logBaseIndex n)"
proof -
  have "idx < 2 ^ 64" using assms by (simp add: log_ok_def)
  then have "sub64 idx (logBaseIndex n) = idx - logBaseIndex n" using assms(2) by (intro sub64_le) simp_all
  moreover have "sub64 (idx - logBaseIndex n) 1 = idx - logBaseIndex n - 1"
    using assms(2) \<open>idx < 2 ^ 64\<close> by (intro sub64_le) simp_all
  ultimately show ?thesis by simp
qed

text \<open>The term of an index as the abstract log has it.\<close>

definition log_term :: "('st, 'sm) Node \<Rightarrow> nat \<Rightarrow> nat" where
  "log_term n idx =
     (if idx = 0 \<or> idx < logBaseIndex n \<or> logBaseIndex n + length (log n) < idx then 0
      else if idx = logBaseIndex n then logBaseTerm n
      else eTerm (log n ! (idx - logBaseIndex n - 1)))"

lemma termAt_ok [log_simps]: "log_ok n \<Longrightarrow> termAtLocked n idx = Some (log_term n idx)"
proof (cases "logBaseIndex n < idx \<and> idx \<le> logBaseIndex n + length (log n)")
  case True
  assume ok: "log_ok n"
  from True have "idx - logBaseIndex n - 1 < length (log n)" by linarith
  with True ok show ?thesis
    by (auto simp: termAtLocked_def log_term_def lastLogIndex_ok sub64_position)
next
  case False
  assume ok: "log_ok n"
  with False show ?thesis by (auto simp: termAtLocked_def log_term_def lastLogIndex_ok)
qed

lemma truncate_ok [log_simps]:
  assumes "log_ok n"
  shows "truncateLogFromLocked S idx n = Some
    (if idx \<le> logBaseIndex n \<or> logBaseIndex n + length (log n) < idx then n
     else n\<lparr>log := take (idx - logBaseIndex n - 1) (log n), storage := snd (TruncateFrom S (storage n) idx)\<rparr>)"
proof (cases "idx \<le> logBaseIndex n \<or> logBaseIndex n + length (log n) < idx")
  case True
  then show ?thesis using assms by (simp add: truncateLogFromLocked_def lastLogIndex_ok)
next
  case False
  then have "idx - logBaseIndex n - 1 \<le> length (log n)" by linarith
  with False assms show ?thesis
    by (simp add: truncateLogFromLocked_def lastLogIndex_ok sub64_position)
qed

lemma log_ok_upd:
  assumes "log_ok n" and "logBaseIndex n' = logBaseIndex n" and "log n' = take k (log n)"
  shows "log_ok n'"
  using assms by (auto simp: log_ok_def)

lemma log_ok_same: "log_ok n \<Longrightarrow> logBaseIndex n' = logBaseIndex n \<Longrightarrow> log n' = log n \<Longrightarrow> log_ok n'"
  by (auto simp: log_ok_def)

text \<open>Entries with consecutive indices.\<close>

definition from_index :: "nat \<Rightarrow> LogEntry list \<Rightarrow> bool" where
  "from_index start es \<longleftrightarrow> (\<forall>i < length es. eIndex (es ! i) = start + i)"

lemma from_index_Cons: "from_index s (e # es) \<longleftrightarrow> eIndex e = s \<and> from_index (Suc s) es"
  by (auto simp: from_index_def nth_Cons split: nat.splits)

lemma log_ok_append:
  assumes "log_ok n" and "from_index (logBaseIndex n + length (log n) + 1) es"
    and "logBaseIndex n + length (log n) + length es + 1 < 2 ^ 64"
  shows "log_ok (appendLogLocked S es n)"
  using assms by (auto simp: log_ok_def appendLogLocked_def from_index_def nth_append)

section \<open>HandleAppendEntries\<close>

text \<open>What the entries loop does to the log as a list, from position \<open>p\<close>.\<close>

fun merge_at :: "nat \<Rightarrow> LogEntry list \<Rightarrow> LogEntry list \<Rightarrow> LogEntry list" where
  "merge_at p [] lg = lg"
| "merge_at p (e # es) lg =
     (if p < length lg
      then if eTerm (lg ! p) = eTerm e then merge_at (Suc p) es lg else take p lg @ e # es
      else lg @ e # es)"

lemma merge_at_length: "p \<le> length lg \<Longrightarrow> p + length es \<le> length (merge_at p es lg)"
  by (induction p es lg rule: merge_at.induct) auto

lemma merge_at_take: "p \<le> length lg \<Longrightarrow> take p (merge_at p es lg) = take p lg"
proof (induction p es lg rule: merge_at.induct)
  case (2 p e es lg)
  show ?case
  proof (cases "p < length lg \<and> eTerm (lg ! p) = eTerm e")
    case True
    then have "take (Suc p) (merge_at (Suc p) es lg) = take (Suc p) lg" using 2 by simp
    then have "take p (take (Suc p) (merge_at (Suc p) es lg)) = take p (take (Suc p) lg)" by simp
    with True show ?thesis by (simp add: min_def)
  next
    case False
    with 2(2) show ?thesis by auto
  qed
qed simp

lemma merge_at_terms:
  "p \<le> length lg \<Longrightarrow> j < length es \<Longrightarrow> eTerm (merge_at p es lg ! (p + j)) = eTerm (es ! j)"
proof (induction p es lg arbitrary: j rule: merge_at.induct)
  case (2 p e es lg)
  show ?case
  proof (cases "p < length lg \<and> eTerm (lg ! p) = eTerm e")
    case True
    show ?thesis
    proof (cases j)
      case 0
      have "take (Suc p) (merge_at (Suc p) es lg) = take (Suc p) lg" using True by (intro merge_at_take) simp
      then have "merge_at (Suc p) es lg ! p = lg ! p" by (metis lessI nth_take)
      with True 0 show ?thesis by simp
    next
      case (Suc k)
      with 2 True show ?thesis by auto
    qed
  next
    case False
    with 2(2,3) show ?thesis by (auto simp: nth_append nth_Cons split: nat.splits)
  qed
qed simp

lemma merge_at_from_index:
  "from_index s lg \<Longrightarrow> from_index (s + p) es \<Longrightarrow> p \<le> length lg \<Longrightarrow> from_index s (merge_at p es lg)"
proof (induction p es lg rule: merge_at.induct)
  case (2 p e es lg)
  then have "from_index (s + Suc p) es" by (simp add: from_index_Cons)
  show ?case
  proof (cases "p < length lg \<and> eTerm (lg ! p) = eTerm e")
    case True
    then show ?thesis using 2 by (simp add: from_index_Cons)
  next
    case False
    have "from_index s (take p lg @ e # es)"
      using 2(2,3,4) by (auto simp: from_index_def nth_append min_def nth_Cons split: nat.splits)
    with False 2(4) show ?thesis by auto
  qed
qed simp

lemma merge_at_bound: "p \<le> length lg \<Longrightarrow> length (merge_at p es lg) \<le> max (length lg) (p + length es)"
  by (induction p es lg rule: merge_at.induct) auto

lemma merge_at_same:
  "p + length es \<le> length lg \<Longrightarrow> (\<forall>j < length es. eTerm (lg ! (p + j)) = eTerm (es ! j)) \<Longrightarrow> merge_at p es lg = lg"
proof (induction p es lg rule: merge_at.induct)
  case (2 p e es lg)
  have "eTerm (lg ! p) = eTerm e" using 2(3) by (metis add_0_right length_Cons nth_Cons_0 zero_less_Suc)
  moreover have "\<forall>j < length es. eTerm (lg ! (Suc p + j)) = eTerm (es ! j)" using 2(3) by force
  ultimately show ?case using 2 by auto
qed simp

lemma log_ok_from_index:
  "log_ok n \<longleftrightarrow> from_index (logBaseIndex n + 1) (log n) \<and> logBaseIndex n + length (log n) + 1 < 2 ^ 64"
  by (auto simp: log_ok_def from_index_def)

lemma append_entries_ok:
  assumes "log_ok n" and "logBaseIndex n \<le> prev" and "prev + i \<le> logBaseIndex n + length (log n)"
    and "prev + i + length es + 1 < 2 ^ 64"
  shows "\<exists>st. append_entries S prev i es n =
    Some (n\<lparr>log := merge_at (prev + i - logBaseIndex n) es (log n), storage := st\<rparr>)"
  using assms
proof (induction es arbitrary: i)
  case Nil
  have "n\<lparr>log := log n, storage := storage n\<rparr> = n" by simp
  then show ?case by (metis append_entries.simps(1) merge_at.simps(1))
next
  case (Cons e es)
  let ?idx = "prev + 1 + i"
  let ?p = "prev + i - logBaseIndex n"
  have idx: "u64 ?idx = ?idx" using Cons.prems by (intro u64_small) simp
  have p: "?idx - logBaseIndex n - 1 = ?p" "?idx - Suc (logBaseIndex n) = ?p" by simp_all
  show ?case
  proof (cases "?idx \<le> logBaseIndex n + length (log n)")
    case True
    then have pl: "?p < length (log n)" using Cons.prems(2) by linarith
    have t: "log_term n ?idx = eTerm (log n ! ?p)" using True Cons.prems(2) by (simp add: log_term_def)
    show ?thesis
    proof (cases "eTerm (log n ! ?p) = eTerm e")
      case eq: True
      have "Suc ?p = prev + Suc i - logBaseIndex n" using Cons.prems(2) by linarith
      then show ?thesis
        using Cons.IH [of "Suc i"] Cons.prems True idx t eq pl
        by (simp add: lastLogIndex_ok termAt_ok Let_def)
    next
      case False
      then show ?thesis using Cons.prems True idx t pl p
        by (auto simp: lastLogIndex_ok termAt_ok truncate_ok Let_def appendLogLocked_def)
    qed
  next
    case False
    then have "\<not> ?p < length (log n)" using Cons.prems(2) by linarith
    with False show ?thesis using Cons.prems idx
      by (auto simp: lastLogIndex_ok Let_def appendLogLocked_def)
  qed
qed

lemma conflict_index_ok:
  assumes "log_ok n" and "0 < idx" and "log_term n idx = t"
  shows "\<exists>c. conflict_index n t idx = Some c \<and> 0 < c \<and> c \<le> idx \<and>
    (\<forall>i. c \<le> i \<longrightarrow> i \<le> idx \<longrightarrow> log_term n i = t)"
  using assms(2,3)
proof (induction idx)
  case (Suc i)
  show ?case
  proof (cases "0 < i \<and> log_term n i = t")
    case True
    then obtain c where c: "conflict_index n t i = Some c" "0 < c" "c \<le> i"
      "\<forall>k. c \<le> k \<longrightarrow> k \<le> i \<longrightarrow> log_term n k = t" using Suc.IH by blast
    have "\<forall>k. c \<le> k \<longrightarrow> k \<le> Suc i \<longrightarrow> log_term n k = t" using c(4) Suc.prems(2) le_Suc_eq by auto
    with True c assms(1) show ?thesis by (auto simp: termAt_ok)
  next
    case False
    then have "conflict_index n t (Suc i) = Some (Suc i)" using assms(1) by (auto simp: termAt_ok)
    moreover have "\<forall>k. Suc i \<le> k \<longrightarrow> k \<le> Suc i \<longrightarrow> log_term n k = t" using Suc.prems(2) le_antisym by blast
    ultimately show ?thesis by blast
  qed
qed simp

text \<open>The consistency check as a predicate.\<close>

definition prev_ok :: "AppendEntriesArgs \<Rightarrow> ('st, 'sm) Node \<Rightarrow> bool" where
  "prev_ok args n \<longleftrightarrow> aePrevLogIndex args = 0 \<or>
     logBaseIndex n \<le> aePrevLogIndex args \<and> aePrevLogIndex args \<le> logBaseIndex n + length (log n)
     \<and> log_term n (aePrevLogIndex args) = aePrevLogTerm args"

definition args_ok :: "AppendEntriesArgs \<Rightarrow> ('st, 'sm) Node \<Rightarrow> bool" where
  "args_ok args n \<longleftrightarrow> from_index (aePrevLogIndex args + 1) (aeEntries args)
     \<and> aePrevLogIndex args + length (aeEntries args) + 1 < 2 ^ 64
     \<and> (aePrevLogIndex args = 0 \<longrightarrow> logBaseIndex n = 0)"

lemma check_prev_ok:
  assumes "log_ok n"
  shows "if prev_ok args n then check_prev args n = Some None
    else \<exists>c. check_prev args n = Some (Some c) \<and> 0 < c \<and>
      (if aePrevLogIndex args < logBaseIndex n then c = logBaseIndex n + 1 else c \<le> aePrevLogIndex args)"
proof (cases "0 < aePrevLogIndex args \<and> logBaseIndex n \<le> aePrevLogIndex args
    \<and> aePrevLogIndex args \<le> logBaseIndex n + length (log n)")
  case True
  obtain c where "conflict_index n (log_term n (aePrevLogIndex args)) (aePrevLogIndex args) = Some c"
    "0 < c" "c \<le> aePrevLogIndex args"
    using conflict_index_ok [OF assms] True by blast
  with True assms show ?thesis by (auto simp: check_prev_def prev_ok_def Let_def lastLogIndex_ok termAt_ok)
next
  case False
  have u: "u64 (logBaseIndex n + 1) = logBaseIndex n + 1"
    "u64 (logBaseIndex n + length (log n) + 1) = logBaseIndex n + length (log n) + 1"
    using assms by (auto intro!: u64_small simp: log_ok_def)
  with False assms show ?thesis by (auto simp: check_prev_def prev_ok_def Let_def lastLogIndex_ok)
qed

named_theorems frame_simps \<open>what the small node operations leave alone\<close>

lemma persist_frame [frame_simps]:
  "log (persistTermAndVoteLocked S n) = log n"
  "logBaseIndex (persistTermAndVoteLocked S n) = logBaseIndex n"
  "logBaseTerm (persistTermAndVoteLocked S n) = logBaseTerm n"
  "commitIndex (persistTermAndVoteLocked S n) = commitIndex n"
  "lastApplied (persistTermAndVoteLocked S n) = lastApplied n"
  "currentTerm (persistTermAndVoteLocked S n) = currentTerm n"
  "votedFor (persistTermAndVoteLocked S n) = votedFor n"
  "state (persistTermAndVoteLocked S n) = state n"
  "nodeID (persistTermAndVoteLocked S n) = nodeID n"
  "peers (persistTermAndVoteLocked S n) = peers n"
  "votes (persistTermAndVoteLocked S n) = votes n"
  "opts (persistTermAndVoteLocked S n) = opts n"
  "stateMachine (persistTermAndVoteLocked S n) = stateMachine n"
  by (simp_all add: persistTermAndVoteLocked_def)

lemma becomeFollower_frame [frame_simps]:
  "log (becomeFollowerLocked S t n) = log n"
  "logBaseIndex (becomeFollowerLocked S t n) = logBaseIndex n"
  "logBaseTerm (becomeFollowerLocked S t n) = logBaseTerm n"
  "commitIndex (becomeFollowerLocked S t n) = commitIndex n"
  "lastApplied (becomeFollowerLocked S t n) = lastApplied n"
  "currentTerm (becomeFollowerLocked S t n) = max (currentTerm n) t"
  "votedFor (becomeFollowerLocked S t n) = (if t > currentTerm n then '''' else votedFor n)"
  "state (becomeFollowerLocked S t n) = Follower"
  "nodeID (becomeFollowerLocked S t n) = nodeID n"
  "peers (becomeFollowerLocked S t n) = peers n"
  "votes (becomeFollowerLocked S t n) = votes n"
  "opts (becomeFollowerLocked S t n) = opts n"
  "stateMachine (becomeFollowerLocked S t n) = stateMachine n"
  by (simp_all add: becomeFollowerLocked_def Let_def frame_simps max_def)

lemma resetTimer_frame [frame_simps]:
  "log (resetElectionTimerLocked now rnd n) = log n"
  "logBaseIndex (resetElectionTimerLocked now rnd n) = logBaseIndex n"
  "logBaseTerm (resetElectionTimerLocked now rnd n) = logBaseTerm n"
  "commitIndex (resetElectionTimerLocked now rnd n) = commitIndex n"
  "lastApplied (resetElectionTimerLocked now rnd n) = lastApplied n"
  "currentTerm (resetElectionTimerLocked now rnd n) = currentTerm n"
  "votedFor (resetElectionTimerLocked now rnd n) = votedFor n"
  "state (resetElectionTimerLocked now rnd n) = state n"
  "nodeID (resetElectionTimerLocked now rnd n) = nodeID n"
  "peers (resetElectionTimerLocked now rnd n) = peers n"
  "votes (resetElectionTimerLocked now rnd n) = votes n"
  "opts (resetElectionTimerLocked now rnd n) = opts n"
  "stateMachine (resetElectionTimerLocked now rnd n) = stateMachine n"
  "storage (resetElectionTimerLocked now rnd n) = storage n"
  by (simp_all add: resetElectionTimerLocked_def)

text \<open>The node after the term handling at the top of \<^verbatim>\<open>HandleAppendEntries\<close>.\<close>

definition accept_leader ::
  "'st Storage \<Rightarrow> time \<Rightarrow> int \<Rightarrow> nat \<Rightarrow> string \<Rightarrow> ('st, 'sm) Node \<Rightarrow> ('st, 'sm) Node" where
  "accept_leader S now rnd tm leader n0 =
     (let n1 = (if tm > currentTerm n0 then becomeFollowerLocked S tm n0
                else if state n0 = Candidate then becomeFollowerLocked S tm n0 else n0)
      in resetElectionTimerLocked now rnd (n1\<lparr>state := Follower, leaderID := leader\<rparr>))"

lemma accept_leader_frame [frame_simps]:
  "log (accept_leader S now rnd t l n) = log n"
  "logBaseIndex (accept_leader S now rnd t l n) = logBaseIndex n"
  "logBaseTerm (accept_leader S now rnd t l n) = logBaseTerm n"
  "commitIndex (accept_leader S now rnd t l n) = commitIndex n"
  "lastApplied (accept_leader S now rnd t l n) = lastApplied n"
  "currentTerm (accept_leader S now rnd t l n) = max (currentTerm n) t"
  "votedFor (accept_leader S now rnd t l n) = (if t > currentTerm n then '''' else votedFor n)"
  "state (accept_leader S now rnd t l n) = Follower"
  "nodeID (accept_leader S now rnd t l n) = nodeID n"
  "peers (accept_leader S now rnd t l n) = peers n"
  "stateMachine (accept_leader S now rnd t l n) = stateMachine n"
  by (auto simp: accept_leader_def Let_def frame_simps max_def)

lemma HandleAppendEntries_unfold:
  "HandleAppendEntries S now rnd args n0 =
     (if aeTerm args < currentTerm n0
      then Some (\<lparr>arTerm = currentTerm n0, arSuccess = False, arConflictIndex = 0\<rparr>, n0)
      else
        let n = accept_leader S now rnd (aeTerm args) (aeLeaderID args) n0
        in case check_prev args n of
             None \<Rightarrow> None
           | Some (Some c) \<Rightarrow>
               Some (\<lparr>arTerm = currentTerm n, arSuccess = False, arConflictIndex = c\<rparr>, n)
           | Some None \<Rightarrow>
              (case append_entries S (aePrevLogIndex args) 0 (aeEntries args) n of
                 None \<Rightarrow> None
               | Some n2 \<Rightarrow>
                   Some (\<lparr>arTerm = currentTerm n2, arSuccess = True, arConflictIndex = 0\<rparr>,
                         if aeLeaderCommit args > commitIndex n2
                         then signalApply (n2\<lparr>commitIndex := min (aeLeaderCommit args) (lastLogIndexLocked n2)\<rparr>)
                         else n2)))"
  by (simp add: HandleAppendEntries_def accept_leader_def Let_def)

lemma log_ok_accept: "log_ok (accept_leader S now rnd t l n) = log_ok n"
  by (simp add: log_ok_def frame_simps)

lemma log_term_accept: "log_term (accept_leader S now rnd t l n) = log_term n"
  by (simp add: log_term_def frame_simps fun_eq_iff)

lemma prev_ok_accept: "prev_ok args (accept_leader S now rnd t l n) = prev_ok args n"
  by (simp add: prev_ok_def frame_simps log_term_accept)

lemma HandleAppendEntries_reject:
  assumes "log_ok n" and "aeTerm args < currentTerm n \<or> \<not> prev_ok args n"
  shows "\<exists>reply n'. HandleAppendEntries S now rnd args n = Some (reply, n') \<and> \<not> arSuccess reply
    \<and> n' = (if aeTerm args < currentTerm n then n else accept_leader S now rnd (aeTerm args) (aeLeaderID args) n)
    \<and> arTerm reply = max (currentTerm n) (aeTerm args)
    \<and> (currentTerm n \<le> aeTerm args \<longrightarrow> 0 < arConflictIndex reply \<and>
         (if aePrevLogIndex args < logBaseIndex n then arConflictIndex reply = logBaseIndex n + 1
          else arConflictIndex reply \<le> aePrevLogIndex args))"
proof (cases "aeTerm args < currentTerm n")
  case True
  then show ?thesis by (simp add: HandleAppendEntries_def)
next
  case False
  let ?n = "accept_leader S now rnd (aeTerm args) (aeLeaderID args) n"
  have "log_ok ?n" "\<not> prev_ok args ?n" using assms False by (auto simp: log_ok_accept prev_ok_accept)
  with check_prev_ok [of ?n args] obtain c where
    "check_prev args ?n = Some (Some c)" "0 < c"
    "if aePrevLogIndex args < logBaseIndex n then c = logBaseIndex n + 1 else c \<le> aePrevLogIndex args"
    by (auto simp: frame_simps)
  with False show ?thesis by (simp add: HandleAppendEntries_unfold Let_def frame_simps)
qed

lemma HandleAppendEntries_accept:
  assumes "log_ok n" and "args_ok args n" and "currentTerm n \<le> aeTerm args" and "prev_ok args n"
  shows "\<exists>reply st note. HandleAppendEntries S now rnd args n =
      Some (reply, (accept_leader S now rnd (aeTerm args) (aeLeaderID args) n)
        \<lparr>log := merge_at (aePrevLogIndex args - logBaseIndex n) (aeEntries args) (log n), storage := st,
         commitIndex := (if aeLeaderCommit args > commitIndex n
           then min (aeLeaderCommit args) (logBaseIndex n
             + length (merge_at (aePrevLogIndex args - logBaseIndex n) (aeEntries args) (log n)))
           else commitIndex n), applyNotify := note\<rparr>)
    \<and> arSuccess reply \<and> arTerm reply = aeTerm args
    \<and> from_index (logBaseIndex n + 1) (merge_at (aePrevLogIndex args - logBaseIndex n) (aeEntries args) (log n))
    \<and> logBaseIndex n + length (merge_at (aePrevLogIndex args - logBaseIndex n) (aeEntries args) (log n)) + 1 < 2 ^ 64"
proof -
  let ?n = "accept_leader S now rnd (aeTerm args) (aeLeaderID args) n"
  let ?p = "aePrevLogIndex args - logBaseIndex n"
  let ?lg = "merge_at ?p (aeEntries args) (log n)"
  have ok: "log_ok ?n" "check_prev args ?n = Some None"
    using assms check_prev_ok [of ?n args] by (auto simp: log_ok_accept prev_ok_accept)
  have le: "logBaseIndex n \<le> aePrevLogIndex args" "aePrevLogIndex args \<le> logBaseIndex n + length (log n)"
    using assms(2,4) by (auto simp: prev_ok_def args_ok_def)
  obtain st where st: "append_entries S (aePrevLogIndex args) 0 (aeEntries args) ?n = Some (?n\<lparr>log := ?lg, storage := st\<rparr>)"
    using append_entries_ok [OF ok(1), of "aePrevLogIndex args" 0 "aeEntries args" S] le assms(2)
    by (auto simp: frame_simps args_ok_def)
  let ?n2 = "?n\<lparr>log := ?lg, storage := st\<rparr>"
  have pl: "?p \<le> length (log n)" using le by linarith
  have fi: "from_index (logBaseIndex n + 1) ?lg"
    using assms(1,2) pl le merge_at_from_index [of "logBaseIndex n + 1" "log n" ?p "aeEntries args"]
    by (simp add: log_ok_from_index args_ok_def)
  have bd: "logBaseIndex n + length ?lg + 1 < 2 ^ 64"
    using merge_at_bound [OF pl, of "aeEntries args"] assms(1,2) le
    by (auto simp: log_ok_def args_ok_def max_def split: if_splits)
  have ok2: "log_ok ?n2" using fi bd by (simp add: log_ok_from_index frame_simps)
  have last: "lastLogIndexLocked ?n2 = logBaseIndex n + length ?lg"
    using lastLogIndex_ok [OF ok2] by (simp add: frame_simps)
  show ?thesis
  proof (cases "aeLeaderCommit args > commitIndex n")
    case True
    then show ?thesis using assms(3) ok(2) st last fi bd
      by (simp add: HandleAppendEntries_unfold Let_def frame_simps max_def signalApply_def) blast
  next
    case False
    have "?n2 = ?n\<lparr>log := ?lg, storage := st, commitIndex := commitIndex ?n, applyNotify := applyNotify ?n\<rparr>" by simp
    then have eq: "?n2 = ?n\<lparr>log := ?lg, storage := st, commitIndex := commitIndex n, applyNotify := applyNotify ?n\<rparr>"
      by (simp only: accept_leader_frame(4))
    let ?r = "\<lparr>arTerm = aeTerm args, arSuccess = True, arConflictIndex = 0\<rparr>"
    have "HandleAppendEntries S now rnd args n = Some (?r, ?n2)"
      using False assms(3) ok(2) st last by (simp add: HandleAppendEntries_unfold Let_def frame_simps max_def)
    also have "\<dots> = Some (?r, ?n\<lparr>log := ?lg, storage := st, commitIndex := commitIndex n, applyNotify := applyNotify ?n\<rparr>)"
      using arg_cong [OF eq, of "\<lambda>m. Some (?r, m)"] .
    finally show ?thesis using False fi bd by (intro exI [of _ ?r] exI [of _ st] exI [of _ "applyNotify ?n"]) simp
  qed
qed

section \<open>The commit rule\<close>

definition committable :: "('st, 'sm) Node \<Rightarrow> nat \<Rightarrow> bool" where
  "committable n idx \<longleftrightarrow> commitIndex n < idx \<and> idx \<le> logBaseIndex n + length (log n)
     \<and> log_term n idx = currentTerm n \<and> majority n \<le> replica_count n idx"

lemma advance_commit_ok:
  assumes "log_ok n" and "hi \<le> logBaseIndex n + length (log n)"
  shows "advance_commit hi n = Some
    (if \<exists>i \<le> hi. committable n i then signalApply (n\<lparr>commitIndex := Max {i. i \<le> hi \<and> committable n i}\<rparr>) else n)"
  using assms(2)
proof (induction hi)
  case 0
  then show ?case by (auto simp: advance_commit.simps [of 0] committable_def)
next
  case (Suc hi)
  show ?case
  proof (cases "committable n (Suc hi)")
    case True
    have "finite {i. i \<le> Suc hi \<and> committable n i}" by simp
    then have "Max {i. i \<le> Suc hi \<and> committable n i} = Suc hi"
      using True by (intro Max_eqI) auto
    moreover have "\<exists>i \<le> Suc hi. committable n i" using True by blast
    ultimately show ?thesis
      using True assms(1) by (simp add: advance_commit.simps [of "Suc hi"] termAt_ok committable_def)
  next
    case False
    have set: "{i. i \<le> Suc hi \<and> committable n i} = {i. i \<le> hi \<and> committable n i}"
      using False le_Suc_eq by auto
    have ex: "(\<exists>i \<le> Suc hi. committable n i) = (\<exists>i \<le> hi. committable n i)" using False le_Suc_eq by auto
    show ?thesis
    proof (cases "commitIndex n < Suc hi")
      case True
      then show ?thesis
        using False Suc assms(1) unfolding set ex
        by (auto simp: advance_commit.simps [of "Suc hi"] termAt_ok committable_def)
    next
      case gt: False
      then have "\<not> (\<exists>i \<le> hi. committable n i)" by (auto simp: committable_def)
      then have "\<not> (\<exists>i \<le> Suc hi. committable n i)" using ex by blast
      with gt show ?thesis by (simp only: advance_commit.simps [of "Suc hi"] if_False)
    qed
  qed
qed

lemma maybeAdvance_ok:
  assumes "log_ok n" and "state n = Leader"
  shows "maybeAdvanceCommitIndexLocked n = Some
    (if \<exists>i. committable n i then signalApply (n\<lparr>commitIndex := Max {i. committable n i}\<rparr>) else n)"
proof -
  have eq: "(i \<le> lastLogIndexLocked n \<and> committable n i) = committable n i" for i
    using assms(1) by (auto simp: committable_def lastLogIndex_ok)
  have "lastLogIndexLocked n \<le> logBaseIndex n + length (log n)" using assms(1) by (simp add: lastLogIndex_ok)
  from advance_commit_ok [OF assms(1) this] show ?thesis
    by (simp only: maybeAdvanceCommitIndexLocked_def assms(2) eq simp_thms if_False)
qed

section \<open>Sending entries\<close>

definition next_index :: "('st, 'sm) Node \<Rightarrow> string \<Rightarrow> nat" where
  "next_index n peer = (if map_get (nextIndex n) peer = 0 then 1 else map_get (nextIndex n) peer)"

lemma send_request_unfold:
  "sendAppendEntriesTo_request peer n =
     (if state n \<noteq> Leader then Some SendNothing
      else if next_index n peer \<le> logBaseIndex n then Some (SendSnapshot (currentTerm n))
      else case termAtLocked n (sub64 (next_index n peer) 1) of
             None \<Rightarrow> None
           | Some prevLogTerm \<Rightarrow>
              (case (if next_index n peer \<le> lastLogIndexLocked n
                     then map_option (take maxReplicationBatchSize)
                            (slice_from (log n) (sub64 (sub64 (next_index n peer) (logBaseIndex n)) 1))
                     else Some []) of
                 None \<Rightarrow> None
               | Some es \<Rightarrow>
                   Some (SendAppend \<lparr>aeTerm = currentTerm n, aeLeaderID = nodeID n,
                     aePrevLogIndex = sub64 (next_index n peer) 1, aePrevLogTerm = prevLogTerm,
                     aeEntries = es, aeLeaderCommit = commitIndex n\<rparr>)))"
  unfolding sendAppendEntriesTo_request_def Let_def next_index_def ..

lemma send_request_ok:
  assumes "log_ok n" and "state n = Leader" and "next_index n peer < 2 ^ 64"
  shows "sendAppendEntriesTo_request peer n = Some
    (if next_index n peer \<le> logBaseIndex n then SendSnapshot (currentTerm n)
     else SendAppend \<lparr>aeTerm = currentTerm n, aeLeaderID = nodeID n, aePrevLogIndex = next_index n peer - 1,
       aePrevLogTerm = log_term n (next_index n peer - 1),
       aeEntries = take 64 (drop (next_index n peer - 1 - logBaseIndex n) (log n)), aeLeaderCommit = commitIndex n\<rparr>)"
proof -
  let ?i = "next_index n peer"
  have pos: "0 < ?i" by (simp add: next_index_def)
  then have sub: "sub64 ?i (Suc 0) = ?i - 1" using assms(3) by (subst sub64_le) simp_all
  show ?thesis
  proof (cases "?i \<le> logBaseIndex n")
    case True
    then show ?thesis using assms(2) by (simp add: send_request_unfold)
  next
    case False
    have es: "(if ?i \<le> lastLogIndexLocked n
           then map_option (take maxReplicationBatchSize) (slice_from (log n) (sub64 (sub64 ?i (logBaseIndex n)) 1))
           else Some []) = Some (take 64 (drop (?i - 1 - logBaseIndex n) (log n)))"
    proof (cases "?i \<le> logBaseIndex n + length (log n)")
      case True
      then have "?i - Suc (logBaseIndex n) \<le> length (log n)" by linarith
      with True False assms(1) show ?thesis
        by (simp add: lastLogIndex_ok sub64_position maxReplicationBatchSize_def diff_commute)
    next
      case False
      then show ?thesis using assms(1) by (simp add: lastLogIndex_ok)
    qed
    show ?thesis unfolding send_request_unfold es using False assms sub by (simp add: termAt_ok)
  qed
qed

section \<open>Appending proposals\<close>

lemma appendBatch_ok:
  assumes "log_ok n" and "state n = Leader" and "logBaseIndex n + length (log n) + length batch + 1 < 2 ^ 64"
  shows "\<exists>es. appendBatch S batch n = (map2 (\<lambda>(req, _) e. (req, Inr e)) batch es, appendLogLocked S es n)
    \<and> length es = length batch \<and> from_index (logBaseIndex n + length (log n) + 1) es
    \<and> (\<forall>i < length batch. eTerm (es ! i) = currentTerm n \<and> eCommand (es ! i) = snd (batch ! i))
    \<and> log_ok (appendLogLocked S es n)"
proof -
  let ?next = "u64 (lastLogIndexLocked n + 1)"
  define es where "es = map (\<lambda>(i, req, command). \<lparr>eTerm = currentTerm n, eIndex = u64 (?next + i), eCommand = command\<rparr>)
    (zip [0..<length batch] batch)"
  have nx: "?next = logBaseIndex n + length (log n) + 1"
    using assms by (simp add: lastLogIndex_ok u64_small log_ok_def)
  have nth: "es ! i = \<lparr>eTerm = currentTerm n, eIndex = logBaseIndex n + length (log n) + 1 + i, eCommand = snd (batch ! i)\<rparr>"
    if "i < length batch" for i
  proof -
    have "u64 (?next + i) = ?next + i" using that assms(3) nx by (intro u64_small) simp
    then show ?thesis using that nx by (simp add: es_def case_prod_beta)
  qed
  have len: "length es = length batch" by (simp add: es_def)
  have fi: "from_index (logBaseIndex n + length (log n) + 1) es" using nth len by (simp add: from_index_def)
  have "appendBatch S batch n = (map2 (\<lambda>(req, _) e. (req, Inr e)) batch es, appendLogLocked S es n)"
    using assms(2) by (simp add: appendBatch_def Let_def es_def)
  moreover have "log_ok (appendLogLocked S es n)" by (rule log_ok_append [OF assms(1) fi]) (use assms(3) len in simp)
  ultimately show ?thesis using len fi nth by auto
qed

section \<open>Applying committed entries\<close>

lemma applyPending_next_ok:
  assumes "log_ok n" and "commit_ok n" and "lastApplied n < commitIndex n"
  shows "applyPending_next n = Some (Some (log n ! (lastApplied n - logBaseIndex n)), n\<lparr>lastApplied := lastApplied n + 1\<rparr>)"
proof -
  have b: "lastApplied n + 1 \<le> logBaseIndex n + length (log n)" "logBaseIndex n < lastApplied n + 1"
    using assms(2,3) by (auto simp: commit_ok_def)
  have u: "u64 (Suc (lastApplied n)) = Suc (lastApplied n)" using b(1) assms(1) by (intro u64_small) (simp add: log_ok_def)
  have pos: "sub64 (sub64 (Suc (lastApplied n)) (logBaseIndex n)) (Suc 0) = lastApplied n - logBaseIndex n"
    using sub64_position [OF assms(1), of "Suc (lastApplied n)"] b by simp
  have "lastApplied n - logBaseIndex n < length (log n)" using b by linarith
  with pos u assms(3) show ?thesis by (simp add: applyPending_next_def Let_def)
qed

text \<open>The committed entries that are still to be applied.\<close>

definition pending_entries :: "('st, 'sm) Node \<Rightarrow> LogEntry list" where
  "pending_entries n = take (commitIndex n - lastApplied n) (drop (lastApplied n - logBaseIndex n) (log n))"

definition apply_commands :: "'sm StateMachine \<Rightarrow> LogEntry list \<Rightarrow> 'sm \<Rightarrow> 'sm" where
  "apply_commands M es sm = foldl (\<lambda>s e. snd (Apply M s (eCommand e))) sm es"

lemma apply_all_ok:
  assumes "log_ok n" and "commit_ok n"
  shows "apply_all M n =
    Some (n\<lparr>lastApplied := commitIndex n, stateMachine := apply_commands M (pending_entries n) (stateMachine n)\<rparr>)"
  using assms
proof (induction "commitIndex n - lastApplied n" arbitrary: n)
  case 0
  then have "commitIndex n = lastApplied n" by (auto simp: commit_ok_def)
  then show ?case by (simp add: apply_all.simps pending_entries_def apply_commands_def)
next
  case (Suc k)
  let ?e = "log n ! (lastApplied n - logBaseIndex n)"
  let ?n = "apply_entry M ?e (n\<lparr>lastApplied := lastApplied n + 1\<rparr>)"
  have lt: "lastApplied n < commitIndex n" using Suc.hyps(2) by linarith
  have bound: "commitIndex n < 2 ^ 64" using Suc.prems by (simp add: commit_ok_def log_ok_def)
  have ok: "log_ok ?n" using Suc.prems(1) by (auto simp: log_ok_def apply_entry_def)
  have cok: "commit_ok ?n" using Suc.prems(2) lt by (auto simp: commit_ok_def apply_entry_def)
  have IH: "apply_all M ?n = Some (?n\<lparr>lastApplied := commitIndex ?n,
      stateMachine := apply_commands M (pending_entries ?n) (stateMachine ?n)\<rparr>)"
    by (rule Suc.hyps(1) [OF _ ok cok]) (use Suc.hyps(2) in \<open>simp add: apply_entry_def\<close>)
  have "pending_entries n = ?e # pending_entries ?n"
  proof -
    have "lastApplied n - logBaseIndex n < length (log n)" using lt Suc.prems(2) by (auto simp: commit_ok_def)
    then have "drop (lastApplied n - logBaseIndex n) (log n) = ?e # drop (Suc (lastApplied n - logBaseIndex n)) (log n)"
      by (simp add: Cons_nth_drop_Suc)
    moreover have "Suc (lastApplied n - logBaseIndex n) = Suc (lastApplied n) - logBaseIndex n"
      using Suc.prems(2) by (auto simp: commit_ok_def)
    moreover have "commitIndex n - lastApplied n = Suc (commitIndex n - Suc (lastApplied n))" using lt by linarith
    ultimately show ?thesis by (simp add: pending_entries_def apply_entry_def)
  qed
  with IH lt bound show ?case
    using applyPending_next_ok [OF Suc.prems lt]
    by (subst apply_all.simps) (simp add: apply_entry_def apply_commands_def)
qed

lemma discard_ok:
  assumes "log_ok n" and "logBaseIndex n < idx" and "idx \<le> logBaseIndex n + length (log n)"
  shows "discardLogPrefixLocked S idx tm n =
    n\<lparr>log := drop (idx - logBaseIndex n) (log n), logBaseIndex := idx, logBaseTerm := tm,
      storage := snd (DiscardLogThrough S (storage n) idx)\<rparr>"
proof -
  have "idx < 2 ^ 64" using assms by (simp add: log_ok_def)
  then have "sub64 idx (logBaseIndex n) = idx - logBaseIndex n" using assms(2) by (intro sub64_le) simp_all
  with assms show ?thesis by (simp add: discardLogPrefixLocked_def Let_def lastLogIndex_ok min_def)
qed

text \<open>Compaction keeps the index and the term of every entry that remains.\<close>

lemma log_ok_discard:
  assumes "log_ok n" and "logBaseIndex n < idx" and "idx \<le> logBaseIndex n + length (log n)"
  shows "log_ok (discardLogPrefixLocked S idx tm n)"
  using assms by (auto simp: discard_ok log_ok_def)

lemma log_term_discard:
  assumes "log_ok n" and "logBaseIndex n < idx" and "idx \<le> logBaseIndex n + length (log n)"
    and "idx \<le> i" and "tm = log_term n idx"
  shows "log_term (discardLogPrefixLocked S idx tm n) i = log_term n i"
proof -
  have "idx - logBaseIndex n + (i - idx - 1) = i - logBaseIndex n - 1" if "idx < i" using that assms by linarith
  then show ?thesis using assms by (auto simp: discard_ok log_term_def)
qed

lemma maybeSnapshot_ok:
  assumes "log_ok n" and "commit_ok n"
  shows "\<exists>n'. maybeSnapshot S M n = Some n' \<and> log_ok n' \<and> commit_ok n' \<and> commitIndex n' = commitIndex n
    \<and> lastApplied n' = lastApplied n \<and> stateMachine n' = stateMachine n
    \<and> logBaseIndex n' + length (log n') = logBaseIndex n + length (log n)
    \<and> (\<forall>i \<ge> lastApplied n. log_term n' i = log_term n i)"
proof (cases "logBaseIndex n < lastApplied n \<and> 0 < SnapshotThreshold (opts n)
    \<and> SnapshotThreshold (opts n) \<le> int (lastApplied n - logBaseIndex n)")
  case False
  then have "maybeSnapshot S M n = Some n" by (auto simp: maybeSnapshot_def)
  with assms show ?thesis by auto
next
  case True
  let ?t = "log_term n (lastApplied n)"
  have le: "lastApplied n \<le> logBaseIndex n + length (log n)" using assms(2) by (simp add: commit_ok_def)
  show ?thesis
  proof (cases "Snapshot M (stateMachine n)")
    case None
    with True assms show ?thesis by (auto simp: maybeSnapshot_def termAt_ok)
  next
    case (Some data)
    obtain ok st where sv: "SaveSnapshot S (storage n) (lastApplied n) ?t data = (ok, st)" by fastforce
    let ?n = "n\<lparr>storage := st\<rparr>"
    have l: "log_ok ?n" "log_term ?n = log_term n" using assms(1) by (auto simp: log_ok_def log_term_def fun_eq_iff)
    let ?d = "discardLogPrefixLocked S (lastApplied n) ?t ?n"
    have d: "log_ok ?d" using log_ok_discard [OF l(1)] True le by simp
    have "\<forall>i \<ge> lastApplied n. log_term ?d i = log_term n i" using log_term_discard [OF l(1)] True le l(2) by simp
    moreover have "commit_ok ?d" "commitIndex ?d = commitIndex n" "lastApplied ?d = lastApplied n"
      "stateMachine ?d = stateMachine n" "logBaseIndex ?d + length (log ?d) = logBaseIndex n + length (log n)"
      using discard_ok [OF l(1)] True le assms(2) by (auto simp: commit_ok_def)
    ultimately show ?thesis
      using True Some sv d assms l by (cases ok) (auto simp: maybeSnapshot_def termAt_ok commit_ok_def)
  qed
qed

end
