(* ===== verification/Raft_Props.thy ===== *)
theory Raft_Props
  imports Raft_Log
begin

text \<open>
  Properties of a single Raft node's handlers, and the situations in which the code goes wrong.
\<close>

section \<open>Sample nodes\<close>

definition sample_storage :: "unit Storage" where
  "sample_storage = \<lparr>SaveTermAndVote = \<lambda>s _ _. (True, s), LoadTermAndVote = \<lambda>_. Some (0, ''''),
     AppendEntries = \<lambda>s _. (True, s), TruncateFrom = \<lambda>s _. (True, s), LoadLog = \<lambda>_. Some [],
     SaveSnapshot = \<lambda>s _ _ _. (True, s), LoadSnapshot = \<lambda>_. Some None, DiscardLogThrough = \<lambda>s _. (True, s)\<rparr>"

text \<open>A state machine that remembers the commands it has applied.\<close>

definition sample_machine :: "bytes list StateMachine" where
  "sample_machine = \<lparr>Apply = \<lambda>s c. (True, s @ [c]), Snapshot = \<lambda>s. Some (concat s), Restore = \<lambda>s d. (True, [d])\<rparr>"

definition sample_log :: "nat \<Rightarrow> (nat \<Rightarrow> nat) \<Rightarrow> nat \<Rightarrow> LogEntry list" where
  "sample_log base tm k = map (\<lambda>i. \<lparr>eTerm = tm i, eIndex = i, eCommand = [word_of_nat i]\<rparr>) [base + 1..<base + k + 1]"

definition sample_node :: "nat \<Rightarrow> LogEntry list \<Rightarrow> (unit, bytes list) Node" where
  "sample_node base lg = \<lparr>nodeID = ''a'', peers = [''b'', ''c''], storage = (), stateMachine = [], opts = DefaultOptions,
     currentTerm = 3, votedFor = '''', log = lg, logBaseIndex = base, logBaseTerm = 1, state = Follower,
     commitIndex = base, lastApplied = base, leaderID = '''', nextIndex = [], matchIndex = [],
     electionResetAt = 0, electionTimeout = 0, lastHeartbeatSent = None, applyNotify = False,
     replicateCh = [], proposeCh = [], votes = 0\<rparr>"

lemma length_sample_log [simp]: "length (sample_log base tm k) = k"
  by (simp add: sample_log_def)

lemma nth_sample_log [simp]:
  "i < k \<Longrightarrow> sample_log base tm k ! i = \<lparr>eTerm = tm (base + i + 1), eIndex = base + i + 1, eCommand = [word_of_nat (base + i + 1)]\<rparr>"
  by (simp add: sample_log_def del: upt_Suc)

lemma sample_node_ok: "base + k + 1 < 2 ^ 64 \<Longrightarrow> log_ok (sample_node base (sample_log base tm k))"
  by (simp add: log_ok_def sample_node_def)

lemma from_index_sample: "from_index (base + 1) (sample_log base tm k)"
  by (simp add: from_index_def)

section \<open>Replication\<close>


definition sample_args :: AppendEntriesArgs where
  "sample_args = \<lparr>aeTerm = 3, aeLeaderID = ''b'', aePrevLogIndex = 7, aePrevLogTerm = 2,
     aeEntries = sample_log 7 (\<lambda>_. 3) 2, aeLeaderCommit = 8\<rparr>"

lemma sample_args_ok: "args_ok sample_args (sample_node 5 (sample_log 5 (\<lambda>_. 2) 4))"
  using from_index_sample [of 7] by (simp add: args_ok_def sample_args_def sample_node_def)


text \<open>
  C11: When a follower refuses entries of a current leader, the reply's \<^verbatim>\<open>ConflictIndex\<close> makes the
  leader's next attempt start no later than the entry that was refused, so that catching up
  terminates; a follower that has compacted past the entry asks for what follows its snapshot.
\<close>

theorem conflict_hint_backs_off:
  assumes "log_ok f" and "currentTerm f \<le> aeTerm args" and "\<not> prev_ok args f"
    and "state l = Leader" and "currentTerm l = aeTerm args"
  shows "\<exists>reply f' l'. HandleAppendEntries S now rnd args f = Some (reply, f') \<and> \<not> arSuccess reply
    \<and> sendAppendEntriesTo_reply S peer (aeTerm args) (aePrevLogIndex args) (length (aeEntries args)) reply l = Some l'
    \<and> (if aePrevLogIndex args < logBaseIndex f then next_index l' peer = logBaseIndex f + 1
       else next_index l' peer \<le> aePrevLogIndex args)"
proof -
  obtain reply f' where run: "HandleAppendEntries S now rnd args f = Some (reply, f')"
    and r: "\<not> arSuccess reply" "arTerm reply = aeTerm args" "0 < arConflictIndex reply"
      "if aePrevLogIndex args < logBaseIndex f then arConflictIndex reply = logBaseIndex f + 1
       else arConflictIndex reply \<le> aePrevLogIndex args"
    using HandleAppendEntries_reject [OF assms(1), of args S now rnd] assms(2,3) by (auto simp: max_def)
  let ?l = "l\<lparr>nextIndex := AList.update peer (arConflictIndex reply) (nextIndex l)\<rparr>"
  have "sendAppendEntriesTo_reply S peer (aeTerm args) (aePrevLogIndex args) (length (aeEntries args)) reply l = Some ?l"
    using r(1-3) assms(4,5) by (simp add: sendAppendEntriesTo_reply_def)
  moreover have "next_index ?l peer = arConflictIndex reply" using r(3) by (simp add: next_index_def map_get_def map_of_update)
  ultimately show ?thesis using run r by auto
qed

definition sample_leader :: "(unit, bytes list) Node" where
  "sample_leader = (sample_node 0 (sample_log 0 (\<lambda>i. if i \<le> 80 then 2 else 3) 100))
     \<lparr>state := Leader, commitIndex := 100, nextIndex := [(''b'', 1), (''c'', 101)]\<rparr>"

definition sample_probe :: AppendEntriesArgs where
  "sample_probe = \<lparr>aeTerm = 3, aeLeaderID = ''b'', aePrevLogIndex = 9, aePrevLogTerm = 3,
     aeEntries = [], aeLeaderCommit = 8\<rparr>"

theorem conflict_hint_backs_off_witness:
  "\<exists>reply f' l'. HandleAppendEntries sample_storage 0 0 sample_probe (sample_node 5 (sample_log 5 (\<lambda>_. 2) 4)) = Some (reply, f')
    \<and> \<not> arSuccess reply
    \<and> sendAppendEntriesTo_reply sample_storage ''b'' 3 9 0 reply sample_leader = Some l'
    \<and> next_index l' ''b'' \<le> 9"
proof -
  let ?f = "sample_node 5 (sample_log 5 (\<lambda>_. 2) 4)"
  have "log_ok ?f" by (rule sample_node_ok) simp
  moreover have "\<not> prev_ok sample_probe ?f" by (simp add: prev_ok_def sample_probe_def sample_node_def log_term_def)
  ultimately show ?thesis
    using conflict_hint_backs_off [of ?f sample_probe sample_leader sample_storage 0 0 "''b''"]
    by (simp add: sample_probe_def sample_node_def sample_leader_def)
qed



text \<open>
  C13: What a leader sends to a peer: a snapshot if it has compacted the entry the peer needs,
  else the at most 64 entries from the peer's next index on, with the entry before them, in
  consecutive order; the call never panics.
\<close>

theorem send_batch:
  assumes "log_ok n" and "state n = Leader" and "next_index n peer < 2 ^ 64"
  shows "sendAppendEntriesTo_request peer n = Some
    (if next_index n peer \<le> logBaseIndex n then SendSnapshot (currentTerm n)
     else SendAppend \<lparr>aeTerm = currentTerm n, aeLeaderID = nodeID n, aePrevLogIndex = next_index n peer - 1,
       aePrevLogTerm = log_term n (next_index n peer - 1),
       aeEntries = take 64 (drop (next_index n peer - 1 - logBaseIndex n) (log n)), aeLeaderCommit = commitIndex n\<rparr>)
    \<and> (logBaseIndex n < next_index n peer \<longrightarrow>
       from_index (next_index n peer) (take 64 (drop (next_index n peer - 1 - logBaseIndex n) (log n))))"
proof -
  have "from_index (next_index n peer) (take 64 (drop (next_index n peer - 1 - logBaseIndex n) (log n)))"
    if "logBaseIndex n < next_index n peer"
    using assms(1) that by (auto simp: from_index_def log_ok_def)
  with send_request_ok [OF assms] show ?thesis by blast
qed

lemma sample_leader_ok: "log_ok sample_leader"
  using sample_node_ok [of 0 100 "\<lambda>i. if i \<le> 80 then 2 else 3"] by (simp add: sample_leader_def log_ok_def)

theorem send_batch_witness:
  "sendAppendEntriesTo_request ''b'' sample_leader = Some (SendAppend \<lparr>aeTerm = 3, aeLeaderID = ''a'', aePrevLogIndex = 0,
     aePrevLogTerm = 0, aeEntries = take 64 (log sample_leader), aeLeaderCommit = 100\<rparr>)"
proof -
  have "state sample_leader = Leader" "next_index sample_leader ''b'' = 1" "logBaseIndex sample_leader = 0"
    by (simp_all add: sample_leader_def next_index_def map_get_def sample_node_def)
  with send_batch [OF sample_leader_ok, of "''b''"] show ?thesis
    by (simp add: log_term_def) (simp add: sample_leader_def sample_node_def)
qed


definition sample_batch :: "(nat \<times> bytes) list" where
  "sample_batch = [(0, [1]), (1, [2])]"


text \<open>
  C15: \<^verbatim>\<open>applyPending\<close> does not panic on a well-formed node: it applies exactly the committed
  entries that were not yet applied, once each and in log order, and then (if the threshold is
  reached) compacts the log without changing the term of any index that is still needed.
\<close>

theorem apply_in_order:
  assumes "log_ok n" and "commit_ok n"
  shows "\<exists>n'. applyPending S M n = Some n' \<and> log_ok n' \<and> commit_ok n'
    \<and> lastApplied n' = commitIndex n \<and> commitIndex n' = commitIndex n
    \<and> stateMachine n' = apply_commands M (pending_entries n) (stateMachine n)
    \<and> (\<forall>i \<ge> commitIndex n. log_term n' i = log_term n i)"
proof -
  let ?n0 = "n\<lparr>applyNotify := False\<rparr>"
  let ?n1 = "?n0\<lparr>lastApplied := commitIndex n, stateMachine := apply_commands M (pending_entries n) (stateMachine n)\<rparr>"
  have ok0: "log_ok ?n0" "commit_ok ?n0" using assms by (auto simp: log_ok_def commit_ok_def)
  have all: "apply_all M ?n0 = Some ?n1" using apply_all_ok [OF ok0] by (simp add: pending_entries_def)
  have ok1: "log_ok ?n1" "commit_ok ?n1" "log_term ?n1 = log_term n"
    using assms by (auto simp: log_ok_def commit_ok_def log_term_def fun_eq_iff)
  from maybeSnapshot_ok [OF ok1(1,2), of S M] all ok1(3) show ?thesis by (auto simp: applyPending_def)
qed

theorem apply_in_order_witness:
  "\<exists>n'. applyPending sample_storage sample_machine ((sample_node 5 (sample_log 5 (\<lambda>_. 2) 4))\<lparr>commitIndex := 7\<rparr>) = Some n'
    \<and> stateMachine n' = [[6], [7]]"
proof -
  let ?n = "(sample_node 5 (sample_log 5 (\<lambda>_. 2) 4))\<lparr>commitIndex := 7\<rparr>"
  have "log_ok ?n" using sample_node_ok [of 5 4] by (simp add: log_ok_def sample_node_def)
  moreover have "commit_ok ?n" by (simp add: commit_ok_def sample_node_def)
  moreover have "apply_commands sample_machine (pending_entries ?n) (stateMachine ?n) = [[6], [7]]"
    by (simp add: pending_entries_def apply_commands_def sample_machine_def sample_node_def sample_log_def upt_rec)
  ultimately show ?thesis using apply_in_order [of ?n sample_storage sample_machine] by auto
qed

section \<open>Where replication goes wrong\<close>

lemma merge_at_prefix:
  assumes "take (p + length es) lg = take p lg @ es" and "p + length es \<le> length lg"
  shows "merge_at p es lg = lg"
proof (rule merge_at_same [OF assms(2)], intro allI impI)
  fix j assume "j < length es"
  then have "lg ! (p + j) = (take p lg @ es) ! (p + j)" using assms by (metis nat_add_left_cancel_less nth_take)
  with \<open>j < length es\<close> assms(2) show "eTerm (lg ! (p + j)) = eTerm (es ! j)" by (simp add: nth_append)
qed

text \<open>
  C16: A message carries at most 64 entries but the leader's whole commit index, and the follower
  commits up to its own last entry: a follower whose log agrees with the leader's on the 64
  entries sent and differs at a committed index \<open>k\<close> beyond them accepts the message, keeps its
  stale entry at \<open>k\<close> and takes it for committed.
\<close>

theorem batch_limit_commits_stale_entry:
  assumes "log_ok l" and "log_ok f" and "logBaseIndex l = 0" and "logBaseIndex f = 0"
    and "state l = Leader" and "currentTerm f \<le> currentTerm l"
    and "take (next_index l peer + 63) (log l) = take (next_index l peer + 63) (log f)"
    and "next_index l peer + 63 < k" and "k \<le> length (log f)" and "commitIndex f < k"
    and "k \<le> commitIndex l" and "commitIndex l \<le> length (log l)" and "log_term l k \<noteq> log_term f k"
  shows "\<exists>args reply f'. sendAppendEntriesTo_request peer l = Some (SendAppend args)
    \<and> HandleAppendEntries S now rnd args f = Some (reply, f') \<and> arSuccess reply
    \<and> k \<le> commitIndex f' \<and> log_term f' k \<noteq> log_term l k"
proof -
  let ?i = "next_index l peer"
  let ?es = "take 64 (drop (?i - 1) (log l))"
  let ?args = "\<lparr>aeTerm = currentTerm l, aeLeaderID = nodeID l, aePrevLogIndex = ?i - 1,
       aePrevLogTerm = log_term l (?i - 1), aeEntries = ?es, aeLeaderCommit = commitIndex l\<rparr>"
  have i: "0 < ?i" "?i < 2 ^ 64" using assms(1,3,8,11,12) by (auto simp: next_index_def log_ok_def)
  have send: "sendAppendEntriesTo_request peer l = Some (SendAppend ?args)"
    using send_request_ok [OF assms(1,5) i(2)] i(1) assms(3) by simp
  have len: "length ?es = 64" "?i - 1 + 64 = ?i + 63" using i(1) assms(8,11,12) by auto
  have pre: "take (?i - 1 + 64) (log f) = take (?i - 1) (log f) @ ?es"
  proof -
    have eq: "take (?i - 1 + 64) (log l) = take (?i - 1 + 64) (log f)" using assms(7) unfolding len(2) .
    then have "take (?i - 1) (take (?i - 1 + 64) (log l)) = take (?i - 1) (take (?i - 1 + 64) (log f))" by (rule arg_cong)
    then have "take (?i - 1) (log l) = take (?i - 1) (log f)" by (simp add: min_def)
    with eq show ?thesis by (metis take_add)
  qed
  have same: "merge_at (?i - 1) ?es (log f) = log f"
    using merge_at_prefix [of "?i - 1" ?es "log f"] pre len assms(8,9) by simp
  have args: "args_ok ?args f" using assms(1,3,4,8,11,12) i len
    by (auto simp: args_ok_def from_index_def log_ok_def)
  have "log l ! (?i - 1 - 1) = log f ! (?i - 1 - 1)"
    using arg_cong [OF assms(7), where f = "\<lambda>lg. lg ! (?i - 1 - 1)"] by simp
  then have prev: "prev_ok ?args f" using assms(3,4,8,9,11,12)
    by (auto simp: prev_ok_def log_term_def)
  have "currentTerm f \<le> aeTerm ?args" using assms(6) by simp
  from HandleAppendEntries_accept [OF assms(2) args this prev, of S now rnd] obtain reply st b where
    run: "HandleAppendEntries S now rnd ?args f = Some (reply, (accept_leader S now rnd (currentTerm l) (nodeID l) f)
        \<lparr>log := log f, storage := st, commitIndex := min (commitIndex l) (length (log f)), applyNotify := b\<rparr>)"
    (is "_ = Some (reply, ?f')") and ok: "arSuccess reply"
    using assms(4,10,11) same by (auto simp del: take_eq_Nil)
  have "log_term ?f' k = log_term f k" by (simp add: log_term_def frame_simps)
  moreover have "k \<le> commitIndex ?f'" using assms(9,11) by simp
  ultimately show ?thesis using send run ok assms(13) by (metis (no_types))
qed

theorem batch_limit_commits_stale_entry_witness:
  "\<exists>args reply f'. sendAppendEntriesTo_request ''b'' sample_leader = Some (SendAppend args)
    \<and> HandleAppendEntries sample_storage 0 0 args (sample_node 0 (sample_log 0 (\<lambda>_. 2) 100)) = Some (reply, f') \<and> arSuccess reply
    \<and> 90 \<le> commitIndex f' \<and> log_term f' 90 \<noteq> log_term sample_leader 90"
proof (rule batch_limit_commits_stale_entry)
  show "log_ok sample_leader" by (rule sample_leader_ok)
  show "log_ok (sample_node 0 (sample_log 0 (\<lambda>_. 2) 100))" by (rule sample_node_ok) simp
  have i: "next_index sample_leader ''b'' = 1" by (simp add: sample_leader_def next_index_def map_get_def sample_node_def)
  show "take (next_index sample_leader ''b'' + 63) (log sample_leader)
    = take (next_index sample_leader ''b'' + 63) (log (sample_node 0 (sample_log 0 (\<lambda>_. 2) 100)))"
    unfolding i by (rule nth_equalityI) (simp_all add: sample_leader_def sample_node_def)
  show "next_index sample_leader ''b'' + 63 < 90" by (simp add: i)
qed (simp_all add: sample_leader_def sample_node_def log_term_def)

lemma apply_empty_log:
  "log n = [] \<Longrightarrow> lastApplied n < commitIndex n \<Longrightarrow> commitIndex n < 2 ^ 64 \<Longrightarrow> apply_all M n = None"
  by (simp add: apply_all.simps applyPending_next_def at_def)

text \<open>
  C17: \<^verbatim>\<open>HandleInstallSnapshot\<close> drops the whole log, although the snapshot may end before entries
  that are committed and not yet applied: the commit index stays beyond the log, and the next
  \<^verbatim>\<open>applyPending\<close> indexes past its end and panics.
\<close>

theorem install_snapshot_then_apply_panics:
  assumes "isTerm args = currentTerm n" and "logBaseIndex n < isLastIncludedIndex args"
    and "lastApplied n \<le> isLastIncludedIndex args" and "isLastIncludedIndex args < commitIndex n"
    and "commitIndex n < 2 ^ 64"
    and "fst (SaveSnapshot S (storage n) (isLastIncludedIndex args) (isLastIncludedTerm args) (isData args))"
    and "fst (Restore M (stateMachine n) (isData args))"
  shows "applyPending S M (snd (HandleInstallSnapshot S M now rnd args n)) = None"
proof -
  let ?n = "snd (HandleInstallSnapshot S M now rnd args n)"
  have "log ?n = [] \<and> lastApplied ?n = isLastIncludedIndex args \<and> commitIndex ?n = commitIndex n"
    using assms by (auto simp: HandleInstallSnapshot_def HandleInstallSnapshot_begin_def
      HandleInstallSnapshot_restore_def HandleInstallSnapshot_finish_def Let_def frame_simps split: prod.splits)
  then show ?thesis using assms(4,5) by (simp add: applyPending_def apply_empty_log)
qed

theorem install_snapshot_then_apply_panics_witness:
  "applyPending sample_storage sample_machine (snd (HandleInstallSnapshot sample_storage sample_machine 0 0
     \<lparr>isTerm = 3, isLeaderID = ''b'', isLastIncludedIndex = 6, isLastIncludedTerm = 2, isData = []\<rparr>
     ((sample_node 5 (sample_log 5 (\<lambda>_. 2) 4))\<lparr>commitIndex := 9\<rparr>))) = None"
  by (rule install_snapshot_then_apply_panics) (simp_all add: sample_node_def sample_storage_def sample_machine_def)

end
