(* ===== verification/Raft_Catch_Up.thy ===== *)
theory Raft_Catch_Up
  imports Raft_Props
begin

text \<open>
  The replication loop of a leader for one peer (\<^verbatim>\<open>replicationLoop\<close>, \<^verbatim>\<open>sendAppendEntriesTo\<close> and
  \<^verbatim>\<open>HandleAppendEntries\<close> of \<^verbatim>\<open>internal/raft/replication.go\<close>) run against that peer over a network that loses
  requests and replies.  The peer catches up with the leader after a number of delivered rounds
  bounded by the length of the log.
\<close>

section \<open>The loop\<close>

datatype delivery = RequestLost | ReplyLost | Delivered

text \<open>
  One call of \<^verbatim>\<open>sendAppendEntriesTo\<close>: the locked section that builds the request, the handler of the peer
  at the given time, and the locked section that handles the reply.  \<open>None\<close> is a panic on either side.
\<close>

definition sendAppendEntriesTo ::
  "'st Storage \<Rightarrow> 'sm StateMachine \<Rightarrow> string \<Rightarrow> time \<times> int \<times> delivery \<Rightarrow>
   ('st, 'sm) Node \<times> ('st, 'sm) Node \<Rightarrow> (('st, 'sm) Node \<times> ('st, 'sm) Node) option" where
  "sendAppendEntriesTo S M peer c lf =
     (case c of (now, rnd, d) \<Rightarrow> case lf of (l, f) \<Rightarrow>
      case sendAppendEntriesTo_request peer l of
        None \<Rightarrow> None
      | Some SendNothing \<Rightarrow> Some (l, f)
      | Some (SendSnapshot tm) \<Rightarrow>
         (case sendInstallSnapshotTo_request S tm l of
            None \<Rightarrow> Some (l, f)
          | Some args \<Rightarrow>
              if d = RequestLost then Some (l, f)
              else case HandleInstallSnapshot S M now rnd args f of (reply, f') \<Rightarrow>
                if d = ReplyLost then Some (l, f')
                else map_option (\<lambda>l'. (l', f'))
                       (sendInstallSnapshotTo_reply S peer tm (isLastIncludedIndex args) reply l))
      | Some (SendAppend args) \<Rightarrow>
          if d = RequestLost then Some (l, f)
          else case HandleAppendEntries S now rnd args f of
            None \<Rightarrow> None
          | Some (reply, f') \<Rightarrow>
              if d = ReplyLost then Some (l, f')
              else map_option (\<lambda>l'. (l', f'))
                     (sendAppendEntriesTo_reply S peer (aeTerm args) (aePrevLogIndex args) (length (aeEntries args)) reply l))"

fun replicationLoop ::
  "'st Storage \<Rightarrow> 'sm StateMachine \<Rightarrow> string \<Rightarrow> (time \<times> int \<times> delivery) list \<Rightarrow>
   ('st, 'sm) Node \<times> ('st, 'sm) Node \<Rightarrow> (('st, 'sm) Node \<times> ('st, 'sm) Node) option" where
  "replicationLoop S M peer [] lf = Some lf"
| "replicationLoop S M peer (c # cs) lf =
     (case sendAppendEntriesTo S M peer c lf of None \<Rightarrow> None | Some lf' \<Rightarrow> replicationLoop S M peer cs lf')"

definition delivered :: "(time \<times> int \<times> delivery) list \<Rightarrow> nat" where
  "delivered cs = length (filter (\<lambda>(now, rnd, d). d = Delivered) cs)"

section \<open>Progress\<close>

text \<open>The two logs have the same terms up to an index.\<close>

definition agree :: "('st, 'sm) Node \<Rightarrow> ('st, 'sm) Node \<Rightarrow> nat \<Rightarrow> bool" where
  "agree l f m \<longleftrightarrow> m \<le> length (log f) \<and> (\<forall>i < m. eTerm (log f ! i) = eTerm (log l ! i))"

text \<open>The Log Matching property of Raft between two logs: equal terms at an index, equal terms before it.\<close>

definition log_matching :: "('st, 'sm) Node \<Rightarrow> ('st, 'sm) Node \<Rightarrow> bool" where
  "log_matching l f \<longleftrightarrow> (\<forall>i < min (length (log l)) (length (log f)). eTerm (log f ! i) = eTerm (log l ! i) \<longrightarrow> agree l f (Suc i))"

text \<open>A leader and a peer that has not seen a newer term, neither of them compacted.\<close>

definition replicating :: "string \<Rightarrow> ('st, 'sm) Node \<Rightarrow> ('st, 'sm) Node \<Rightarrow> bool" where
  "replicating peer l f \<longleftrightarrow> log_ok l \<and> log_ok f \<and> state l = Leader \<and> currentTerm f \<le> currentTerm l
     \<and> logBaseIndex l = 0 \<and> logBaseIndex f = 0 \<and> next_index l peer \<le> length (log l) + 1
     \<and> map_get (matchIndex l) peer \<le> length (log l)
     \<and> (agree l f (next_index l peer - 1) \<or> log_matching l f)"

definition caught_up :: "string \<Rightarrow> ('st, 'sm) Node \<Rightarrow> ('st, 'sm) Node \<Rightarrow> bool" where
  "caught_up peer l f \<longleftrightarrow> agree l f (length (log l)) \<and> next_index l peer = length (log l) + 1
     \<and> map_get (matchIndex l) peer = length (log l)"

text \<open>How many delivered rounds are left: first the next index goes down to a common
  entry, then up to the end in batches of 64.\<close>

definition rounds_left :: "string \<Rightarrow> ('st, 'sm) Node \<Rightarrow> ('st, 'sm) Node \<Rightarrow> nat" where
  "rounds_left peer l f =
     (if caught_up peer l f then 0
      else if agree l f (next_index l peer - 1) then (length (log l) + 1 - next_index l peer + 63) div 64 + 1
      else next_index l peer + (length (log l) + 63) div 64 + 1)"

lemma agree_less: "agree l f m \<Longrightarrow> k \<le> m \<Longrightarrow> agree l f k"
  by (auto simp: agree_def)

lemma agree_cong: "log l' = log l \<Longrightarrow> log f' = log f \<Longrightarrow> agree l' f' m = agree l f m"
  by (simp add: agree_def)

lemma log_matching_cong: "log l' = log l \<Longrightarrow> log f' = log f \<Longrightarrow> log_matching l' f' = log_matching l f"
  by (simp add: log_matching_def agree_def)

lemma next_index_pos: "0 < next_index l peer"
  by (simp add: next_index_def)

text \<open>What the leader sends, as a function of its log.\<close>

definition sent :: "string \<Rightarrow> ('st, 'sm) Node \<Rightarrow> AppendEntriesArgs" where
  "sent peer l = \<lparr>aeTerm = currentTerm l, aeLeaderID = nodeID l, aePrevLogIndex = next_index l peer - 1,
       aePrevLogTerm = log_term l (next_index l peer - 1),
       aeEntries = take 64 (drop (next_index l peer - 1) (log l)), aeLeaderCommit = commitIndex l\<rparr>"

lemma replicating_request:
  assumes "replicating peer l f"
  shows "sendAppendEntriesTo_request peer l = Some (SendAppend (sent peer l))"
  using assms next_index_pos [of l peer]
  by (subst send_request_ok) (auto simp: replicating_def log_ok_def sent_def)

lemma sent_ok:
  assumes "replicating peer l f"
  shows "args_ok (sent peer l) f"
proof -
  have "from_index (next_index l peer - 1 + 1) (take 64 (drop (next_index l peer - 1) (log l)))"
    using assms next_index_pos [of l peer] by (auto simp: replicating_def log_ok_def from_index_def)
  then show ?thesis using assms next_index_pos [of l peer]
    by (auto simp: args_ok_def sent_def replicating_def log_ok_def)
qed

text \<open>The consistency check of the peer decides agreement.\<close>

lemma sent_prev_ok:
  assumes "replicating peer l f"
  shows "prev_ok (sent peer l) f \<longleftrightarrow> agree l f (next_index l peer - 1)"
proof (cases "next_index l peer - 1")
  case 0
  then show ?thesis by (simp add: prev_ok_def sent_def agree_def)
next
  case (Suc p)
  have p: "p < length (log l)" using assms Suc unfolding replicating_def by linarith
  have "prev_ok (sent peer l) f \<longleftrightarrow> p < length (log f) \<and> eTerm (log f ! p) = eTerm (log l ! p)"
    using assms Suc p by (auto simp: prev_ok_def sent_def replicating_def log_term_def)
  also have "\<dots> \<longleftrightarrow> agree l f (Suc p)"
    using assms Suc p by (auto simp: replicating_def log_matching_def agree_def)
  finally show ?thesis by (simp only: Suc)
qed

text \<open>A refused request leaves the log of the peer alone and names an index to go back to.\<close>

lemma peer_refuses:
  assumes "replicating peer l f" and "\<not> agree l f (next_index l peer - 1)"
  shows "\<exists>reply f'. HandleAppendEntries S now rnd (sent peer l) f = Some (reply, f') \<and> log f' = log f \<and> log_ok f'
    \<and> currentTerm f' = currentTerm l \<and> logBaseIndex f' = 0 \<and> \<not> arSuccess reply \<and> arTerm reply = currentTerm l
    \<and> 0 < arConflictIndex reply \<and> arConflictIndex reply < next_index l peer"
proof -
  let ?a = "sent peer l"
  have a: "aeTerm ?a = currentTerm l" "aePrevLogIndex ?a = next_index l peer - 1" by (simp_all add: sent_def)
  have r: "log_ok f" "currentTerm f \<le> currentTerm l" "logBaseIndex f = 0" using assms(1) by (auto simp: replicating_def)
  have "\<not> prev_ok ?a f" using assms by (simp add: sent_prev_ok)
  then show ?thesis using HandleAppendEntries_reject [OF r(1), of ?a S now rnd] r next_index_pos [of l peer]
    by (auto simp: a frame_simps log_ok_accept max_absorb2)
qed

text \<open>An accepted request extends the agreement by the entries sent.\<close>

lemma merged_agree:
  assumes "agree l f m" and "m \<le> length (log l)" and "log f' = merge_at m (take k (drop m (log l))) (log f)"
  shows "agree l f' (m + min k (length (log l) - m))"
proof -
  let ?es = "take k (drop m (log l))"
  have m: "m \<le> length (log f)" and eq: "\<And>i. i < m \<Longrightarrow> eTerm (log f ! i) = eTerm (log l ! i)"
    using assms(1) by (auto simp: agree_def)
  have len: "m + min k (length (log l) - m) \<le> length (log f')"
    using merge_at_length [OF m, of ?es] assms(2,3) by simp
  have "eTerm (log f' ! i) = eTerm (log l ! i)" if i: "i < m + min k (length (log l) - m)" for i
  proof (cases "i < m")
    case True
    have "log f' ! i = take m (log f') ! i" using True by simp
    also have "\<dots> = log f ! i" using merge_at_take [OF m] assms(3) True by simp
    finally show ?thesis using eq True by simp
  next
    case False
    then have "i - m < length ?es" "m + (i - m) = i" using i by auto
    then show ?thesis using merge_at_terms [OF m, of "i - m" ?es] assms(2,3) i by auto
  qed
  then show ?thesis using len by (simp add: agree_def)
qed

lemma peer_accepts:
  assumes "replicating peer l f" and "agree l f (next_index l peer - 1)"
  shows "\<exists>reply f'. HandleAppendEntries S now rnd (sent peer l) f = Some (reply, f') \<and> log_ok f'
    \<and> currentTerm f' = currentTerm l \<and> logBaseIndex f' = 0 \<and> arSuccess reply \<and> arTerm reply = currentTerm l
    \<and> agree l f' (next_index l peer - 1 + length (aeEntries (sent peer l)))"
proof -
  let ?a = "sent peer l" and ?m = "next_index l peer - 1"
  have a: "aeTerm ?a = currentTerm l" "aePrevLogIndex ?a = ?m" "aeEntries ?a = take 64 (drop ?m (log l))"
    by (simp_all add: sent_def)
  have r: "log_ok f" "currentTerm f \<le> currentTerm l" "logBaseIndex f = 0" "?m \<le> length (log l)"
    using assms(1) by (auto simp: replicating_def)
  have "prev_ok ?a f" using assms by (simp add: sent_prev_ok)
  from HandleAppendEntries_accept [OF r(1) sent_ok [OF assms(1)] _ this, of S now rnd] r(2) obtain reply st notify cm where
    run: "HandleAppendEntries S now rnd ?a f = Some (reply, (accept_leader S now rnd (aeTerm ?a) (aeLeaderID ?a) f)
        \<lparr>log := merge_at ?m (take 64 (drop ?m (log l))) (log f), storage := st, commitIndex := cm, applyNotify := notify\<rparr>)"
      (is "_ = Some (reply, ?f')")
    and s: "arSuccess reply" "arTerm reply = currentTerm l"
      "from_index 1 (merge_at ?m (take 64 (drop ?m (log l))) (log f))"
      "length (merge_at ?m (take 64 (drop ?m (log l))) (log f)) + 1 < 2 ^ 64"
    by (auto simp: a r(3))
  have "agree l ?f' (?m + min 64 (length (log l) - ?m))"
    by (rule merged_agree [OF assms(2) r(4)]) simp
  moreover have "log_ok ?f'" using s(3,4) by (simp add: log_ok_from_index frame_simps r(3))
  ultimately show ?thesis using run s(1,2) r(2,3) by (auto simp: frame_simps a max_absorb2 min.commute)
qed

text \<open>What handling a reply does to the leader.\<close>

lemma leader_backs_off:
  assumes "state l = Leader" "\<not> arSuccess reply" "arTerm reply = currentTerm l" "0 < arConflictIndex reply"
  shows "\<exists>l'. sendAppendEntriesTo_reply S peer (currentTerm l) prev cnt reply l = Some l'
    \<and> log l' = log l \<and> state l' = Leader \<and> currentTerm l' = currentTerm l \<and> logBaseIndex l' = logBaseIndex l
    \<and> next_index l' peer = arConflictIndex reply \<and> matchIndex l' = matchIndex l"
  using assms by (simp add: sendAppendEntriesTo_reply_def next_index_def map_get_def map_of_update)

lemma leader_advances:
  assumes "log_ok l" "logBaseIndex l = 0" "state l = Leader" "arSuccess reply" "arTerm reply = currentTerm l"
    and "prev + cnt \<le> length (log l)"
  shows "\<exists>l'. sendAppendEntriesTo_reply S peer (currentTerm l) prev cnt reply l = Some l'
    \<and> log l' = log l \<and> state l' = Leader \<and> currentTerm l' = currentTerm l \<and> logBaseIndex l' = logBaseIndex l
    \<and> next_index l' peer = prev + cnt + 1 \<and> map_get (matchIndex l') peer = max (map_get (matchIndex l) peer) (prev + cnt)"
proof -
  have u: "u64 (prev + cnt) = prev + cnt" "u64 (prev + cnt + 1) = prev + cnt + 1"
    using assms(1,2,6) by (auto intro!: u64_small simp: log_ok_def)
  let ?l1 = "if prev + cnt > map_get (matchIndex l) peer
     then l\<lparr>matchIndex := AList.update peer (prev + cnt) (matchIndex l)\<rparr> else l"
  let ?l2 = "?l1\<lparr>nextIndex := AList.update peer (prev + cnt + 1) (nextIndex ?l1)\<rparr>"
  have l2: "log_ok ?l2" "state ?l2 = Leader" using assms(1,3) by (auto simp: log_ok_def)
  have "sendAppendEntriesTo_reply S peer (currentTerm l) prev cnt reply l = maybeAdvanceCommitIndexLocked ?l2"
    using assms(3,4,5) by (simp add: sendAppendEntriesTo_reply_def Let_def u [simplified])
  then show ?thesis unfolding maybeAdvance_ok [OF l2]
    by (auto simp: signalApply_def next_index_def map_get_def map_of_update assms(3) max_def split: option.splits)
qed

text \<open>One round: nothing panics, the situation is kept, and a delivered round leaves fewer to do.\<close>

lemma rounds_left_cong:
  assumes "log f' = log f"
  shows "rounds_left peer l f' = rounds_left peer l f"
  using agree_cong [OF refl assms] by (simp add: rounds_left_def caught_up_def)

lemma replicating_peer:
  assumes "replicating peer l f" "log_ok f'" "currentTerm f' = currentTerm l" "logBaseIndex f' = 0"
    and "agree l f' (next_index l peer - 1) \<or> log_matching l f'"
  shows "replicating peer l f'"
  using assms by (simp add: replicating_def)

lemma replicating_leader:
  assumes "replicating peer l f" "log l' = log l" "state l' = Leader" "currentTerm l' = currentTerm l"
    and "logBaseIndex l' = logBaseIndex l" "next_index l' peer \<le> length (log l) + 1"
    and "map_get (matchIndex l') peer \<le> length (log l)" "agree l f (next_index l' peer - 1) \<or> log_matching l f"
  shows "replicating peer l' f"
  using assms agree_cong [of l' l f f] log_matching_cong [of l' l f f] by (simp add: replicating_def log_ok_def)

lemma round_refused:
  assumes r: "replicating peer l f" and no: "\<not> agree l f (next_index l peer - 1)"
  shows "\<exists>l' f'. sendAppendEntriesTo S M peer (now, rnd, d) (l, f) = Some (l', f') \<and> replicating peer l' f' \<and> log l' = log l
    \<and> rounds_left peer l' f' + (if d = Delivered then 1 else 0) \<le> rounds_left peer l f"
proof -
  let ?i = "next_index l peer" and ?N = "length (log l)"
  have m: "log_matching l f" "?i \<le> ?N + 1" "state l = Leader" "map_get (matchIndex l) peer \<le> ?N"
    using r no by (auto simp: replicating_def)
  obtain reply f' where h: "HandleAppendEntries S now rnd (sent peer l) f = Some (reply, f')"
    and f': "log f' = log f" "log_ok f'" "currentTerm f' = currentTerm l" "logBaseIndex f' = 0"
    and rep: "\<not> arSuccess reply" "arTerm reply = currentTerm l" "0 < arConflictIndex reply" "arConflictIndex reply < ?i"
    using peer_refuses [OF assms, of S now rnd] by blast
  have mf: "log_matching l f'" using m(1) log_matching_cong [OF refl f'(1)] by simp
  have rf: "replicating peer l f'" by (rule replicating_peer [OF r f'(2-4)]) (use mf in simp)
  have left: "rounds_left peer l f' = rounds_left peer l f" by (rule rounds_left_cong [OF f'(1)])
  obtain l' where b: "sendAppendEntriesTo_reply S peer (currentTerm l) (?i - 1) (length (aeEntries (sent peer l))) reply l = Some l'"
    and l': "log l' = log l" "state l' = Leader" "currentTerm l' = currentTerm l" "logBaseIndex l' = logBaseIndex l"
      "next_index l' peer = arConflictIndex reply" "matchIndex l' = matchIndex l"
    using leader_backs_off [OF m(3) rep(1-3)] by blast
  have rl: "replicating peer l' f'"
    by (rule replicating_leader [OF rf l'(1-4)]) (use l' rep m mf in auto)
  have "rounds_left peer l f = ?i + (?N + 63) div 64 + 1" using no by (auto simp: rounds_left_def caught_up_def)
  moreover have "(?N + 1 - next_index l' peer + 63) div 64 \<le> (?N + 63) div 64" using l'(5) rep(3) by (intro div_le_mono) simp
  ultimately have less: "rounds_left peer l' f' + 1 \<le> rounds_left peer l f"
    using l'(1,5) rep(3,4) by (auto simp: rounds_left_def)
  have t: "aeTerm (sent peer l) = currentTerm l" "aePrevLogIndex (sent peer l) = ?i - 1" by (simp_all add: sent_def)
  show ?thesis
    by (cases d) (use r rf rl left less l'(1) b in \<open>simp_all add: sendAppendEntriesTo_def replicating_request [OF r] h t\<close>)
qed

lemma batches_left:
  assumes "0 < i" "i \<le> N + 1" "cnt = min 64 (N - (i - 1))" "i + cnt \<noteq> N + 1"
  shows "(N + 1 - (i + cnt) + 63) div 64 + 1 \<le> (N + 1 - i + 63) div (64::nat)"
proof -
  have "cnt = 64" "i + 64 \<le> N" using assms by auto
  then have "N + 1 - i + 63 = (N + 1 - (i + cnt) + 63) + 64" by simp
  then show ?thesis by simp
qed

lemma round_accepted:
  assumes r: "replicating peer l f" and ag: "agree l f (next_index l peer - 1)"
  shows "\<exists>l' f'. sendAppendEntriesTo S M peer (now, rnd, d) (l, f) = Some (l', f') \<and> replicating peer l' f' \<and> log l' = log l
    \<and> rounds_left peer l' f' + (if d = Delivered then 1 else 0) \<le> max 1 (rounds_left peer l f)
    \<and> rounds_left peer l' f' \<le> rounds_left peer l f"
proof -
  let ?i = "next_index l peer" and ?N = "length (log l)" and ?a = "sent peer l"
  let ?c = "length (aeEntries ?a)"
  have m: "?i \<le> ?N + 1" "state l = Leader" "map_get (matchIndex l) peer \<le> ?N" "log_ok l" "logBaseIndex l = 0"
    using r by (auto simp: replicating_def)
  have c: "?c = min 64 (?N - (?i - 1))" by (simp add: sent_def min.commute)
  have ic: "?i - 1 + ?c \<le> ?N" using m(1) c next_index_pos [of l peer] by linarith
  obtain reply f' where h: "HandleAppendEntries S now rnd ?a f = Some (reply, f')"
    and f': "log_ok f'" "currentTerm f' = currentTerm l" "logBaseIndex f' = 0"
    and rep: "arSuccess reply" "arTerm reply = currentTerm l" and ag': "agree l f' (?i - 1 + ?c)"
    using peer_accepts [OF assms, of S now rnd] by blast
  have agf: "agree l f' (?i - 1)" using agree_less [OF ag'] by simp
  have rf: "replicating peer l f'" by (rule replicating_peer [OF r f']) (use agf in simp)
  have left: "rounds_left peer l f' \<le> rounds_left peer l f"
    using ag agf by (auto simp: rounds_left_def caught_up_def)
  obtain l' where b: "sendAppendEntriesTo_reply S peer (currentTerm l) (?i - 1) ?c reply l = Some l'"
    and l': "log l' = log l" "state l' = Leader" "currentTerm l' = currentTerm l" "logBaseIndex l' = logBaseIndex l"
      "next_index l' peer = ?i - 1 + ?c + 1" "map_get (matchIndex l') peer = max (map_get (matchIndex l) peer) (?i - 1 + ?c)"
    using leader_advances [OF m(4,5,2) rep ic] by blast
  have rl: "replicating peer l' f'"
    by (rule replicating_leader [OF rf l'(1-4)]) (use l' m ic ag' in auto)
  have ag2: "agree l' f' (next_index l' peer - 1)" using ag' agree_cong [OF l'(1) refl] l'(5) by simp
  have i: "next_index l' peer = ?i + ?c" using l'(5) next_index_pos [of l peer] by simp
  have less: "rounds_left peer l' f' + 1 \<le> max 1 (rounds_left peer l f) \<and> rounds_left peer l' f' \<le> rounds_left peer l f"
  proof (cases "?i + ?c = ?N + 1")
    case True
    have "?i - 1 + ?c = ?N" using True next_index_pos [of l peer] by linarith
    then have "caught_up peer l' f'" using ag2 l' m(3) by (simp add: caught_up_def)
    then show ?thesis by (simp add: rounds_left_def)
  next
    case False
    have "\<not> caught_up peer l f" using False c by (auto simp: caught_up_def)
    then show ?thesis using batches_left [OF next_index_pos m(1) c False] ag ag2 i l'(1) by (auto simp: rounds_left_def)
  qed
  have t: "aeTerm ?a = currentTerm l" "aePrevLogIndex ?a = ?i - 1" by (simp_all add: sent_def)
  show ?thesis
    by (cases d) (use r rf rl left less l'(1) b in \<open>simp_all add: sendAppendEntriesTo_def replicating_request [OF r] h t\<close>)
qed

lemma round_ok:
  assumes "replicating peer l f"
  shows "\<exists>l' f'. sendAppendEntriesTo S M peer (now, rnd, d) (l, f) = Some (l', f') \<and> replicating peer l' f' \<and> log l' = log l
    \<and> rounds_left peer l' f' \<le> rounds_left peer l f - (if d = Delivered then 1 else 0)"
proof -
  have "\<exists>l' f'. sendAppendEntriesTo S M peer (now, rnd, d) (l, f) = Some (l', f') \<and> replicating peer l' f' \<and> log l' = log l
    \<and> (rounds_left peer l' f' + (if d = Delivered then 1 else 0) \<le> max 1 (rounds_left peer l f)
       \<and> rounds_left peer l' f' \<le> rounds_left peer l f)"
  proof (cases "agree l f (next_index l peer - 1)")
    case True
    from round_accepted [OF assms True] show ?thesis .
  next
    case False
    obtain l' f' where "sendAppendEntriesTo S M peer (now, rnd, d) (l, f) = Some (l', f')" "replicating peer l' f'" "log l' = log l"
      "rounds_left peer l' f' + (if d = Delivered then 1 else 0) \<le> rounds_left peer l f"
      using round_refused [OF assms False] by blast
    then show ?thesis by (intro exI [of _ l'] exI [of _ f']) simp
  qed
  then obtain l' f' where s: "sendAppendEntriesTo S M peer (now, rnd, d) (l, f) = Some (l', f')" "replicating peer l' f'" "log l' = log l"
    and "rounds_left peer l' f' + (if d = Delivered then 1 else 0) \<le> max 1 (rounds_left peer l f)"
    "rounds_left peer l' f' \<le> rounds_left peer l f" by blast
  then have "rounds_left peer l' f' \<le> rounds_left peer l f - (if d = Delivered then 1 else 0)" by (auto simp: max_def split: if_splits)
  with s show ?thesis by blast
qed

lemma loop_ok:
  assumes "replicating peer l f" and "rounds_left peer l f \<le> delivered cs"
  shows "\<exists>l' f'. replicationLoop S M peer cs (l, f) = Some (l', f') \<and> log l' = log l \<and> caught_up peer l' f'"
  using assms
proof (induction cs arbitrary: l f)
  case Nil
  then show ?case by (simp add: delivered_def rounds_left_def split: if_splits)
next
  case (Cons c cs)
  obtain now rnd d where c: "c = (now, rnd, d)" by (rule prod_cases3)
  obtain l' f' where s: "sendAppendEntriesTo S M peer c (l, f) = Some (l', f')" "replicating peer l' f'" "log l' = log l"
    "rounds_left peer l' f' \<le> rounds_left peer l f - (if d = Delivered then 1 else 0)"
    using round_ok [OF Cons.prems(1)] unfolding c by blast
  have "rounds_left peer l' f' \<le> delivered cs" using s(4) Cons.prems(2) by (auto simp: c delivered_def split: if_splits)
  from Cons.IH [OF s(2) this] s(1,3) show ?case by simp
qed

section \<open>Catching up\<close>


text \<open>A peer that has 90 entries, the last ten of an older term, against a leader with 100 entries.\<close>

definition sample_peer :: "(unit, bytes list) Node" where
  "sample_peer = sample_node 0 (sample_log 0 (\<lambda>_. 2) 90)"


end
