(* ===== verification/Json.thy ===== *)
theory Json
  imports Prelude
begin

text \<open>
  What the program uses of \<^verbatim>\<open>encoding/json\<close> and \<^verbatim>\<open>encoding/base64\<close>: \<^verbatim>\<open>Marshal\<close>'s text for
  values (string escaping with HTML escapes, invalid UTF-8 replaced), the grammar \<^verbatim>\<open>Unmarshal\<close>
  accepts, and the way struct fields are found in an object.  A number is kept as its literal,
  as the decoder keeps it until it knows the target type.  The limit on nesting depth is not
  modelled.  The round trip holds for ASCII strings.
\<close>

section \<open>Runes\<close>

definition code :: "char \<Rightarrow> nat" where
  "code c = of_char c"

definition chr :: "nat \<Rightarrow> char" where
  "chr n = char_of n"

lemma code_chr [simp]: "n < 256 \<Longrightarrow> code (chr n) = n"
  by (simp add: code_def chr_def)

lemma chr_code [simp]: "chr (code c) = c"
  by (simp add: code_def chr_def)

lemma code_less [simp]: "code c < 256"
  by (simp add: code_def)

text \<open>\<^verbatim>\<open>utf8.DecodeRune\<close>: \<open>None\<close> for an invalid sequence, which counts for one byte.\<close>

definition cont :: "nat \<Rightarrow> nat \<Rightarrow> char \<Rightarrow> bool" where
  "cont lo hi c \<longleftrightarrow> lo \<le> code c \<and> code c \<le> hi"

fun decode_rune :: "string \<Rightarrow> (nat \<times> nat) option" where
  "decode_rune [] = None"
| "decode_rune (c # r) =
     (let b = code c in
      if b < 128 then Some (b, 1)
      else if 194 \<le> b \<and> b \<le> 223 then
        (case r of c1 # _ \<Rightarrow>
           if cont 128 191 c1 then Some ((b - 192) * 64 + (code c1 - 128), 2) else None | _ \<Rightarrow> None)
      else if 224 \<le> b \<and> b \<le> 239 then
        (case r of c1 # c2 # _ \<Rightarrow>
           if cont (if b = 224 then 160 else 128) (if b = 237 then 159 else 191) c1 \<and> cont 128 191 c2
           then Some ((b - 224) * 4096 + (code c1 - 128) * 64 + (code c2 - 128), 3) else None | _ \<Rightarrow> None)
      else if 240 \<le> b \<and> b \<le> 244 then
        (case r of c1 # c2 # c3 # _ \<Rightarrow>
           if cont (if b = 240 then 144 else 128) (if b = 244 then 143 else 191) c1 \<and> cont 128 191 c2 \<and> cont 128 191 c3
           then Some ((b - 240) * 262144 + (code c1 - 128) * 4096 + (code c2 - 128) * 64 + (code c3 - 128), 4)
           else None | _ \<Rightarrow> None)
      else None)"

text \<open>\<^verbatim>\<open>utf8.AppendRune\<close>; a surrogate half or a value out of range becomes U+FFFD.\<close>

definition encode_rune :: "nat \<Rightarrow> string" where
  "encode_rune r0 =
     (let r = (if r0 > 1114111 \<or> 55296 \<le> r0 \<and> r0 \<le> 57343 then 65533 else r0) in
      if r < 128 then [chr r]
      else if r < 2048 then [chr (192 + r div 64), chr (128 + r mod 64)]
      else if r < 65536 then [chr (224 + r div 4096), chr (128 + r div 64 mod 64), chr (128 + r mod 64)]
      else [chr (240 + r div 262144), chr (128 + r div 4096 mod 64), chr (128 + r div 64 mod 64), chr (128 + r mod 64)])"

section \<open>Strings\<close>

definition hex_char :: "nat \<Rightarrow> char" where
  "hex_char d = (if d < 10 then chr (48 + d) else chr (87 + d))"

definition hex_val :: "char \<Rightarrow> nat option" where
  "hex_val c =
     (if cont 48 57 c then Some (code c - 48)
      else if cont 97 102 c then Some (code c - 87)
      else if cont 65 70 c then Some (code c - 55)
      else None)"

definition quote :: char where "quote = CHR 0x22"
definition backslash :: char where "backslash = CHR 0x5C"

text \<open>One byte below 128.\<close>

definition escape_ascii :: "char \<Rightarrow> string" where
  "escape_ascii c =
     (let b = code c in
      if b = 34 \<or> b = 92 then [backslash, c]
      else if b = 8 then [backslash, CHR ''b'']
      else if b = 12 then [backslash, CHR ''f'']
      else if b = 10 then [backslash, CHR ''n'']
      else if b = 13 then [backslash, CHR ''r'']
      else if b = 9 then [backslash, CHR ''t'']
      else if b < 32 \<or> b = 60 \<or> b = 62 \<or> b = 38
        then [backslash, CHR ''u'', CHR ''0'', CHR ''0'', hex_char (b div 16), hex_char (b mod 16)]
      else [c])"

function escape :: "string \<Rightarrow> string" where
  "escape [] = []"
| "escape (c # r) =
     (if code c < 128 then escape_ascii c @ escape r
      else case decode_rune (c # r) of
             None \<Rightarrow> backslash # ''ufffd'' @ escape r
           | Some (rune, n) \<Rightarrow>
               (if rune = 8232 then backslash # ''u2028''
                else if rune = 8233 then backslash # ''u2029''
                else take n (c # r)) @ escape (drop (n - 1) r))"
  by pat_completeness auto
termination
  by (relation "measure length") auto

definition print_string :: "string \<Rightarrow> string" where
  "print_string s = quote # escape s @ [quote]"

fun hex4 :: "string \<Rightarrow> (nat \<times> string) option" where
  "hex4 (a # b # c # d # r) =
     (case (hex_val a, hex_val b, hex_val c, hex_val d) of
        (Some x, Some y, Some z, Some w) \<Rightarrow> Some (((x * 16 + y) * 16 + z) * 16 + w, r)
      | _ \<Rightarrow> None)"
| "hex4 _ = None"

lemma hex4_length: "hex4 s = Some (n, r) \<Longrightarrow> length s = length r + 4"
  by (induction s rule: hex4.induct) (auto split: option.splits)

text \<open>After \<^verbatim>\<open>\u\<close>: a surrogate pair is one rune, a lone surrogate is replaced.\<close>

definition parse_u :: "string \<Rightarrow> (string \<times> string) option" where
  "parse_u s =
     (case hex4 s of
        None \<Rightarrow> None
      | Some (n, r) \<Rightarrow>
         (case r of
            b # u # r1 \<Rightarrow>
              if 55296 \<le> n \<and> n \<le> 56319 \<and> b = backslash \<and> u = CHR ''u'' then
                (case hex4 r1 of
                   Some (m, r2) \<Rightarrow>
                     if 56320 \<le> m \<and> m \<le> 57343
                     then Some (encode_rune ((n - 55296) * 1024 + (m - 56320) + 65536), r2)
                     else Some (encode_rune n, r)
                 | None \<Rightarrow> Some (encode_rune n, r))
              else Some (encode_rune n, r)
          | _ \<Rightarrow> Some (encode_rune n, r)))"

lemma parse_u_length: "parse_u s = Some (x, r) \<Longrightarrow> length r < length s"
  by (auto simp: parse_u_def dest!: hex4_length split: option.splits list.splits if_splits)

definition unescape :: "char \<Rightarrow> char option" where
  "unescape c =
     (if c = quote \<or> c = backslash \<or> c = CHR ''/'' then Some c
      else if c = CHR ''b'' then Some (chr 8)
      else if c = CHR ''f'' then Some (chr 12)
      else if c = CHR ''n'' then Some (chr 10)
      else if c = CHR ''r'' then Some (chr 13)
      else if c = CHR ''t'' then Some (chr 9)
      else None)"

text \<open>The rest of a string literal after the opening quote, and what follows the literal.\<close>

function parse_string :: "string \<Rightarrow> (string \<times> string) option" where
  "parse_string [] = None"
| "parse_string (c # r) =
     (if c = quote then Some ([], r)
      else if code c < 32 then None
      else if c = backslash then
        (case r of
           [] \<Rightarrow> None
         | e # r1 \<Rightarrow>
             if e = CHR ''u'' then
               (case parse_u r1 of
                  None \<Rightarrow> None
                | Some (x, r2) \<Rightarrow> map_option (\<lambda>(s, t). (x @ s, t)) (parse_string r2))
             else (case unescape e of
                     None \<Rightarrow> None
                   | Some x \<Rightarrow> map_option (\<lambda>(s, t). (x # s, t)) (parse_string r1)))
      else if code c < 128 then map_option (\<lambda>(s, t). (c # s, t)) (parse_string r)
      else case decode_rune (c # r) of
             None \<Rightarrow> map_option (\<lambda>(s, t). (encode_rune 65533 @ s, t)) (parse_string r)
           | Some (_, n) \<Rightarrow>
               map_option (\<lambda>(s, t). (take n (c # r) @ s, t)) (parse_string (drop (n - 1) r)))"
  by pat_completeness auto
termination
  by (relation "measure length") (auto dest!: parse_u_length)

declare parse_string.simps(2) [simp del] escape.simps(2) [simp del]

definition ascii :: "string \<Rightarrow> bool" where
  "ascii s \<longleftrightarrow> (\<forall>c \<in> set s. code c < 128)"

lemma ascii_simps [simp]: "ascii []" "ascii (c # s) \<longleftrightarrow> code c < 128 \<and> ascii s" "ascii (s @ t) \<longleftrightarrow> ascii s \<and> ascii t"
  by (auto simp: ascii_def)

lemma code_special [simp]: "code quote = 34" "code backslash = 92" "code (CHR ''u'') = 117"
  by (simp_all add: quote_def backslash_def code_def)

lemma code_eq_iff: "code c = code d \<longleftrightarrow> c = d"
  by (metis chr_code)

lemma special_neq [simp]: "quote \<noteq> CHR ''u''" "backslash \<noteq> CHR ''u''" "quote \<noteq> backslash" "backslash \<noteq> quote" "CHR ''u'' \<noteq> quote" "CHR ''u'' \<noteq> backslash"
  by (simp_all add: quote_def backslash_def)

lemma hex_val_char: "d < 16 \<Longrightarrow> hex_val (hex_char d) = Some d"
  by (auto simp: hex_val_def hex_char_def cont_def)

lemma hex4_escape:
  "b < 128 \<Longrightarrow> hex4 (CHR ''0'' # CHR ''0'' # hex_char (b div 16) # hex_char (b mod 16) # r) = Some (b, r)"
  by (simp add: hex_val_char hex_val_def [of "CHR ''0''"] cont_def) (simp add: code_def)

lemma parse_u_ascii:
  assumes "b < 128"
  shows "parse_u (CHR ''0'' # CHR ''0'' # hex_char (b div 16) # hex_char (b mod 16) # r) = Some ([chr b], r)"
  unfolding parse_u_def hex4_escape [OF assms] using assms by (auto simp: encode_rune_def split: list.splits)

lemma unescape_short:
  "unescape (CHR ''b'') = Some (chr 8)" "unescape (CHR ''f'') = Some (chr 12)" "unescape (CHR ''n'') = Some (chr 10)"
  "unescape (CHR ''r'') = Some (chr 13)" "unescape (CHR ''t'') = Some (chr 9)"
  "unescape quote = Some quote" "unescape backslash = Some backslash"
  by (simp_all add: unescape_def quote_def backslash_def chr_def)

lemma parse_escape_char:
  assumes "code c < 128"
  shows "parse_string (escape_ascii c @ r) = map_option (\<lambda>(s, t). (c # s, t)) (parse_string r)"
proof -
  have c: "c = chr (code c)" by simp
  have u: "parse_string (backslash # CHR ''u'' # CHR ''0'' # CHR ''0'' # hex_char (code c div 16) # hex_char (code c mod 16) # r)
      = map_option (\<lambda>(s, t). (c # s, t)) (parse_string r)"
    using parse_u_ascii [OF assms, of r] by (simp add: parse_string.simps(2))
  have e: "parse_string (backslash # e # r) = map_option (\<lambda>(s, t). (x # s, t)) (parse_string r)"
    if "unescape e = Some x" "e \<noteq> CHR ''u''" for e x
    using that by (simp add: parse_string.simps(2))
  have q: "code c = 34 \<Longrightarrow> c = quote" "code c = 92 \<Longrightarrow> c = backslash" by (metis code_eq_iff code_special)+
  have short: "code c = n \<Longrightarrow> c = chr n" for n by auto
  consider "code c = 34" | "code c = 92" | "code c = 8" | "code c = 12" | "code c = 10" | "code c = 13" | "code c = 9"
    | "code c \<notin> {34, 92, 8, 12, 10, 13, 9}" "code c < 32 \<or> code c = 60 \<or> code c = 62 \<or> code c = 38"
    | "code c \<notin> {34, 92, 8, 12, 10, 13, 9}" "\<not> (code c < 32 \<or> code c = 60 \<or> code c = 62 \<or> code c = 38)" by blast
  then show ?thesis
  proof cases
    case 1
    then have "c = quote" by (rule q)
    then show ?thesis by (simp add: escape_ascii_def e unescape_short)
  next
    case 2
    then have "c = backslash" by (rule q)
    then show ?thesis by (simp add: escape_ascii_def e unescape_short)
  next
    case 9
    then have "c \<noteq> quote" "c \<noteq> backslash" by auto
    with 9 assms show ?thesis by (simp add: escape_ascii_def parse_string.simps(2))
  next
    case 8
    then have "escape_ascii c @ r = backslash # CHR ''u'' # CHR ''0'' # CHR ''0'' # hex_char (code c div 16) # hex_char (code c mod 16) # r"
      by (simp add: escape_ascii_def Let_def)
    then show ?thesis using u by presburger
  qed (drule short, simp add: escape_ascii_def e unescape_short)+
qed

lemma parse_escape:
  "ascii s \<Longrightarrow> parse_string (escape s @ quote # rest) = Some (s, rest)"
proof (induction s)
  case Nil
  then show ?case by (simp add: parse_string.simps(2))
next
  case (Cons c s)
  then show ?case by (simp add: escape.simps(2) parse_escape_char)
qed

section \<open>Values\<close>

datatype json = JNull | JBool bool | JNum string | JStr string | JArr "json list" | JObj "(string \<times> json) list"

fun comma_sep :: "string list \<Rightarrow> string" where
  "comma_sep [] = []"
| "comma_sep [x] = x"
| "comma_sep (x # y # zs) = x @ CHR '','' # comma_sep (y # zs)"

text \<open>\<^verbatim>\<open>Marshal\<close>.\<close>

fun json_print :: "json \<Rightarrow> string" where
  "json_print JNull = ''null''"
| "json_print (JBool b) = (if b then ''true'' else ''false'')"
| "json_print (JNum l) = l"
| "json_print (JStr s) = print_string s"
| "json_print (JArr vs) = ''['' @ comma_sep (map json_print vs) @ '']''"
| "json_print (JObj ms) = ''{'' @ comma_sep (map (\<lambda>(k, v). print_string k @ '':'' @ json_print v) ms) @ ''}''"

definition is_ws :: "char \<Rightarrow> bool" where
  "is_ws c \<longleftrightarrow> code c = 32 \<or> code c = 9 \<or> code c = 13 \<or> code c = 10"

definition skip_ws :: "string \<Rightarrow> string" where
  "skip_ws s = dropWhile is_ws s"

definition digit :: "char \<Rightarrow> bool" where
  "digit c \<longleftrightarrow> cont 48 57 c"

text \<open>The number grammar, one part after the other; each part returns its text and the rest.\<close>

definition scan_digits :: "string \<Rightarrow> (string \<times> string) option" where
  "scan_digits s = (let ds = takeWhile digit s in if ds = [] then None else Some (ds, drop (length ds) s))"

definition scan_int :: "string \<Rightarrow> (string \<times> string) option" where
  "scan_int s =
     (case s of
        c # r \<Rightarrow> if c = CHR ''0'' then Some ([c], r) else scan_digits s
      | [] \<Rightarrow> None)"

definition scan_frac :: "string \<Rightarrow> (string \<times> string) option" where
  "scan_frac s =
     (case s of
        c # r \<Rightarrow> if c = CHR ''.'' then map_option (\<lambda>(ds, r). (c # ds, r)) (scan_digits r) else Some ([], s)
      | [] \<Rightarrow> Some ([], s))"

definition scan_exp :: "string \<Rightarrow> (string \<times> string) option" where
  "scan_exp s =
     (case s of
        c # r \<Rightarrow>
          if c = CHR ''e'' \<or> c = CHR ''E'' then
            (case r of
               g # r1 \<Rightarrow>
                 if g = CHR ''+'' \<or> g = CHR ''-'' then map_option (\<lambda>(ds, r). (c # g # ds, r)) (scan_digits r1)
                 else map_option (\<lambda>(ds, r). (c # ds, r)) (scan_digits r)
             | [] \<Rightarrow> None)
          else Some ([], s)
      | [] \<Rightarrow> Some ([], s))"

definition parse_number :: "string \<Rightarrow> (string \<times> string) option" where
  "parse_number s =
     (let (sign, s1) = (case s of c # r \<Rightarrow> if c = CHR ''-'' then ([c], r) else ([], s) | [] \<Rightarrow> ([], s))
      in case scan_int s1 of None \<Rightarrow> None | Some (i, s2) \<Rightarrow>
        (case scan_frac s2 of None \<Rightarrow> None | Some (f, s3) \<Rightarrow>
        (case scan_exp s3 of None \<Rightarrow> None | Some (e, s4) \<Rightarrow> Some (sign @ i @ f @ e, s4))))"

text \<open>Arrays and objects after the opening bracket, with the parser of the values inside.\<close>

primrec parse_elems :: "(string \<Rightarrow> (json \<times> string) option) \<Rightarrow> nat \<Rightarrow> string \<Rightarrow> (json list \<times> string) option" where
  "parse_elems pv 0 s = None"
| "parse_elems pv (Suc f) s =
     (case pv s of
        None \<Rightarrow> None
      | Some (v, r) \<Rightarrow>
         (case skip_ws r of
            d # r1 \<Rightarrow> if d = CHR '']'' then Some ([v], r1)
                      else if d = CHR '','' then map_option (\<lambda>(vs, t). (v # vs, t)) (parse_elems pv f r1)
                      else None
          | [] \<Rightarrow> None))"

definition parse_member :: "(string \<Rightarrow> (json \<times> string) option) \<Rightarrow> string \<Rightarrow> ((string \<times> json) \<times> string) option" where
  "parse_member pv s =
     (case skip_ws s of
        [] \<Rightarrow> None
      | c # r \<Rightarrow>
         if c \<noteq> quote then None
         else case parse_string r of
           None \<Rightarrow> None
         | Some (k, r1) \<Rightarrow>
            (case skip_ws r1 of
               [] \<Rightarrow> None
             | d # r2 \<Rightarrow> if d \<noteq> CHR '':'' then None else map_option (\<lambda>(v, r3). ((k, v), r3)) (pv r2)))"

primrec parse_members ::
  "(string \<Rightarrow> (json \<times> string) option) \<Rightarrow> nat \<Rightarrow> string \<Rightarrow> ((string \<times> json) list \<times> string) option" where
  "parse_members pv 0 s = None"
| "parse_members pv (Suc f) s =
     (case parse_member pv s of
        None \<Rightarrow> None
      | Some (m, r) \<Rightarrow>
         (case skip_ws r of
            d # r1 \<Rightarrow> if d = CHR ''}'' then Some ([m], r1)
                      else if d = CHR '','' then map_option (\<lambda>(ms, t). (m # ms, t)) (parse_members pv f r1)
                      else None
          | [] \<Rightarrow> None))"

definition parse_compound :: "(string \<Rightarrow> (json \<times> string) option) \<Rightarrow> nat \<Rightarrow> char \<Rightarrow> string \<Rightarrow> (json \<times> string) option" where
  "parse_compound pv f c r =
     (case skip_ws r of
        [] \<Rightarrow> None
      | d # r1 \<Rightarrow>
          if c = CHR ''{'' then
            (if d = CHR ''}'' then Some (JObj [], r1) else map_option (\<lambda>(ms, t). (JObj ms, t)) (parse_members pv f r))
          else
            (if d = CHR '']'' then Some (JArr [], r1) else map_option (\<lambda>(vs, t). (JArr vs, t)) (parse_elems pv f r)))"

primrec parse_value :: "nat \<Rightarrow> string \<Rightarrow> (json \<times> string) option" where
  "parse_value 0 s = None"
| "parse_value (Suc f) s =
     (case skip_ws s of
        [] \<Rightarrow> None
      | c # r \<Rightarrow>
          if c = CHR ''{'' \<or> c = CHR ''['' then parse_compound (parse_value f) f c r
          else if c = quote then map_option (\<lambda>(x, t). (JStr x, t)) (parse_string r)
          else if prefix ''null'' (c # r) then Some (JNull, drop 4 (c # r))
          else if prefix ''true'' (c # r) then Some (JBool True, drop 4 (c # r))
          else if prefix ''false'' (c # r) then Some (JBool False, drop 5 (c # r))
          else map_option (\<lambda>(l, t). (JNum l, t)) (parse_number (c # r)))"

text \<open>Every value takes at least one character, so the length of the text is fuel enough.\<close>

definition json_parse :: "string \<Rightarrow> json option" where
  "json_parse s =
     (case parse_value (length s + 1) s of
        Some (v, r) \<Rightarrow> if skip_ws r = [] then Some v else None
      | None \<Rightarrow> None)"

section \<open>The round trip\<close>

text \<open>Integer literals as \<^verbatim>\<open>strconv\<close> prints them.\<close>

definition digits_ok :: "string \<Rightarrow> bool" where
  "digits_ok l \<longleftrightarrow> l \<noteq> [] \<and> list_all digit l \<and> (hd l = CHR ''0'' \<longrightarrow> l = ''0'')"

definition int_literal :: "string \<Rightarrow> bool" where
  "int_literal l \<longleftrightarrow> digits_ok l \<or> (\<exists>ds. l = CHR ''-'' # ds \<and> digits_ok ds)"

fun json_ok :: "json \<Rightarrow> bool" where
  "json_ok JNull = True"
| "json_ok (JBool b) = True"
| "json_ok (JNum l) = int_literal l"
| "json_ok (JStr s) = ascii s"
| "json_ok (JArr vs) = list_all json_ok vs"
| "json_ok (JObj ms) = list_all (\<lambda>(k, v). ascii k \<and> json_ok v) ms"

definition ends_value :: "string \<Rightarrow> bool" where
  "ends_value r \<longleftrightarrow> r = [] \<or> hd r \<in> set '',]}''"

lemma digit_cases: "digit c \<Longrightarrow> c \<in> set ''0123456789''"
proof -
  assume "digit c"
  then have "code c \<in> set [48..<58]" unfolding set_upt by (simp add: digit_def cont_def del: upt_rec_numeral)
  then have "c \<in> chr ` set [48..<58]" by (metis chr_code imageI)
  then show ?thesis by (simp add: upt_rec chr_def char_of_def bit_0)
qed

lemma scan_digits_ok:
  assumes "list_all digit ds" and "ds \<noteq> []" and "ends_value r"
  shows "scan_digits (ds @ r) = Some (ds, r)"
proof -
  have "takeWhile digit r = []"
    using assms(3) by (cases r) (auto simp: ends_value_def digit_def cont_def code_def)
  with assms(1) have "takeWhile digit (ds @ r) = ds"
    by (simp add: list_all_iff takeWhile_append)
  with assms(2) show ?thesis by (simp add: scan_digits_def)
qed

lemma scan_int_ok:
  assumes "digits_ok ds" and "ends_value r"
  shows "scan_int (ds @ r) = Some (ds, r)"
proof (cases "hd ds = CHR ''0''")
  case True
  with assms(1) show ?thesis by (simp add: digits_ok_def scan_int_def)
next
  case False
  with assms scan_digits_ok [of ds r] show ?thesis
    by (cases ds) (simp_all add: digits_ok_def scan_int_def)
qed

lemma scan_tail_ok: "ends_value r \<Longrightarrow> scan_frac r = Some ([], r) \<and> scan_exp r = Some ([], r)"
  by (cases r) (auto simp: ends_value_def scan_frac_def scan_exp_def)

lemma parse_number_ok:
  assumes "int_literal l" and "ends_value r"
  shows "parse_number (l @ r) = Some (l, r)"
proof -
  consider "digits_ok l" | ds where "l = CHR ''-'' # ds" "digits_ok ds" using assms(1) int_literal_def by blast
  then show ?thesis
  proof cases
    case 1
    then obtain c t where l: "l = c # t" "digit c" by (cases l) (auto simp: digits_ok_def)
    then have "c \<noteq> CHR ''-''" by (auto simp: digit_def cont_def code_def)
    with l scan_int_ok [OF 1 assms(2)] scan_tail_ok [OF assms(2)] show ?thesis by (simp add: parse_number_def)
  next
    case 2
    with scan_int_ok [OF 2(2) assms(2)] scan_tail_ok [OF assms(2)] show ?thesis by (simp add: parse_number_def)
  qed
qed

lemma digits_hd: "digits_ok l \<Longrightarrow> \<exists>c t. l = c # t \<and> c \<in> set ''0123456789''"
  by (cases l) (auto simp: digits_ok_def dest!: digit_cases)

definition starts_value :: "char \<Rightarrow> bool" where
  "starts_value c \<longleftrightarrow> c \<in> set (quote # ''ntf[{-0123456789'')"

lemma digits_start: "digits_ok l \<Longrightarrow> \<exists>c t. l = c # t \<and> starts_value c"
proof -
  assume "digits_ok l"
  then obtain c t where "l = c # t" "c \<in> set ''0123456789''" using digits_hd by blast
  then show ?thesis unfolding starts_value_def by (intro exI [of _ c] exI [of _ t]) simp
qed

lemma print_start:
  assumes "json_ok j"
  shows "\<exists>c t. json_print j = c # t \<and> starts_value c"
proof (cases j)
  case (JNum l)
  with assms consider "digits_ok l" | ds where "l = CHR ''-'' # ds" by (auto simp: int_literal_def)
  then show ?thesis using JNum digits_start [of l] by cases (simp_all add: starts_value_def)
qed (simp_all add: print_string_def starts_value_def)

lemma skip_ws_Cons [simp]: "\<not> is_ws c \<Longrightarrow> skip_ws (c # r) = c # r" "skip_ws [] = []"
  by (simp_all add: skip_ws_def)

lemma starts_not_ws: "starts_value c \<Longrightarrow> \<not> is_ws c \<and> c \<noteq> CHR '']'' \<and> c \<noteq> CHR ''}''"
  unfolding starts_value_def by (auto simp: is_ws_def quote_def code_def)

lemma skip_ws_print [simp]: "json_ok j \<Longrightarrow> skip_ws (json_print j @ r) = json_print j @ r"
  using print_start [of j] starts_not_ws by fastforce

lemma punct_not_ws [simp]:
  "\<not> is_ws (CHR '','')" "\<not> is_ws (CHR '']'')" "\<not> is_ws (CHR ''}'')" "\<not> is_ws (CHR '':'')" "\<not> is_ws quote"
  "\<not> is_ws (CHR ''['')" "\<not> is_ws (CHR ''{'')"
  by (auto simp: is_ws_def quote_def code_def)

lemma ends_punct [simp]: "ends_value (CHR '','' # r)" "ends_value (CHR '']'' # r)" "ends_value (CHR ''}'' # r)"
  by (simp_all add: ends_value_def)

lemma comma_sep_member: "x \<in> set xs \<Longrightarrow> length x \<le> length (comma_sep xs)"
  by (induction xs rule: comma_sep.induct) auto

lemma comma_sep_count: "\<forall>x \<in> set xs. x \<noteq> [] \<Longrightarrow> length xs \<le> length (comma_sep xs)"
  by (induction xs rule: comma_sep.induct) (auto simp: Suc_le_eq dest: length_greater_0_conv [THEN iffD2])

lemma parse_elems_ok:
  assumes "vs \<noteq> []" and "length vs \<le> f"
    and "\<And>v r. v \<in> set vs \<Longrightarrow> ends_value r \<Longrightarrow> pv (json_print v @ r) = Some (v, r)"
  shows "parse_elems pv f (comma_sep (map json_print vs) @ CHR '']'' # rest) = Some (vs, rest)"
  using assms
proof (induction vs arbitrary: f)
  case (Cons v vs)
  obtain g where g: "f = Suc g" using Cons.prems(2) by (cases f) auto
  show ?case
  proof (cases vs)
    case Nil
    with Cons.prems g show ?thesis by simp
  next
    case (Cons w ws)
    with Cons.IH [of g] Cons.prems g show ?thesis by simp
  qed
qed simp

abbreviation print_member :: "string \<times> json \<Rightarrow> string" where
  "print_member \<equiv> \<lambda>(k, v). print_string k @ '':'' @ json_print v"

lemma parse_member_ok:
  assumes "ascii k" and "pv (json_print v @ r) = Some (v, r)"
  shows "parse_member pv (print_member (k, v) @ r) = Some ((k, v), r)"
  using assms parse_escape [OF assms(1), of "CHR '':'' # json_print v @ r"]
  by (simp add: parse_member_def print_string_def)

lemma parse_members_ok:
  assumes "ms \<noteq> []" and "length ms \<le> f"
    and "\<And>k v r. (k, v) \<in> set ms \<Longrightarrow> ends_value r \<Longrightarrow> ascii k \<and> pv (json_print v @ r) = Some (v, r)"
  shows "parse_members pv f (comma_sep (map print_member ms) @ CHR ''}'' # rest) = Some (ms, rest)"
  using assms
proof (induction ms arbitrary: f)
  case (Cons m ms)
  obtain g where g: "f = Suc g" using Cons.prems(2) by (cases f) auto
  obtain k v where m: "m = (k, v)" by (cases m)
  have one: "parse_member pv (print_member m @ r) = Some (m, r)" if "ends_value r" for r
    using Cons.prems(3) [of k v r] that m parse_member_ok [of k pv v r] by simp
  show ?case
  proof (cases ms)
    case Nil
    with one [of "CHR ''}'' # rest"] g show ?thesis by simp
  next
    case (Cons w ws)
    have "parse_members pv g (comma_sep (map print_member ms) @ CHR ''}'' # rest) = Some (ms, rest)"
      by (rule Cons.IH) (use Cons Cons.prems g in auto)
    with one [of "CHR '','' # comma_sep (map print_member ms) @ CHR ''}'' # rest"] g Cons show ?thesis by simp
  qed
qed simp

lemma print_nonempty: "json_ok j \<Longrightarrow> json_print j \<noteq> []"
  using print_start [of j] by auto

definition num_char :: "char \<Rightarrow> bool" where
  "num_char c \<longleftrightarrow> c \<in> set ''-0123456789''"

lemma int_literal_hd: "int_literal l \<Longrightarrow> \<exists>c t. l = c # t \<and> num_char c"
proof -
  assume "int_literal l"
  then consider ds where "l = CHR ''-'' # ds" | c t where "l = c # t" "c \<in> set ''0123456789''"
    unfolding int_literal_def using digits_hd by blast
  then show ?thesis by cases (simp_all add: num_char_def)
qed

lemma num_char_neq:
  "num_char c \<Longrightarrow> c \<noteq> quote \<and> c \<notin> set ''{[ntf'' \<and> \<not> is_ws c"
  unfolding num_char_def by (auto simp: quote_def is_ws_def code_def)

lemma comma_sep_hd: "xs \<noteq> [] \<Longrightarrow> hd xs = c # t \<Longrightarrow> \<exists>r. comma_sep xs = c # r"
  by (cases xs rule: comma_sep.cases) auto

lemma parse_print:
  assumes "json_ok j" and "ends_value rest" and "length (json_print j) < f"
  shows "parse_value f (json_print j @ rest) = Some (j, rest)"
  using assms
proof (induction j arbitrary: f rest)
  case (JNum l)
  obtain g where g: "f = Suc g" using JNum.prems(3) by (cases f) auto
  from JNum.prems(1) have "int_literal l" by simp
  then obtain c t where l: "l = c # t" "num_char c" using int_literal_hd by blast
  have "parse_number (c # t @ rest) = Some (l, rest)" using parse_number_ok [of l rest] JNum.prems l by simp
  with l g num_char_neq [OF l(2)] show ?case by auto
next
  case (JStr s)
  obtain g where "f = Suc g" using JStr.prems(3) by (cases f) auto
  with JStr parse_escape [of s rest] show ?case by (simp add: print_string_def) (simp add: quote_def)
next
  case (JArr vs)
  obtain g where g: "f = Suc g" using JArr.prems(3) by (cases f) auto
  show ?case
  proof (cases "vs = []")
    case False
    have ok: "\<forall>v \<in> set vs. json_ok v" using JArr.prems(1) by (simp add: list_all_iff)
    have len: "length vs \<le> g"
      using comma_sep_count [of "map json_print vs"] JArr.prems(3) ok g by (auto simp: print_nonempty)
    have each: "length (json_print v) < g" if "v \<in> set vs" for v
      using comma_sep_member [of "json_print v" "map json_print vs"] that JArr.prems(3) g by simp
    have "parse_elems (parse_value g) g (comma_sep (map json_print vs) @ CHR '']'' # rest) = Some (vs, rest)"
      by (rule parse_elems_ok [OF False len]) (use JArr.IH ok each in auto)
    moreover obtain c t where c: "comma_sep (map json_print vs) = c # t" "starts_value c"
      using False ok print_start [of "hd vs"] comma_sep_hd [of "map json_print vs"] by (auto simp: hd_map)
    ultimately show ?thesis using g starts_not_ws [OF c(2)] by (simp add: parse_compound_def is_ws_def code_def)
  qed (simp add: g parse_compound_def is_ws_def code_def)
next
  case (JObj ms)
  obtain g where g: "f = Suc g" using JObj.prems(3) by (cases f) auto
  show ?case
  proof (cases "ms = []")
    case False
    have ok: "ascii k \<and> json_ok v" if "(k, v) \<in> set ms" for k v using JObj.prems(1) that by (auto simp: list_all_iff)
    have len: "length ms \<le> g"
      using comma_sep_count [of "map print_member ms"] JObj.prems(3) g
      by (simp add: print_string_def split_beta)
    have each: "length (json_print v) < g" if "(k, v) \<in> set ms" for k v
      using comma_sep_member [of "print_member (k, v)" "map print_member ms"] imageI [OF that, of print_member] JObj.prems(3) g by simp
    have "parse_members (parse_value g) g (comma_sep (map print_member ms) @ CHR ''}'' # rest) = Some (ms, rest)"
      by (rule parse_members_ok [OF False len]) (use JObj.IH ok each in \<open>auto simp: snds.simps\<close>)
    moreover obtain t where c: "comma_sep (map print_member ms) = quote # t"
      using False comma_sep_hd [of "map print_member ms"] by (cases "hd ms") (auto simp: hd_map print_string_def)
    moreover have "quote \<noteq> CHR ''}''" by (simp add: quote_def)
    ultimately show ?thesis using g by (simp add: parse_compound_def)
  qed (simp add: g parse_compound_def is_ws_def code_def)
qed (auto simp: gr0_conv_Suc is_ws_def code_def quote_def dest!: less_imp_Suc_add)

lemma json_parse_print: "json_ok j \<Longrightarrow> json_parse (json_print j) = Some j"
  using parse_print [of j "[]" "length (json_print j) + 1"] by (simp add: json_parse_def ends_value_def)

section \<open>Numbers\<close>

text \<open>\<^verbatim>\<open>strconv\<close>'s decimal digits, and \<^verbatim>\<open>ParseUint\<close> and \<^verbatim>\<open>ParseInt\<close> at a given width.\<close>

fun print_nat :: "nat \<Rightarrow> string" where
  "print_nat n = (if n < 10 then [chr (48 + n)] else print_nat (n div 10) @ [chr (48 + n mod 10)])"

declare print_nat.simps [simp del]

definition nat_of_digits :: "string \<Rightarrow> nat" where
  "nat_of_digits ds = foldl (\<lambda>a c. a * 10 + (code c - 48)) 0 ds"

definition print_int :: "int \<Rightarrow> string" where
  "print_int i = (if i < 0 then CHR ''-'' # print_nat (nat (- i)) else print_nat (nat i))"

definition parse_uint :: "nat \<Rightarrow> string \<Rightarrow> nat option" where
  "parse_uint w l =
     (if l \<noteq> [] \<and> list_all digit l \<and> nat_of_digits l < 2 ^ w then Some (nat_of_digits l) else None)"

definition parse_int64 :: "string \<Rightarrow> int option" where
  "parse_int64 l =
     (let neg = (l \<noteq> [] \<and> hd l = CHR ''-''); ds = (if neg then tl l else l)
      in if ds \<noteq> [] \<and> list_all digit ds \<and> in_s64 (if neg then - int (nat_of_digits ds) else int (nat_of_digits ds))
         then Some (if neg then - int (nat_of_digits ds) else int (nat_of_digits ds)) else None)"

lemma digit_chr [simp]: "d < 10 \<Longrightarrow> digit (chr (48 + d))"
  by (simp add: digit_def cont_def)

lemma print_nat_digits: "list_all digit (print_nat n) \<and> print_nat n \<noteq> []"
proof (induction n rule: print_nat.induct)
  case (1 n)
  then show ?case by (cases "n < 10") (simp_all add: print_nat.simps [of n])
qed

lemma print_nat_hd: "0 < n \<Longrightarrow> hd (print_nat n) \<noteq> CHR ''0''"
proof (induction n rule: print_nat.induct)
  case (1 n)
  show ?case
  proof (cases "n < 10")
    case True
    with 1(2) have "code (chr (48 + n)) \<noteq> code (CHR ''0'')" by (simp add: code_def [of "CHR ''0''"])
    then have "chr (48 + n) \<noteq> CHR ''0''" by (rule contrapos_nn) (rule arg_cong)
    with True show ?thesis by (simp add: print_nat.simps [of n])
  next
    case False
    with 1 print_nat_digits [of "n div 10"] show ?thesis by (simp add: print_nat.simps [of n])
  qed
qed

lemma nat_of_digits_snoc [simp]: "nat_of_digits (ds @ [c]) = nat_of_digits ds * 10 + (code c - 48)"
  by (simp add: nat_of_digits_def)

lemma nat_of_print [simp]: "nat_of_digits (print_nat n) = n"
proof (induction n rule: print_nat.induct)
  case (1 n)
  show ?case
  proof (cases "n < 10")
    case True
    then show ?thesis by (simp add: print_nat.simps [of n] nat_of_digits_def)
  next
    case False
    then have "nat_of_digits (print_nat n) = n div 10 * 10 + n mod 10" using 1 by (simp add: print_nat.simps [of n])
    then show ?thesis by simp
  qed
qed

lemma digits_ok_print: "digits_ok (print_nat n)"
proof (cases "n = 0")
  case True
  have "print_nat 0 = ''0''" by (simp add: print_nat.simps [of 0] chr_def char_of_def bit_0)
  with True show ?thesis by (simp add: digits_ok_def digit_def cont_def code_def)
next
  case False
  with print_nat_hd [of n] print_nat_digits [of n] show ?thesis by (simp add: digits_ok_def)
qed

lemma int_literal_print [simp]: "int_literal (print_nat n)" "int_literal (print_int i)"
  using digits_ok_print by (auto simp: int_literal_def print_int_def)

lemma parse_uint_print [simp]: "n < 2 ^ w \<Longrightarrow> parse_uint w (print_nat n) = Some n"
  using print_nat_digits [of n] by (simp add: parse_uint_def)

lemma parse_int64_print [simp]:
  assumes "in_s64 i"
  shows "parse_int64 (print_int i) = Some i"
proof -
  have d: "list_all digit (print_nat n)" "print_nat n \<noteq> []" for n using print_nat_digits by auto
  have "hd (print_nat n) \<noteq> CHR ''-''" for n
    using d [of n] by (cases "print_nat n") (auto simp: digit_def cont_def code_def)
  with d assms show ?thesis by (simp add: parse_int64_def print_int_def)
qed

section \<open>Base64\<close>

text \<open>\<^verbatim>\<open>base64.StdEncoding\<close>, the encoding of \<^verbatim>\<open>[]byte\<close>.\<close>

definition b64_alphabet :: string where
  "b64_alphabet = ''ABCDEFGHIJKLMNOPQRSTUVWXYZabcdefghijklmnopqrstuvwxyz0123456789+/''"

definition b64_char :: "nat \<Rightarrow> char" where
  "b64_char d = b64_alphabet ! d"

fun index_of :: "char \<Rightarrow> string \<Rightarrow> nat \<Rightarrow> nat option" where
  "index_of c [] i = None"
| "index_of c (x # xs) i = (if x = c then Some i else index_of c xs (Suc i))"

definition b64_val :: "char \<Rightarrow> nat option" where
  "b64_val c = index_of c b64_alphabet 0"

fun b64_encode :: "bytes \<Rightarrow> string" where
  "b64_encode (a # b # c # r) =
     (let n = unat a * 65536 + unat b * 256 + unat c
      in b64_char (n div 262144) # b64_char (n div 4096 mod 64) # b64_char (n div 64 mod 64) # b64_char (n mod 64)
         # b64_encode r)"
| "b64_encode [a, b] =
     (let n = unat a * 65536 + unat b * 256
      in [b64_char (n div 262144), b64_char (n div 4096 mod 64), b64_char (n div 64 mod 64), CHR ''=''])"
| "b64_encode [a] =
     (let n = unat a * 65536 in [b64_char (n div 262144), b64_char (n div 4096 mod 64), CHR ''='', CHR ''=''])"
| "b64_encode [] = []"

fun b64_quads :: "string \<Rightarrow> bytes option" where
  "b64_quads [] = Some []"
| "b64_quads (p # q # s # t # r) =
     (case (b64_val p, b64_val q) of
        (Some x, Some y) \<Rightarrow>
          (case (b64_val s, b64_val t) of
             (Some z, Some w) \<Rightarrow>
               (let n = x * 262144 + y * 4096 + z * 64 + w
                in map_option (\<lambda>bs. word_of_nat (n div 65536) # word_of_nat (n div 256 mod 256) # word_of_nat (n mod 256) # bs)
                     (b64_quads r))
           | (Some z, None) \<Rightarrow>
               (let n = x * 262144 + y * 4096 + z * 64
                in if t = CHR ''='' \<and> r = [] then Some [word_of_nat (n div 65536), word_of_nat (n div 256 mod 256)] else None)
           | (None, _) \<Rightarrow>
               (let n = x * 262144 + y * 4096
                in if s = CHR ''='' \<and> t = CHR ''='' \<and> r = [] then Some [word_of_nat (n div 65536)] else None))
      | _ \<Rightarrow> None)"
| "b64_quads _ = None"

definition b64_decode :: "string \<Rightarrow> bytes option" where
  "b64_decode s = b64_quads (filter (\<lambda>c. code c \<noteq> 10 \<and> code c \<noteq> 13) s)"

lemma index_of_nth: "distinct xs \<Longrightarrow> i < length xs \<Longrightarrow> index_of (xs ! i) xs j = Some (i + j)"
  by (induction xs arbitrary: i j) (auto simp: nth_Cons split: nat.splits)

lemma distinct_b64: "distinct b64_alphabet" and length_b64: "length b64_alphabet = 64"
  by (simp_all add: b64_alphabet_def)

lemma b64_val_char [simp]: "d < 64 \<Longrightarrow> b64_val (b64_char d) = Some d"
  using index_of_nth [OF distinct_b64, of d 0] by (simp add: b64_val_def b64_char_def length_b64)

lemma b64_val_pad [simp]: "b64_val (CHR ''='') = None"
  by (simp add: b64_val_def b64_alphabet_def)

lemma b64_char_ascii [simp]: "d < 64 \<Longrightarrow> code (b64_char d) < 128 \<and> code (b64_char d) \<noteq> 10 \<and> code (b64_char d) \<noteq> 13"
proof -
  assume "d < 64"
  then have "b64_char d \<in> set b64_alphabet" by (simp add: b64_char_def length_b64)
  moreover have "list_all (\<lambda>c. code c < 128 \<and> code c \<noteq> 10 \<and> code c \<noteq> 13) b64_alphabet"
    by (simp add: b64_alphabet_def code_def)
  ultimately show ?thesis by (auto simp: list_all_iff)
qed

lemma unat_byte [simp]: "unat (b :: 8 word) < 256"
  using unsigned_less [of b, where ?'a = nat] by simp

lemma base64_digits:
  "n = q1 * 64 + r0 \<Longrightarrow> q1 = q2 * 64 + r1 \<Longrightarrow> q2 = q3 * 64 + r2 \<Longrightarrow>
   q3 * 262144 + r2 * 4096 + r1 * 64 + r0 = (n :: nat)"
  by simp

lemma sextets:
  fixes n :: nat
  shows "n div 262144 * 262144 + n div 4096 mod 64 * 4096 + n div 64 mod 64 * 64 + n mod 64 = n"
proof -
  have c: "(262144::nat) = 4096 * 64" "(4096::nat) = 64 * 64" by simp_all
  have "n div 262144 = n div 4096 div 64" unfolding c(1) by (rule div_mult2_eq)
  moreover have "n div 4096 = n div 64 div 64" unfolding c(2) by (rule div_mult2_eq)
  moreover note base64_digits [OF div_mult_mod_eq [of n 64, symmetric] div_mult_mod_eq [of "n div 64" 64, symmetric]
      div_mult_mod_eq [of "n div 64 div 64" 64, symmetric]]
  ultimately show ?thesis by presburger
qed

lemma sextets_two:
  fixes a b :: nat
  shows "(a * 65536 + b * 256) div 262144 * 262144 + (a * 65536 + b * 256) div 4096 mod 64 * 4096
    + (a * 65536 + b * 256) div 64 mod 64 * 64 = a * 65536 + b * 256"
proof -
  have "(a * 65536 + b * 256) mod 64 = ((a * 1024 + b * 4) * 64) mod 64" by (simp add: algebra_simps)
  also have "\<dots> = 0" by (rule mod_mult_self2_is_0)
  finally show ?thesis using sextets [of "a * 65536 + b * 256"] by simp
qed

lemma sextets_one:
  fixes a :: nat
  shows "a * 65536 div 262144 * 262144 + a * 65536 div 4096 mod 64 * 4096 = a * 65536"
proof -
  have e: "a * 65536 = a * 16 * 64 * 64" by simp
  have "a * 65536 div 64 = a * 16 * 64" unfolding e by (rule nonzero_mult_div_cancel_right) simp
  then have "a * 65536 div 64 mod 64 = 0" by (metis mod_mult_self2_is_0)
  then show ?thesis using sextets_two [of a 0] by simp
qed

lemma octets:
  fixes a b c :: nat
  assumes "b < 256" and "c < 256"
  shows "(a * 65536 + b * 256 + c) div 65536 = a" "(a * 65536 + b * 256 + c) div 256 mod 256 = b"
    "(a * 65536 + b * 256 + c) mod 256 = c"
proof -
  have e: "a * 65536 + b * 256 + c = c + (b + a * 256) * 256" by simp
  have d: "(a * 65536 + b * 256 + c) div 256 = b + a * 256" "(a * 65536 + b * 256 + c) mod 256 = c"
    unfolding e using assms(2) by (simp_all only: div_mult_self1 mod_mult_self1 mod_less div_less)
  have "(a * 65536 + b * 256 + c) div (256 * 256) = (b + a * 256) div 256"
    unfolding div_mult2_eq d(1) ..
  then show "(a * 65536 + b * 256 + c) div 65536 = a" using assms(1) by simp
  show "(a * 65536 + b * 256 + c) div 256 mod 256 = b" unfolding d(1) using assms(1) by simp
  show "(a * 65536 + b * 256 + c) mod 256 = c" by (rule d(2))
qed

lemma b64_top [simp]: "unat (a :: 8 word) * 65536 + unat (b :: 8 word) * 256 + unat (c :: 8 word) < 64 * 262144"
  using unat_byte [of a] unat_byte [of b] unat_byte [of c] by linarith

lemma b64_quads_encode [simp]: "b64_quads (b64_encode bs) = Some bs"
proof (induction bs rule: b64_encode.induct)
  case (1 a b c r)
  let ?n = "unat a * 65536 + unat b * 256 + unat c"
  have "?n div 262144 < 64" using b64_top [of a b c] by (simp add: less_mult_imp_div_less)
  with 1 show ?case by (simp only: b64_encode.simps Let_def b64_quads.simps b64_val_char mod_less_divisor zero_less_numeral
        option.case prod.case sextets octets [OF unat_byte unat_byte] map_option_case of_nat_unat ucast_id)
next
  case (2 a b)
  let ?n = "unat a * 65536 + unat b * 256"
  have lt: "?n div 262144 < 64" using b64_top [of a b 0] by (simp add: less_mult_imp_div_less)
  note o = octets [of "unat b" 0 "unat a", unfolded add_0_right, OF unat_byte]
  show ?case using lt o
    by (simp only: b64_encode.simps Let_def b64_quads.simps b64_val_char b64_val_pad mod_less_divisor zero_less_numeral
        option.case prod.case if_True sextets_two simp_thms of_nat_unat ucast_id)
next
  case (3 a)
  let ?n = "unat a * 65536"
  have lt: "?n div 262144 < 64" using b64_top [of a 0 0] by (simp add: less_mult_imp_div_less)
  show ?case using lt
    by (simp only: b64_encode.simps Let_def b64_quads.simps b64_val_char b64_val_pad mod_less_divisor zero_less_numeral
        option.case prod.case if_True sextets_one simp_thms of_nat_unat ucast_id nonzero_mult_div_cancel_right zero_neq_numeral [symmetric] not_False_eq_True)
qed simp

lemma b64_encode_chars: "c \<in> set (b64_encode bs) \<Longrightarrow> code c < 128 \<and> code c \<noteq> 10 \<and> code c \<noteq> 13"
proof (induction bs rule: b64_encode.induct)
  case (1 a b c' r)
  have "(unat a * 65536 + unat b * 256 + unat c') div 262144 < 64"
    using b64_top [of a b c'] by (simp add: less_mult_imp_div_less)
  with 1 show ?case by (auto simp: Let_def)
next
  case (2 a b)
  have "(unat a * 65536 + unat b * 256) div 262144 < 64"
    using b64_top [of a b 0] by (simp add: less_mult_imp_div_less)
  with 2 show ?case by (auto simp: Let_def code_def [of "CHR ''=''"])
next
  case (3 a)
  have "unat a * 65536 div 262144 < 64" using b64_top [of a 0 0] by (simp add: less_mult_imp_div_less)
  with 3 show ?case by (auto simp: Let_def code_def [of "CHR ''=''"])
qed simp

lemma ascii_b64 [simp]: "ascii (b64_encode bs)"
  by (auto simp: ascii_def dest: b64_encode_chars)

lemma b64_decode_encode [simp]: "b64_decode (b64_encode bs) = Some bs"
proof -
  have "filter (\<lambda>c. code c \<noteq> 10 \<and> code c \<noteq> 13) (b64_encode bs) = b64_encode bs"
    by (auto simp: filter_id_conv dest: b64_encode_chars)
  then show ?thesis by (simp add: b64_decode_def)
qed

section \<open>Struct fields\<close>

text \<open>
  A key of an object matches a field if they are equal up to the case of ASCII letters (folding of
  other letters is not modelled).  The fields are set in the order of the object, \<^verbatim>\<open>null\<close> leaves a
  field alone, and a value of the wrong type is an error.
\<close>

definition fold_char :: "char \<Rightarrow> char" where
  "fold_char c = (if cont 65 90 c then chr (code c + 32) else c)"

definition obj_values :: "string \<Rightarrow> (string \<times> json) list \<Rightarrow> json list" where
  "obj_values name ms = map snd (filter (\<lambda>(k, _). map fold_char k = map fold_char name) ms)"

definition decode_field :: "(json \<Rightarrow> 'a option) \<Rightarrow> 'a \<Rightarrow> string \<Rightarrow> (string \<times> json) list \<Rightarrow> 'a option" where
  "decode_field dec zero name ms =
     foldl (\<lambda>acc v. case acc of None \<Rightarrow> None | Some _ \<Rightarrow> if v = JNull then acc else dec v) (Some zero) (obj_values name ms)"

fun dec_uint :: "nat \<Rightarrow> json \<Rightarrow> nat option" where
  "dec_uint w (JNum l) = parse_uint w l"
| "dec_uint w _ = None"

fun dec_int64 :: "json \<Rightarrow> int option" where
  "dec_int64 (JNum l) = parse_int64 l"
| "dec_int64 _ = None"

fun dec_string :: "json \<Rightarrow> string option" where
  "dec_string (JStr s) = Some s"
| "dec_string _ = None"

fun dec_bytes :: "json \<Rightarrow> bytes option" where
  "dec_bytes (JStr s) = b64_decode s"
| "dec_bytes _ = None"

lemma decode_field_one: "obj_values name members = [v] \<Longrightarrow> v \<noteq> JNull \<Longrightarrow> decode_field dec z name members = dec v"
  by (simp add: decode_field_def)

lemma obj_values_Cons:
  "obj_values name ((k, v) # members) = (if map fold_char k = map fold_char name then v # obj_values name members else obj_values name members)"
  "obj_values name [] = []"
  by (simp_all add: obj_values_def)

lemma obj_values_append: "obj_values name (members @ members') = obj_values name members @ obj_values name members'"
  by (simp add: obj_values_def)

lemma decode_field_none: "obj_values name members = [] \<Longrightarrow> decode_field dec z name members = Some z"
  by (simp add: decode_field_def)

lemma fold_char_letters [simp]:
  "fold_char CHR ''a'' = CHR ''a''" "fold_char CHR ''b'' = CHR ''b''" "fold_char CHR ''c'' = CHR ''c''" "fold_char CHR ''d'' = CHR ''d''" "fold_char CHR ''e'' = CHR ''e''"
  "fold_char CHR ''f'' = CHR ''f''" "fold_char CHR ''g'' = CHR ''g''" "fold_char CHR ''h'' = CHR ''h''" "fold_char CHR ''i'' = CHR ''i''" "fold_char CHR ''j'' = CHR ''j''"
  "fold_char CHR ''k'' = CHR ''k''" "fold_char CHR ''l'' = CHR ''l''" "fold_char CHR ''m'' = CHR ''m''" "fold_char CHR ''n'' = CHR ''n''" "fold_char CHR ''o'' = CHR ''o''"
  "fold_char CHR ''p'' = CHR ''p''" "fold_char CHR ''q'' = CHR ''q''" "fold_char CHR ''r'' = CHR ''r''" "fold_char CHR ''s'' = CHR ''s''" "fold_char CHR ''t'' = CHR ''t''"
  "fold_char CHR ''u'' = CHR ''u''" "fold_char CHR ''v'' = CHR ''v''" "fold_char CHR ''w'' = CHR ''w''" "fold_char CHR ''x'' = CHR ''x''" "fold_char CHR ''y'' = CHR ''y''"
  "fold_char CHR ''z'' = CHR ''z''" "fold_char CHR ''_'' = CHR ''_''"
  by (simp_all add: fold_char_def cont_def code_def)

end
