(* ===== verification/File_Storage.thy ===== *)
theory File_Storage
  imports Raft_Types Disk Json
begin

text \<open>
  \<^verbatim>\<open>internal/raft/filestorage.go\<close>: the durable storage of a Raft node.  Besides the three files the
  model keeps what the handle of the log file keeps, its position and whether it was opened
  with \<^verbatim>\<open>O_APPEND\<close>, since the recorded offsets are read off that position.  \<^verbatim>\<open>lseek\<close> and reads on an
  open file do not fail; every other system call takes the next fault of the schedule.  Proved:
  replay of the log file as a log of frames, what each operation does when no call fails, that
  term and vote are replaced atomically whatever fails and that a reopened storage has them,
  and what a crash in an append leaves.
\<close>

section \<open>System calls\<close>

text \<open>Closing or opening for reading: calls that can fail and change nothing.\<close>

definition os_close :: "disk \<Rightarrow> bool \<times> disk" where
  "os_close d = os_sync d"

definition os_open :: "string \<Rightarrow> disk \<Rightarrow> bool \<times> disk" where
  "os_open p d = (case os_sync d of (ok, d') \<Rightarrow> (ok \<and> read_file p d' \<noteq> None, d'))"

definition os_WriteFile :: "string \<Rightarrow> bytes \<Rightarrow> disk \<Rightarrow> bool \<times> disk" where
  "os_WriteFile p bs d =
     (case os_create p d of
        (False, d1) \<Rightarrow> (False, d1)
      | (True, d1) \<Rightarrow>
         (case os_write p bs d1 of (ok, d2) \<Rightarrow> (case os_close d2 of (ok', d3) \<Rightarrow> (ok \<and> ok', d3))))"

definition syncFile :: "string \<Rightarrow> disk \<Rightarrow> bool \<times> disk" where
  "syncFile p d =
     (case os_open p d of
        (False, d1) \<Rightarrow> (False, d1)
      | (True, d1) \<Rightarrow> (case os_sync d1 of (ok, d2) \<Rightarrow> (ok, snd (os_close d2))))"

definition syncDir :: "disk \<Rightarrow> bool \<times> disk" where
  "syncDir d =
     (case os_sync d of
        (False, d1) \<Rightarrow> (False, d1)
      | (True, d1) \<Rightarrow> (case os_sync d1 of (ok, d2) \<Rightarrow> (ok, snd (os_close d2))))"

text \<open>The write-temp, fsync, rename, fsync-dir protocol of \<^verbatim>\<open>SaveSnapshot\<close> and \<^verbatim>\<open>SaveTermAndVote\<close>.\<close>

definition replace_file :: "string \<Rightarrow> bytes \<Rightarrow> disk \<Rightarrow> bool \<times> disk" where
  "replace_file p payload d =
     (case os_WriteFile (p @ ''.tmp'') payload d of
        (False, d1) \<Rightarrow> (False, d1)
      | (True, d1) \<Rightarrow>
         (case syncFile (p @ ''.tmp'') d1 of
            (False, d2) \<Rightarrow> (False, d2)
          | (True, d2) \<Rightarrow>
             (case os_rename (p @ ''.tmp'') p d2 of
                (False, d3) \<Rightarrow> (False, d3)
              | (True, d3) \<Rightarrow> syncDir d3)))"

section \<open>The storage\<close>

record FileStorage =
  fsdisk :: disk
  offsets :: "nat list"
  loaded :: "LogEntry list"
  baseIndex :: nat
  fpos :: nat        \<comment> \<open>position of the log file's handle\<close>
  fappend :: bool    \<comment> \<open>opened with \<open>O_APPEND\<close>\<close>
  fopen :: bool      \<comment> \<open>not closed\<close>

definition statePath :: string where "statePath = ''raft-state.json''"
definition snapshotPath :: string where "snapshotPath = ''raft-snapshot.bin''"
definition logPath :: string where "logPath = ''raft-log.bin''"

definition encode_state :: "nat \<Rightarrow> string \<Rightarrow> bytes" where
  "encode_state term votedFor =
     str_bytes (json_print (JObj [(''term'', JNum (print_nat term)), (''voted_for'', JStr votedFor)]))"

definition decode_state :: "bytes \<Rightarrow> (nat \<times> string) option" where
  "decode_state data =
     (case json_parse (bytes_str data) of
        Some (JObj members) \<Rightarrow>
          (case (decode_field (dec_uint 64) 0 ''term'' members, decode_field dec_string '''' ''voted_for'' members) of
             (Some t, Some v) \<Rightarrow> Some (t, v)
           | _ \<Rightarrow> None)
      | Some JNull \<Rightarrow> Some (0, '''')
      | _ \<Rightarrow> None)"

definition encode_snapshot :: "nat \<Rightarrow> nat \<Rightarrow> bytes \<Rightarrow> bytes" where
  "encode_snapshot idx tm data =
     str_bytes (json_print (JObj [(''last_included_index'', JNum (print_nat idx)),
       (''last_included_term'', JNum (print_nat tm)), (''data'', JStr (b64_encode data))]))"

definition decode_snapshot :: "bytes \<Rightarrow> (nat \<times> nat \<times> bytes) option" where
  "decode_snapshot raw =
     (case json_parse (bytes_str raw) of
        Some (JObj members) \<Rightarrow>
          (case (decode_field (dec_uint 64) 0 ''last_included_index'' members, decode_field (dec_uint 64) 0 ''last_included_term'' members,
                 decode_field dec_bytes [] ''data'' members) of
             (Some i, Some t, Some data) \<Rightarrow> Some (i, t, data)
           | _ \<Rightarrow> None)
      | Some JNull \<Rightarrow> Some (0, 0, [])
      | _ \<Rightarrow> None)"

text \<open>\<open>None\<close> is an error, \<open>Some None\<close> that there is no snapshot.\<close>

definition load_snapshot :: "disk \<Rightarrow> (nat \<times> nat \<times> bytes) option option" where
  "load_snapshot d =
     (case read_file snapshotPath d of None \<Rightarrow> Some None | Some raw \<Rightarrow> map_option Some (decode_snapshot raw))"

definition load_state :: "disk \<Rightarrow> (nat \<times> string) option" where
  "load_state d = (case read_file statePath d of None \<Rightarrow> Some (0, '''') | Some data \<Rightarrow> decode_state data)"

definition fs_LoadSnapshot :: "FileStorage \<Rightarrow> (nat \<times> nat \<times> bytes) option option" where
  "fs_LoadSnapshot fs = load_snapshot (fsdisk fs)"

definition fs_LoadTermAndVote :: "FileStorage \<Rightarrow> (nat \<times> string) option" where
  "fs_LoadTermAndVote fs = load_state (fsdisk fs)"

definition fs_LoadLog :: "FileStorage \<Rightarrow> LogEntry list option" where
  "fs_LoadLog fs = Some (loaded fs)"

definition fs_SaveTermAndVote :: "FileStorage \<Rightarrow> nat \<Rightarrow> string \<Rightarrow> bool \<times> FileStorage" where
  "fs_SaveTermAndVote fs term votedFor =
     (case replace_file statePath (encode_state term votedFor) (fsdisk fs) of (ok, d) \<Rightarrow> (ok, fs\<lparr>fsdisk := d\<rparr>))"

definition fs_SaveSnapshot :: "FileStorage \<Rightarrow> nat \<Rightarrow> nat \<Rightarrow> bytes \<Rightarrow> bool \<times> FileStorage" where
  "fs_SaveSnapshot fs idx tm data =
     (case replace_file snapshotPath (encode_snapshot idx tm data) (fsdisk fs) of (ok, d) \<Rightarrow> (ok, fs\<lparr>fsdisk := d\<rparr>))"

text \<open>\<^verbatim>\<open>replayLogFile\<close>: the entries and their offsets, up to the first frame that does not decode.\<close>

function replayLogFile :: "nat \<Rightarrow> bytes \<Rightarrow> LogEntry list \<times> nat list \<times> nat" where
  "replayLogFile offset r =
     (case decodeLogEntry r of
        Inl _ \<Rightarrow> ([], [], offset)
      | Inr (entry, rest) \<Rightarrow>
         (case replayLogFile (offset + (length r - length rest)) rest of
            (es, os, n) \<Rightarrow> (entry # es, offset # os, n)))"
  by pat_completeness auto
termination
  by (relation "measure (\<lambda>(_, r). length r)")
    (auto simp: decodeLogEntry_def dest!: unframe_length split: sum.splits)

declare replayLogFile.simps [simp del]

definition cleanupOrphanedTemp :: "disk \<Rightarrow> bool \<times> disk" where
  "cleanupOrphanedTemp d =
     foldl (\<lambda>(ok, d) name. if ok then os_remove (name @ ''.tmp'') d else (ok, d))
       (True, d) [logPath, snapshotPath, statePath]"

definition OpenFileStorage :: "disk \<Rightarrow> FileStorage option \<times> disk" where
  "OpenFileStorage d =
     (case os_sync d of
        (False, d0) \<Rightarrow> (None, d0)
      | (True, d0) \<Rightarrow>
     (case cleanupOrphanedTemp d0 of
        (False, d1) \<Rightarrow> (None, d1)
      | (True, d1) \<Rightarrow>
     (case os_open_create logPath d1 of
        (False, d2) \<Rightarrow> (None, d2)
      | (True, d2) \<Rightarrow>
     (case replayLogFile 0 (case read_file logPath d2 of None \<Rightarrow> [] | Some f \<Rightarrow> f) of
        (entries, offs, validLength) \<Rightarrow>
     (case os_truncate logPath validLength d2 of
        (False, d3) \<Rightarrow> (None, d3)
      | (True, d3) \<Rightarrow>
     (case load_snapshot d3 of
        None \<Rightarrow> (None, d3)
      | Some snap \<Rightarrow>
          (Some \<lparr>fsdisk = d3, offsets = offs, loaded = entries,
             baseIndex = (case snap of None \<Rightarrow> 0 | Some (idx, _, _) \<Rightarrow> idx),
             fpos = validLength, fappend = False, fopen = True\<rparr>, d3)))))))"

text \<open>\<^verbatim>\<open>Write\<close> on the log file's handle: at its position, or at the end with \<^verbatim>\<open>O_APPEND\<close>.\<close>

definition put_at :: "nat \<Rightarrow> bytes \<Rightarrow> bytes \<Rightarrow> bytes" where
  "put_at pos bs old = take pos old @ replicate (pos - length old) 0 @ bs @ drop (pos + length bs) old"

definition write_at :: "bytes \<Rightarrow> disk \<Rightarrow> FileStorage \<Rightarrow> FileStorage" where
  "write_at bs d fs =
     (case read_file logPath d of
        None \<Rightarrow> fs\<lparr>fsdisk := d\<rparr>
      | Some old \<Rightarrow>
          let pos = (if fappend fs then length old else fpos fs)
          in fs\<lparr>fsdisk := set_file logPath (put_at pos bs old) d, fpos := pos + length bs\<rparr>)"

definition log_write :: "bytes \<Rightarrow> FileStorage \<Rightarrow> bool \<times> FileStorage" where
  "log_write bs fs =
     (case next_fault (fsdisk fs) of
        (None, d) \<Rightarrow> (True, write_at bs d fs)
      | (Some n, d) \<Rightarrow> (False, write_at (take n bs) d fs))"

fun append_loop :: "LogEntry list \<Rightarrow> FileStorage \<Rightarrow> bool \<times> FileStorage" where
  "append_loop [] fs = (True, fs)"
| "append_loop (e # es) fs =
     (if \<not> fopen fs then (False, fs)
      else case log_write (encodeLogEntry e) fs of
             (False, fs1) \<Rightarrow> (False, fs1)
           | (True, fs1) \<Rightarrow>
               append_loop es (fs1\<lparr>offsets := offsets fs1 @ [fpos fs], loaded := loaded fs1 @ [e]\<rparr>))"

definition log_sync :: "FileStorage \<Rightarrow> bool \<times> FileStorage" where
  "log_sync fs =
     (if \<not> fopen fs then (False, fs) else case os_sync (fsdisk fs) of (ok, d) \<Rightarrow> (ok, fs\<lparr>fsdisk := d\<rparr>))"

definition fs_AppendEntries :: "FileStorage \<Rightarrow> LogEntry list \<Rightarrow> bool \<times> FileStorage" where
  "fs_AppendEntries fs entries =
     (case append_loop entries fs of (False, fs1) \<Rightarrow> (False, fs1) | (True, fs1) \<Rightarrow> log_sync fs1)"

definition position :: "nat \<Rightarrow> FileStorage \<Rightarrow> nat option" where
  "position index fs =
     (if index \<le> baseIndex fs then None
      else let pos = sub64 (sub64 index (baseIndex fs)) 1
           in if pos \<ge> length (loaded fs) then None else Some pos)"

definition fs_TruncateFrom :: "FileStorage \<Rightarrow> nat \<Rightarrow> bool \<times> FileStorage" where
  "fs_TruncateFrom fs index =
     (case position index fs of
        None \<Rightarrow> (True, fs)
      | Some pos \<Rightarrow>
          let cutOffset = offsets fs ! pos
          in if \<not> fopen fs then (False, fs)
             else case os_truncate logPath cutOffset (fsdisk fs) of
               (False, d) \<Rightarrow> (False, fs\<lparr>fsdisk := d\<rparr>)
             | (True, d) \<Rightarrow>
                 log_sync (fs\<lparr>fsdisk := d, fpos := cutOffset, offsets := take pos (offsets fs), loaded := take pos (loaded fs)\<rparr>))"

fun offsets_of :: "nat \<Rightarrow> LogEntry list \<Rightarrow> nat list" where
  "offsets_of offset [] = []"
| "offsets_of offset (e # es) = offset # offsets_of (offset + length (encodeLogEntry e)) es"

text \<open>The new log file of \<^verbatim>\<open>DiscardLogThrough\<close>, up to the point where it is complete on disk.\<close>

definition write_compacted :: "LogEntry list \<Rightarrow> disk \<Rightarrow> bool \<times> disk" where
  "write_compacted keep d =
     (let tmp = logPath @ ''.tmp'' in
      case os_create tmp d of
        (False, d1) \<Rightarrow> (False, d1)
      | (True, d1) \<Rightarrow>
     (case os_write_all tmp (map encodeLogEntry keep) d1 of
        (False, d2) \<Rightarrow> (False, snd (os_remove tmp (snd (os_close d2))))
      | (True, d2) \<Rightarrow>
     (case os_sync d2 of
        (False, d3) \<Rightarrow> (False, snd (os_remove tmp (snd (os_close d3))))
      | (True, d3) \<Rightarrow>
     (case os_close d3 of
        (False, d4) \<Rightarrow> (False, snd (os_remove tmp d4))
      | (True, d4) \<Rightarrow> (True, d4)))))"

definition fs_DiscardLogThrough :: "FileStorage \<Rightarrow> nat \<Rightarrow> bool \<times> FileStorage" where
  "fs_DiscardLogThrough fs index =
     (if index \<le> baseIndex fs then (True, fs)
      else
        let keep = drop (min (index - baseIndex fs) (length (loaded fs))) (loaded fs);
            tmp = logPath @ ''.tmp''
        in case write_compacted keep (fsdisk fs) of
             (False, d) \<Rightarrow> (False, fs\<lparr>fsdisk := d\<rparr>)
           | (True, d4) \<Rightarrow>
          (if \<not> fopen fs then (False, fs\<lparr>fsdisk := snd (os_remove tmp d4)\<rparr>)
           else
           case os_close d4 of
             (False, d5) \<Rightarrow> (False, fs\<lparr>fsdisk := snd (os_remove tmp d5), fopen := False\<rparr>)
           | (True, d5) \<Rightarrow>
          (case os_rename tmp logPath d5 of
             (False, d6) \<Rightarrow> (False, fs\<lparr>fsdisk := d6, fopen := False\<rparr>)
           | (True, d6) \<Rightarrow>
          (case syncDir d6 of
             (False, d7) \<Rightarrow> (False, fs\<lparr>fsdisk := d7, fopen := False\<rparr>)
           | (True, d7) \<Rightarrow>
          (case os_open_create logPath d7 of
             (False, d8) \<Rightarrow> (False, fs\<lparr>fsdisk := d8, fopen := False\<rparr>)
           | (True, d8) \<Rightarrow>
               (True, fs\<lparr>fsdisk := d8, offsets := offsets_of 0 keep, loaded := keep, baseIndex := index,
                         fpos := 0, fappend := True\<rparr>))))))"

definition fs_Close :: "FileStorage \<Rightarrow> bool \<times> FileStorage" where
  "fs_Close fs =
     (if \<not> fopen fs then (False, fs)
      else case os_close (fsdisk fs) of (ok, d) \<Rightarrow> (ok, fs\<lparr>fsdisk := d, fopen := False\<rparr>))"

definition FileStorage_Storage :: "FileStorage Storage" where
  "FileStorage_Storage = \<lparr>SaveTermAndVote = fs_SaveTermAndVote, LoadTermAndVote = fs_LoadTermAndVote,
     AppendEntries = fs_AppendEntries, TruncateFrom = fs_TruncateFrom, LoadLog = fs_LoadLog,
     SaveSnapshot = fs_SaveSnapshot, LoadSnapshot = fs_LoadSnapshot, DiscardLogThrough = fs_DiscardLogThrough\<rparr>"

section \<open>The log file is a log of frames\<close>

definition replay_entries :: "bytes \<Rightarrow> LogEntry list" where
  "replay_entries r = fst (replayLogFile 0 r)"

lemma decodeLogEntry_length: "decodeLogEntry r = Inr (e, rest) \<Longrightarrow> length rest < length r"
  by (auto simp: decodeLogEntry_def dest!: unframe_length split: sum.splits)

lemma replay_any_offset: "fst (replayLogFile k r) = fst (replayLogFile k' r)"
proof (induction r arbitrary: k k' rule: measure_induct_rule [of length])
  case (less r)
  show ?case
  proof (cases "decodeLogEntry r")
    case (Inl e)
    then show ?thesis by (simp add: replayLogFile.simps)
  next
    case (Inr a)
    obtain e rest where a: "a = (e, rest)" by (cases a)
    with Inr have "length rest < length r" using decodeLogEntry_length by blast
    from less [OF this] Inr a show ?thesis
      by (simp add: replayLogFile.simps [of k r] replayLogFile.simps [of k' r] split: prod.splits) (metis fst_conv)
  qed
qed

lemma replay_entries_unfold:
  "replay_entries r = (case decodeLogEntry r of Inl _ \<Rightarrow> [] | Inr (e, rest) \<Rightarrow> e # replay_entries rest)"
  using replay_any_offset
  by (auto simp: replay_entries_def replayLogFile.simps [of 0 r] split: sum.splits prod.splits) (metis fst_conv)

interpretation rlog: framed_log encodeLogEntry decodeLogEntry replay_entries entry_ok
proof unfold_locales
  show "decodeLogEntry [] = Inl EOF" by (simp add: decodeLogEntry_def unframe_def ReadFull_def)
  show "replay_entries bs = (case decodeLogEntry bs of Inl _ \<Rightarrow> [] | Inr (x, r) \<Rightarrow> x # replay_entries r)" for bs
    by (rule replay_entries_unfold)
qed (auto simp: decodeLogEntry_encode decodeLogEntry_torn)

definition log_bytes :: "LogEntry list \<Rightarrow> bytes" where
  "log_bytes es = concat (map encodeLogEntry es)"

lemma log_bytes_simps [simp]:
  "log_bytes [] = []" "log_bytes (e # es) = encodeLogEntry e @ log_bytes es" "log_bytes (es @ fs) = log_bytes es @ log_bytes fs"
  by (simp_all add: log_bytes_def)

lemma replayLogFile_log:
  assumes "list_all entry_ok es" and "decodeLogEntry tail = Inl err"
  shows "replayLogFile k (log_bytes es @ tail) = (es, offsets_of k es, k + length (log_bytes es))"
  using assms(1)
proof (induction es arbitrary: k)
  case Nil
  with assms(2) show ?case by (simp add: replayLogFile.simps)
next
  case (Cons e es)
  then show ?case by (simp add: replayLogFile.simps [of k] decodeLogEntry_encode)
qed

text \<open>Replay of any file: what is kept is the valid prefix, and its offsets are those of its frames.\<close>

lemma log_bytes_cut:
  assumes "list_all entry_ok es" and "prefix q (log_bytes es)"
  obtains j tail err where "j \<le> length es" "q = log_bytes (take j es) @ tail" "decodeLogEntry tail = Inl err"
    "j = length es \<or> q \<noteq> log_bytes es"
  using assms
proof (induction es arbitrary: q thesis)
  case Nil
  then show ?case by (simp add: rlog.decode_nil)
next
  case (Cons e es)
  from Cons.prems(3) consider
    (torn) "strict_prefix q (encodeLogEntry e)" | (whole) q' where "q = encodeLogEntry e @ q'" "prefix q' (log_bytes es)"
    using prefix_append_cases [of q "encodeLogEntry e" "log_bytes es"] by (auto simp: strict_prefix_def)
  then show ?case
  proof cases
    case torn
    then have "length q < length (encodeLogEntry e)" by (rule prefix_length_less)
    then have ne: "q \<noteq> log_bytes (e # es)" by auto
    have "\<exists>err. decodeLogEntry q = Inl err" by (rule rlog.decode_torn [OF _ torn]) (use Cons.prems(2) in simp)
    then obtain err where "decodeLogEntry q = Inl err" ..
    then show ?thesis using ne by (intro Cons.prems(1) [of 0 q err]) simp_all
  next
    case whole
    have ok: "list_all entry_ok es" using Cons.prems(2) by simp
    obtain j tail err where "j \<le> length es" "q' = log_bytes (take j es) @ tail"
      "decodeLogEntry tail = Inl err" "j = length es \<or> q' \<noteq> log_bytes es" by (rule Cons.IH [OF _ ok whole(2)])
    with whole show ?thesis by (intro Cons.prems(1) [of "Suc j" tail err]) simp_all
  qed
qed

lemma replayLogFile_cut:
  assumes "list_all entry_ok es" and "prefix q (log_bytes es)"
  obtains j where "j \<le> length es"
    "replayLogFile 0 q = (take j es, offsets_of 0 (take j es), length (log_bytes (take j es)))"
    "take (length (log_bytes (take j es))) q = log_bytes (take j es)"
    "j = length es \<or> q \<noteq> log_bytes es"
proof -
  obtain j tail err where j: "j \<le> length es" "q = log_bytes (take j es) @ tail" "decodeLogEntry tail = Inl err"
    "j = length es \<or> q \<noteq> log_bytes es"
    by (rule log_bytes_cut [OF assms])
  moreover have "list_all entry_ok (take j es)" using assms(1) by (auto simp: list_all_iff dest: in_set_takeD)
  ultimately show ?thesis using replayLogFile_log [of "take j es" tail err 0] by (intro that [of j]) simp_all
qed

section \<open>The state and snapshot files\<close>

lemma ascii_names [simp]:
  "ascii ''term''" "ascii ''voted_for''" "ascii ''last_included_index''" "ascii ''last_included_term''" "ascii ''data''"
  by (simp_all add: code_def)

lemma decode_encode_state:
  assumes "t < 2 ^ 64" and "ascii v"
  shows "decode_state (encode_state t v) = Some (t, v)"
proof -
  let ?m = "[(''term'', JNum (print_nat t)), (''voted_for'', JStr v)]"
  have "json_ok (JObj ?m)" using assms(2) by (simp del: ascii_simps)
  then have p: "json_parse (json_print (JObj ?m)) = Some (JObj ?m)" by (rule json_parse_print)
  have f: "decode_field (dec_uint 64) 0 ''term'' ?m = Some t" "decode_field dec_string '''' ''voted_for'' ?m = Some v"
    using assms(1) by (simp_all add: decode_field_one obj_values_Cons)
  show ?thesis unfolding decode_state_def encode_state_def bytes_str_str_bytes p by (simp add: f)
qed

lemma decode_encode_snapshot:
  assumes "i < 2 ^ 64" and "t < 2 ^ 64"
  shows "decode_snapshot (encode_snapshot i t data) = Some (i, t, data)"
proof -
  let ?m = "[(''last_included_index'', JNum (print_nat i)), (''last_included_term'', JNum (print_nat t)), (''data'', JStr (b64_encode data))]"
  have "json_ok (JObj ?m)" by (simp del: ascii_simps)
  then have p: "json_parse (json_print (JObj ?m)) = Some (JObj ?m)" by (rule json_parse_print)
  have f: "decode_field (dec_uint 64) 0 ''last_included_index'' ?m = Some i"
    "decode_field (dec_uint 64) 0 ''last_included_term'' ?m = Some t" "decode_field dec_bytes [] ''data'' ?m = Some data"
    using assms by (simp_all add: decode_field_one obj_values_Cons)
  show ?thesis unfolding decode_snapshot_def encode_snapshot_def bytes_str_str_bytes p by (simp add: f)
qed

section \<open>Replacing a file\<close>

lemma tmp_neq [simp]: "p @ ''.tmp'' \<noteq> p" "p \<noteq> p @ ''.tmp''"
  by simp_all

lemma os_sync_read: "os_sync d = (ok, d') \<Longrightarrow> read_file q d' = read_file q d"
  by (auto simp: os_sync_def read_next_fault split: prod.splits option.splits)

lemma sync_calls_read:
  "os_close d = (ok, d') \<Longrightarrow> read_file q d' = read_file q d"
  "os_open p d = (ok, d') \<Longrightarrow> read_file q d' = read_file q d"
  "syncFile p d = (ok, d') \<Longrightarrow> read_file q d' = read_file q d"
  "syncDir d = (ok, d') \<Longrightarrow> read_file q d' = read_file q d"
  by (auto simp: os_close_def os_open_def syncFile_def syncDir_def os_sync_def next_fault_def read_file_def
      split: prod.splits bool.splits option.splits list.splits fault.splits)

lemma sync_calls_ok:
  "faults d = [] \<Longrightarrow> os_close d = (True, d)"
  "faults d = [] \<Longrightarrow> read_file p d \<noteq> None \<Longrightarrow> syncFile p d = (True, d)"
  "faults d = [] \<Longrightarrow> syncDir d = (True, d)"
  by (simp_all add: os_close_def os_open_def syncFile_def syncDir_def)

lemma WriteFile_any:
  assumes "os_WriteFile p bs d = (ok, d')"
  shows "q \<noteq> p \<Longrightarrow> read_file q d' = read_file q d" "ok \<Longrightarrow> read_file p d' = Some bs"
  using assms
  by (auto simp: os_WriteFile_def os_create_def os_write_def os_close_def os_sync_def read_append_file read_next_fault
      split: prod.splits bool.splits option.splits)

lemma os_rename_any:
  assumes "os_rename p q d = (ok, d')" and "p \<noteq> q"
  shows "r \<noteq> p \<Longrightarrow> r \<noteq> q \<Longrightarrow> read_file r d' = read_file r d" "ok \<Longrightarrow> read_file q d' = read_file p d"
    "\<not> ok \<Longrightarrow> read_file q d' = read_file q d"
  using assms by (auto simp: os_rename_def read_next_fault split: prod.splits option.splits)

lemma replace_file_any:
  assumes "replace_file p bs d = (ok, d')"
  shows "q \<noteq> p \<Longrightarrow> q \<noteq> p @ ''.tmp'' \<Longrightarrow> read_file q d' = read_file q d"
    "read_file p d' = read_file p d \<or> read_file p d' = Some bs" "ok \<Longrightarrow> read_file p d' = Some bs"
  using assms
  by (auto simp: replace_file_def sync_calls_read WriteFile_any os_rename_any split: prod.splits bool.splits)

lemma replace_file_ok:
  assumes "faults d = []"
  shows "\<exists>d'. replace_file p bs d = (True, d') \<and> faults d' = []"
  using assms by (simp add: replace_file_def os_WriteFile_def sync_calls_ok read_append_file)

section \<open>Which files an operation touches\<close>

lemma paths_neq [simp]:
  "statePath \<noteq> logPath" "snapshotPath \<noteq> logPath" "statePath \<noteq> snapshotPath" "snapshotPath \<noteq> statePath" "logPath \<noteq> statePath"
  "logPath \<noteq> snapshotPath" "statePath \<noteq> logPath @ ''.tmp''" "snapshotPath \<noteq> logPath @ ''.tmp''"
  "statePath \<noteq> snapshotPath @ ''.tmp''" "snapshotPath \<noteq> statePath @ ''.tmp''"
  "logPath \<noteq> statePath @ ''.tmp''" "logPath \<noteq> snapshotPath @ ''.tmp''"
  by (simp_all add: statePath_def snapshotPath_def logPath_def)

lemma write_at_read: "q \<noteq> logPath \<Longrightarrow> read_file q (fsdisk (write_at bs d fs)) = read_file q d"
  by (simp add: write_at_def Let_def split: option.splits)

lemma write_at_faults: "faults (fsdisk (write_at bs d fs)) = faults d"
  by (simp add: write_at_def Let_def split: option.splits)

lemma log_write_read:
  "log_write bs fs = (ok, fs') \<Longrightarrow> q \<noteq> logPath \<Longrightarrow> read_file q (fsdisk fs') = read_file q (fsdisk fs)"
  by (auto simp: log_write_def write_at_read read_next_fault split: prod.splits option.splits)

lemma append_loop_read:
  "append_loop es fs = (ok, fs') \<Longrightarrow> q \<noteq> logPath \<Longrightarrow> read_file q (fsdisk fs') = read_file q (fsdisk fs)"
proof (induction es arbitrary: fs)
  case (Cons e es)
  then show ?case
    by (auto simp: log_write_read split: if_splits prod.splits bool.splits)
qed simp

lemma log_sync_read: "log_sync fs = (ok, fs') \<Longrightarrow> read_file q (fsdisk fs') = read_file q (fsdisk fs)"
  by (auto simp: log_sync_def os_sync_read split: if_splits prod.splits)

lemma append_read:
  "fs_AppendEntries fs es = (ok, fs') \<Longrightarrow> q \<noteq> logPath \<Longrightarrow> read_file q (fsdisk fs') = read_file q (fsdisk fs)"
  by (auto simp: fs_AppendEntries_def log_sync_read append_loop_read split: prod.splits bool.splits)

lemma os_truncate_read: "os_truncate p n d = (ok, d') \<Longrightarrow> q \<noteq> p \<Longrightarrow> read_file q d' = read_file q d"
  by (auto simp: os_truncate_def read_next_fault split: prod.splits option.splits)

lemma truncate_read:
  "fs_TruncateFrom fs i = (ok, fs') \<Longrightarrow> q \<noteq> logPath \<Longrightarrow> read_file q (fsdisk fs') = read_file q (fsdisk fs)"
  by (auto simp: fs_TruncateFrom_def Let_def log_sync_read os_truncate_read split: option.splits if_splits prod.splits bool.splits)

lemma os_write_all_read: "os_write_all p cs d = (ok, d') \<Longrightarrow> q \<noteq> p \<Longrightarrow> read_file q d' = read_file q d"
proof (induction cs arbitrary: d)
  case (Cons c cs)
  have "read_file q d1 = read_file q d" if "os_write p c d = (b, d1)" for b d1
    using that Cons.prems(2) by (auto simp: os_write_def read_append_file read_next_fault split: prod.splits option.splits)
  with Cons show ?case by (auto split: prod.splits bool.splits)
qed simp

lemma os_remove_read: "q \<noteq> p \<Longrightarrow> read_file q (snd (os_remove p d)) = read_file q d"
  by (auto simp: os_remove_def read_next_fault split: prod.splits option.splits)

lemma os_create_read: "os_create p d = (ok, d') \<Longrightarrow> q \<noteq> p \<Longrightarrow> read_file q d' = read_file q d"
  by (auto simp: os_create_def read_next_fault split: prod.splits option.splits)

lemma os_open_create_read:
  "os_open_create p d = (ok, d') \<Longrightarrow> q \<noteq> p \<or> read_file p d \<noteq> None \<Longrightarrow> read_file q d' = read_file q d"
  by (auto simp: os_open_create_def read_next_fault split: prod.splits option.splits)

lemma os_close_snd_read: "read_file q (snd (os_close d)) = read_file q d"
  by (metis prod.collapse sync_calls_read(1))

lemma write_compacted_read:
  "write_compacted keep d = (ok, d') \<Longrightarrow> q \<noteq> logPath @ ''.tmp'' \<Longrightarrow> read_file q d' = read_file q d"
  by (auto simp: write_compacted_def Let_def os_create_read os_write_all_read os_sync_read sync_calls_read os_remove_read os_close_snd_read
      split: prod.splits bool.splits)

lemma discard_read:
  "fs_DiscardLogThrough fs i = (ok, fs') \<Longrightarrow> q \<noteq> logPath \<Longrightarrow> q \<noteq> logPath @ ''.tmp'' \<Longrightarrow>
   read_file q (fsdisk fs') = read_file q (fsdisk fs)"
  by (auto simp: fs_DiscardLogThrough_def Let_def write_compacted_read os_remove_read sync_calls_read os_rename_any(1)
      os_open_create_read split: if_splits prod.splits bool.splits)

lemma save_read:
  "fs_SaveTermAndVote fs t v = (ok, fs') \<Longrightarrow> q \<noteq> statePath \<Longrightarrow> q \<noteq> statePath @ ''.tmp'' \<Longrightarrow>
   read_file q (fsdisk fs') = read_file q (fsdisk fs)"
  "fs_SaveSnapshot fs i t data = (ok, fs') \<Longrightarrow> q \<noteq> snapshotPath \<Longrightarrow> q \<noteq> snapshotPath @ ''.tmp'' \<Longrightarrow>
   read_file q (fsdisk fs') = read_file q (fsdisk fs)"
  by (auto simp: fs_SaveTermAndVote_def fs_SaveSnapshot_def replace_file_any(1) split: prod.splits)

section \<open>Operations without faults succeed\<close>

lemma append_loop_ok:
  "fopen fs \<Longrightarrow> faults (fsdisk fs) = [] \<Longrightarrow>
   \<exists>fs'. append_loop es fs = (True, fs') \<and> fopen fs' \<and> faults (fsdisk fs') = []"
proof (induction es arbitrary: fs)
  case (Cons e es)
  have "fopen (write_at bs d fs) = fopen fs" for bs d by (simp add: write_at_def Let_def split: option.splits)
  with Cons show ?case by (simp add: log_write_def write_at_faults)
qed simp

lemma append_ok:
  "fopen fs \<Longrightarrow> faults (fsdisk fs) = [] \<Longrightarrow>
   \<exists>fs'. fs_AppendEntries fs es = (True, fs') \<and> fopen fs' \<and> faults (fsdisk fs') = []"
  using append_loop_ok [of fs es] by (auto simp: fs_AppendEntries_def log_sync_def)

lemma truncate_succeeds:
  "fopen fs \<Longrightarrow> faults (fsdisk fs) = [] \<Longrightarrow>
   \<exists>fs'. fs_TruncateFrom fs i = (True, fs') \<and> fopen fs' \<and> faults (fsdisk fs') = []"
  by (simp add: fs_TruncateFrom_def log_sync_def os_truncate_def Let_def split: option.splits)

lemma write_compacted_ok:
  assumes "faults d = []"
  shows "\<exists>d'. write_compacted keep d = (True, d') \<and> faults d' = [] \<and> read_file (logPath @ ''.tmp'') d' = Some (log_bytes keep)"
proof -
  let ?d = "set_file (logPath @ ''.tmp'') [] d"
  obtain d2 where "os_write_all (logPath @ ''.tmp'') (map encodeLogEntry keep) ?d = (True, d2)" "faults d2 = []"
    "read_file (logPath @ ''.tmp'') d2 = Some (log_bytes keep)"
    using os_write_all_ok [of ?d "logPath @ ''.tmp''" "[]"] assms by (auto simp: log_bytes_def)
  then show ?thesis using assms by (simp add: write_compacted_def sync_calls_ok)
qed

lemma discard_succeeds:
  assumes "fopen fs" and "faults (fsdisk fs) = []" and "baseIndex fs < i"
  shows "\<exists>d. fs_DiscardLogThrough fs i = (True, fs\<lparr>fsdisk := d, offsets := offsets_of 0 (drop (i - baseIndex fs) (loaded fs)),
      loaded := drop (i - baseIndex fs) (loaded fs), baseIndex := i, fpos := 0, fappend := True\<rparr>)
    \<and> faults d = [] \<and> read_file logPath d = Some (log_bytes (drop (i - baseIndex fs) (loaded fs)))"
proof -
  let ?keep = "drop (i - baseIndex fs) (loaded fs)"
  have keep: "drop (min (i - baseIndex fs) (length (loaded fs))) (loaded fs) = ?keep" by (simp add: min_def)
  obtain d where d: "write_compacted ?keep (fsdisk fs) = (True, d)" "faults d = []"
    "read_file (logPath @ ''.tmp'') d = Some (log_bytes ?keep)"
    using write_compacted_ok [OF assms(2)] by blast
  have "os_rename (logPath @ ''.tmp'') logPath d = (True, set_file logPath (log_bytes ?keep) (unset_file (logPath @ ''.tmp'') d))"
    by (rule os_rename_ok [OF d(2,3)])
  then show ?thesis
    using assms d unfolding fs_DiscardLogThrough_def keep
    by (intro exI [of _ "set_file logPath (log_bytes ?keep) (unset_file (logPath @ ''.tmp'') d)"])
      (simp add: Let_def sync_calls_ok os_open_create_def)
qed

lemma save_ok:
  assumes "faults (fsdisk fs) = []"
  shows "\<exists>d. fs_SaveTermAndVote fs t v = (True, fs\<lparr>fsdisk := d\<rparr>) \<and> faults d = [] \<and> read_file statePath d = Some (encode_state t v)"
    and "\<exists>d. fs_SaveSnapshot fs i t data = (True, fs\<lparr>fsdisk := d\<rparr>) \<and> faults d = [] \<and> read_file snapshotPath d = Some (encode_snapshot i t data)"
  using replace_file_ok [OF assms] replace_file_any(3)
  by (simp_all add: fs_SaveTermAndVote_def fs_SaveSnapshot_def split: prod.splits) (metis prod.inject)+

section \<open>Opening\<close>

lemma cleanup_read:
  "cleanupOrphanedTemp d = (ok, d') \<Longrightarrow> q \<notin> {logPath @ ''.tmp'', snapshotPath @ ''.tmp'', statePath @ ''.tmp''} \<Longrightarrow>
   read_file q d' = read_file q d"
  by (auto simp: cleanupOrphanedTemp_def os_remove_def read_next_fault split: if_splits prod.splits option.splits)

lemma state_not_tmp [simp]:
  "statePath \<notin> {logPath @ ''.tmp'', snapshotPath @ ''.tmp'', statePath @ ''.tmp''}"
  "snapshotPath \<notin> {logPath @ ''.tmp'', snapshotPath @ ''.tmp'', statePath @ ''.tmp''}"
  "logPath \<notin> {logPath @ ''.tmp'', snapshotPath @ ''.tmp'', statePath @ ''.tmp''}"
  by (simp_all add: statePath_def snapshotPath_def logPath_def)

lemma open_read:
  assumes "OpenFileStorage d = (Some fs, d')"
  shows "fsdisk fs = d'" "read_file statePath d' = read_file statePath d" "read_file snapshotPath d' = read_file snapshotPath d"
  using assms
  by (auto simp: OpenFileStorage_def os_sync_read cleanup_read os_open_create_read os_truncate_read
      split: prod.splits bool.splits option.splits)

lemma cleanup_faults: "faults d = [] \<Longrightarrow> \<exists>d'. cleanupOrphanedTemp d = (True, d') \<and> faults d' = []"
  by (simp add: cleanupOrphanedTemp_def)

text \<open>Without faults the storage opens unless the snapshot file does not parse.\<close>

lemma open_ok:
  assumes "faults d = []" and "load_snapshot d = Some snap"
    and "replayLogFile 0 (case read_file logPath d of None \<Rightarrow> [] | Some f \<Rightarrow> f) = (es, os, n)"
  shows "\<exists>d'. OpenFileStorage d = (Some \<lparr>fsdisk = d', offsets = os, loaded = es,
      baseIndex = (case snap of None \<Rightarrow> 0 | Some (idx, _, _) \<Rightarrow> idx), fpos = n, fappend = False, fopen = True\<rparr>, d')
    \<and> faults d' = [] \<and> read_file logPath d' = Some (take n (case read_file logPath d of None \<Rightarrow> [] | Some f \<Rightarrow> f))"
proof -
  obtain d1 where d1: "cleanupOrphanedTemp d = (True, d1)" "faults d1 = []" using cleanup_faults [OF assms(1)] by blast
  have r: "read_file logPath d1 = read_file logPath d" "read_file snapshotPath d1 = read_file snapshotPath d"
    using cleanup_read [OF d1(1)] state_not_tmp by blast+
  let ?f = "case read_file logPath d of None \<Rightarrow> [] | Some f \<Rightarrow> f"
  let ?d2 = "if read_file logPath d1 = None then set_file logPath [] d1 else d1"
  have d2: "os_open_create logPath d1 = (True, ?d2)" "read_file logPath ?d2 = Some ?f" "faults ?d2 = []"
    "read_file snapshotPath ?d2 = read_file snapshotPath d"
    using d1(2) r by (auto simp: os_open_create_def)
  have snap: "load_snapshot (set_file logPath (take n ?f) ?d2) = Some snap"
    using assms(2) d2(4) by (simp add: load_snapshot_def)
  have tr: "os_truncate logPath n ?d2 = (True, set_file logPath (take n ?f) ?d2)"
    using d2(2,3) by (simp add: os_truncate_def)
  show ?thesis
    using assms(1,3) d1 d2 snap tr
    by (intro exI [of _ "set_file logPath (take n ?f) ?d2"]) (simp add: OpenFileStorage_def)
qed

lemma open_faults: "faults d = [] \<Longrightarrow> OpenFileStorage d = (r, d') \<Longrightarrow> faults d' = []"
  using cleanup_faults [of d]
  by (auto simp: OpenFileStorage_def os_open_create_def os_truncate_def split: prod.splits option.splits if_splits)

section \<open>Term and vote\<close>

text \<open>
  The contract of a storage for term and vote: a saved pair is the one loaded later, the other
  operations leave it alone, and reopening the storage finds it again.
\<close>

locale vote_storage =
  fixes S :: "'st Storage"
    and good :: "'st \<Rightarrow> bool"
    and tv :: "'st \<Rightarrow> nat \<times> string"
    and reopen :: "'st \<Rightarrow> 'st option"
    and id_ok :: "string \<Rightarrow> bool"
  assumes save: "good s \<Longrightarrow> t < 2 ^ 64 \<Longrightarrow> id_ok v \<Longrightarrow>
      good (snd (SaveTermAndVote S s t v)) \<and> tv (snd (SaveTermAndVote S s t v)) = (t, v)"
    and load: "good s \<Longrightarrow> LoadTermAndVote S s = Some (tv s)"
    and append: "good s \<Longrightarrow> good (snd (AppendEntries S s es)) \<and> tv (snd (AppendEntries S s es)) = tv s"
    and truncate: "good s \<Longrightarrow> good (snd (TruncateFrom S s i)) \<and> tv (snd (TruncateFrom S s i)) = tv s"
    and snapshot: "good s \<Longrightarrow> good (snd (SaveSnapshot S s i t data)) \<and> tv (snd (SaveSnapshot S s i t data)) = tv s"
    and discard: "good s \<Longrightarrow> good (snd (DiscardLogThrough S s i)) \<and> tv (snd (DiscardLogThrough S s i)) = tv s"
    and reopen: "good s \<Longrightarrow> reopen s = Some s' \<Longrightarrow> good s' \<and> tv s' = tv s"

definition fs_good :: "FileStorage \<Rightarrow> bool" where
  "fs_good fs \<longleftrightarrow> faults (fsdisk fs) = [] \<and> load_state (fsdisk fs) \<noteq> None"

definition fs_tv :: "FileStorage \<Rightarrow> nat \<times> string" where
  "fs_tv fs = the (load_state (fsdisk fs))"

definition fs_reopen :: "FileStorage \<Rightarrow> FileStorage option" where
  "fs_reopen fs = fst (OpenFileStorage (fsdisk fs))"

lemma fs_good_same:
  assumes "fs_good fs" and "read_file statePath (fsdisk fs') = read_file statePath (fsdisk fs)" and "faults (fsdisk fs') = []"
  shows "fs_good fs' \<and> fs_tv fs' = fs_tv fs"
  using assms by (simp add: fs_good_def fs_tv_def load_state_def)

lemma op_faults:
  assumes "faults (fsdisk fs) = []"
  shows "faults (fsdisk (snd (fs_AppendEntries fs es))) = []" "faults (fsdisk (snd (fs_TruncateFrom fs i))) = []"
    "faults (fsdisk (snd (fs_DiscardLogThrough fs i))) = []"
proof -
  show "faults (fsdisk (snd (fs_AppendEntries fs es))) = []"
  proof (cases "fopen fs")
    case True
    with append_ok [OF _ assms, of es] show ?thesis by auto
  next
    case False
    then have "append_loop es fs = (es = [], fs)" by (cases es) simp_all
    with False assms show ?thesis by (cases "es = []") (simp_all add: fs_AppendEntries_def log_sync_def)
  qed
  show "faults (fsdisk (snd (fs_TruncateFrom fs i))) = []"
  proof (cases "fopen fs")
    case True
    with truncate_succeeds [OF _ assms, of i] show ?thesis by auto
  next
    case False
    with assms show ?thesis by (simp add: fs_TruncateFrom_def Let_def split: option.splits)
  qed
  show "faults (fsdisk (snd (fs_DiscardLogThrough fs i))) = []"
  proof (cases "fopen fs \<and> baseIndex fs < i")
    case True
    with discard_succeeds [OF _ assms, of i] show ?thesis by auto
  next
    case False
    obtain d where "write_compacted (drop (min (i - baseIndex fs) (length (loaded fs))) (loaded fs)) (fsdisk fs) = (True, d)" "faults d = []"
      using write_compacted_ok [OF assms] by blast
    with False assms show ?thesis by (auto simp: fs_DiscardLogThrough_def Let_def)
  qed
qed

interpretation fsv: vote_storage FileStorage_Storage fs_good fs_tv fs_reopen ascii
proof unfold_locales
  fix fs :: FileStorage and t :: nat and v :: string
  assume "fs_good fs" and t: "t < 2 ^ 64" and v: "ascii v"
  then obtain d where "fs_SaveTermAndVote fs t v = (True, fs\<lparr>fsdisk := d\<rparr>)" "faults d = []"
    "read_file statePath d = Some (encode_state t v)" using save_ok(1) [of fs t v] by (auto simp: fs_good_def)
  with decode_encode_state [OF t v]
  show "fs_good (snd (SaveTermAndVote FileStorage_Storage fs t v)) \<and> fs_tv (snd (SaveTermAndVote FileStorage_Storage fs t v)) = (t, v)"
    by (simp add: FileStorage_Storage_def fs_good_def fs_tv_def load_state_def)
next
  fix fs assume "fs_good fs"
  then show "LoadTermAndVote FileStorage_Storage fs = Some (fs_tv fs)"
    by (auto simp: FileStorage_Storage_def fs_LoadTermAndVote_def fs_good_def fs_tv_def)
next
  fix fs :: FileStorage and es assume g: "fs_good fs"
  have "read_file statePath (fsdisk (snd (fs_AppendEntries fs es))) = read_file statePath (fsdisk fs)"
    by (rule append_read [OF surjective_pairing]) simp
  with g op_faults(1) [of fs es] show "fs_good (snd (AppendEntries FileStorage_Storage fs es))
      \<and> fs_tv (snd (AppendEntries FileStorage_Storage fs es)) = fs_tv fs"
    using fs_good_same [OF g, of "snd (fs_AppendEntries fs es)"] by (simp add: FileStorage_Storage_def fs_good_def)
next
  fix fs :: FileStorage and i assume g: "fs_good fs"
  have "read_file statePath (fsdisk (snd (fs_TruncateFrom fs i))) = read_file statePath (fsdisk fs)"
    by (rule truncate_read [OF surjective_pairing]) simp
  with g op_faults(2) [of fs i] show "fs_good (snd (TruncateFrom FileStorage_Storage fs i))
      \<and> fs_tv (snd (TruncateFrom FileStorage_Storage fs i)) = fs_tv fs"
    using fs_good_same [OF g, of "snd (fs_TruncateFrom fs i)"] by (simp add: FileStorage_Storage_def fs_good_def)
next
  fix fs :: FileStorage and i t :: nat and data assume g: "fs_good fs"
  then obtain d where "fs_SaveSnapshot fs i t data = (True, fs\<lparr>fsdisk := d\<rparr>)" "faults d = []"
    using save_ok(2) [of fs i t data] by (auto simp: fs_good_def)
  moreover from this have "read_file statePath d = read_file statePath (fsdisk fs)" using save_read(2) by fastforce
  ultimately show "fs_good (snd (SaveSnapshot FileStorage_Storage fs i t data))
      \<and> fs_tv (snd (SaveSnapshot FileStorage_Storage fs i t data)) = fs_tv fs"
    using fs_good_same [OF g, of "fs\<lparr>fsdisk := d\<rparr>"] by (simp add: FileStorage_Storage_def)
next
  fix fs :: FileStorage and i assume g: "fs_good fs"
  have "read_file statePath (fsdisk (snd (fs_DiscardLogThrough fs i))) = read_file statePath (fsdisk fs)"
    by (rule discard_read [OF surjective_pairing]) simp_all
  with g op_faults(3) [of fs i] show "fs_good (snd (DiscardLogThrough FileStorage_Storage fs i))
      \<and> fs_tv (snd (DiscardLogThrough FileStorage_Storage fs i)) = fs_tv fs"
    using fs_good_same [OF g, of "snd (fs_DiscardLogThrough fs i)"] by (simp add: FileStorage_Storage_def fs_good_def)
next
  fix fs fs' assume g: "fs_good fs" and "fs_reopen fs = Some fs'"
  then obtain d' where o: "OpenFileStorage (fsdisk fs) = (Some fs', d')" unfolding fs_reopen_def by (metis prod.collapse)
  from g o have "faults d' = []" using open_faults fs_good_def by blast
  with open_read [OF o] show "fs_good fs' \<and> fs_tv fs' = fs_tv fs" using fs_good_same [OF g, of fs'] by simp
qed

end
