(* ===== verification/File_Props.thy ===== *)
theory File_Props
  imports File_Storage Raft_Log
begin

text \<open>
  Properties of the durable Raft storage: it implements an abstract log through any sequence of
  appends and truncations, survives a crash in the middle of an append and of a save of term and
  vote, and two places where what is on disk afterwards is not what the node had.
\<close>

section \<open>The log file holds the loaded entries\<close>

definition log_file_ok :: "FileStorage \<Rightarrow> bool" where
  "log_file_ok fs \<longleftrightarrow> fopen fs \<and> read_file logPath (fsdisk fs) = Some (log_bytes (loaded fs))
     \<and> offsets fs = offsets_of 0 (loaded fs) \<and> fpos fs = length (log_bytes (loaded fs)) \<and> list_all entry_ok (loaded fs)"

lemma offsets_of_append: "offsets_of k (es @ fs) = offsets_of k es @ offsets_of (k + length (log_bytes es)) fs"
  by (induction es arbitrary: k) (simp_all add: add.assoc)

lemma offsets_of_nth: "i < length es \<Longrightarrow> offsets_of k es ! i = k + length (log_bytes (take i es))"
  by (induction es arbitrary: i k) (auto simp: nth_Cons split: nat.splits)

lemma length_offsets_of [simp]: "length (offsets_of k es) = length es"
  by (induction es arbitrary: k) simp_all

lemma offsets_of_take: "take n (offsets_of k es) = offsets_of k (take n es)"
  by (induction es arbitrary: n k) (simp_all add: take_Cons split: nat.splits)

lemma log_bytes_take: "take (length (log_bytes (take n es))) (log_bytes es) = log_bytes (take n es)"
  by (metis append_eq_conv_conj append_take_drop_id log_bytes_simps(3))

lemma put_at_end [simp]: "put_at (length old) bs old = old @ bs"
  by (simp add: put_at_def)

lemma write_at_end:
  assumes "log_file_ok fs" and "read_file logPath d = read_file logPath (fsdisk fs)"
  shows "write_at bs d fs = fs\<lparr>fsdisk := set_file logPath (log_bytes (loaded fs) @ bs) d, fpos := length (log_bytes (loaded fs)) + length bs\<rparr>"
  using assms by (simp add: write_at_def log_file_ok_def)

text \<open>Whatever fails, an append leaves a prefix of the new frames behind the old ones.\<close>

lemma append_loop_any:
  assumes "log_file_ok fs" and "list_all entry_ok es" and "append_loop es fs = (ok, fs')"
  shows "\<exists>q. read_file logPath (fsdisk fs') = Some (log_bytes (loaded fs) @ q) \<and> prefix q (log_bytes es)
    \<and> (ok \<longrightarrow> q = log_bytes es \<and> log_file_ok fs' \<and> loaded fs' = loaded fs @ es \<and> baseIndex fs' = baseIndex fs)"
  using assms
proof (induction es arbitrary: fs)
  case Nil
  then show ?case by (auto simp: log_file_ok_def)
next
  case (Cons e es)
  have op: "fopen fs" using Cons.prems(1) by (simp add: log_file_ok_def)
  obtain f d where f: "next_fault (fsdisk fs) = (f, d)" by (cases "next_fault (fsdisk fs)")
  have r: "read_file logPath d = read_file logPath (fsdisk fs)" using f by (rule read_next_fault)
  show ?case
  proof (cases f)
    case (Some n)
    with Cons.prems(3) op f write_at_end [OF Cons.prems(1) r] have
      "\<not> ok" "read_file logPath (fsdisk fs') = Some (log_bytes (loaded fs) @ take n (encodeLogEntry e))"
      by (auto simp: log_write_def)
    then show ?thesis by (intro exI [of _ "take n (encodeLogEntry e)"]) (simp add: take_is_prefix)
  next
    case None
    let ?fs = "fs\<lparr>fsdisk := set_file logPath (log_bytes (loaded fs) @ encodeLogEntry e) d,
        fpos := length (log_bytes (loaded fs)) + length (encodeLogEntry e), offsets := offsets fs @ [fpos fs], loaded := loaded fs @ [e]\<rparr>"
    have ok: "log_file_ok ?fs" using Cons.prems(1,2) by (simp add: log_file_ok_def offsets_of_append)
    have run: "append_loop es ?fs = (ok, fs')"
      using Cons.prems(3) op f None write_at_end [OF Cons.prems(1) r] by (simp add: log_write_def)
    from Cons.IH [OF ok _ run] Cons.prems(2) obtain q where
      "read_file logPath (fsdisk fs') = Some (log_bytes (loaded fs @ [e]) @ q)" "prefix q (log_bytes es)"
      "ok \<longrightarrow> q = log_bytes es \<and> log_file_ok fs' \<and> loaded fs' = (loaded fs @ [e]) @ es \<and> baseIndex fs' = baseIndex fs"
      by auto
    then show ?thesis by (intro exI [of _ "encodeLogEntry e @ q"]) simp
  qed
qed

lemma append_any:
  assumes "log_file_ok fs" and "list_all entry_ok es" and "fs_AppendEntries fs es = (ok, fs')"
  shows "\<exists>q. read_file logPath (fsdisk fs') = Some (log_bytes (loaded fs) @ q) \<and> prefix q (log_bytes es)
    \<and> (ok \<longrightarrow> q = log_bytes es \<and> log_file_ok fs' \<and> loaded fs' = loaded fs @ es \<and> baseIndex fs' = baseIndex fs)"
proof -
  obtain ok1 fs1 where l: "append_loop es fs = (ok1, fs1)" by (cases "append_loop es fs")
  have s: "\<exists>d. fs' = fs1\<lparr>fsdisk := d\<rparr> \<and> read_file logPath d = read_file logPath (fsdisk fs1)" and "ok \<longrightarrow> ok1"
    using assms(3) l by (auto simp: fs_AppendEntries_def log_sync_def os_sync_read split: bool.splits if_splits prod.splits
        intro: exI [of _ "fsdisk fs1"])
  with append_loop_any [OF assms(1,2) l] show ?thesis by (auto simp: log_file_ok_def)
qed

lemma truncate_log_ok:
  assumes "log_file_ok fs" and "faults (fsdisk fs) = []" and "i < 2 ^ 64"
  shows "\<exists>fs'. fs_TruncateFrom fs i = (True, fs') \<and> log_file_ok fs' \<and> faults (fsdisk fs') = [] \<and> baseIndex fs' = baseIndex fs
    \<and> loaded fs' = (if baseIndex fs < i then take (i - baseIndex fs - 1) (loaded fs) else loaded fs)"
proof (cases "baseIndex fs < i \<and> i - baseIndex fs - 1 < length (loaded fs)")
  case True
  let ?k = "i - baseIndex fs - 1"
  have s: "sub64 i (baseIndex fs) = i - baseIndex fs" using True assms(3) by (intro sub64_le) simp_all
  have "sub64 (i - baseIndex fs) 1 = ?k" using True assms(3) by (intro sub64_le) linarith+
  then have p: "position i fs = Some ?k" using True s by (simp add: position_def)
  have o: "offsets fs ! ?k = length (log_bytes (take ?k (loaded fs)))" "offsets fs = offsets_of 0 (loaded fs)"
    using True assms(1) by (simp_all add: log_file_ok_def offsets_of_nth)
  have e: "list_all entry_ok (take ?k (loaded fs))" using assms(1) by (auto simp: log_file_ok_def list_all_iff dest: in_set_takeD)
  show ?thesis using assms(1,2) True p o(1) e
    by (simp add: fs_TruncateFrom_def os_truncate_def log_sync_def log_file_ok_def log_bytes_take offsets_of_take)
next
  case False
  have "position i fs = None"
  proof (cases "baseIndex fs < i")
    case True
    have "sub64 i (baseIndex fs) = i - baseIndex fs" using True assms(3) by (intro sub64_le) simp_all
    moreover have "sub64 (i - baseIndex fs) 1 = i - baseIndex fs - 1" using True assms(3) by (intro sub64_le) linarith+
    ultimately show ?thesis using True False by (simp add: position_def)
  qed (simp add: position_def)
  with assms False show ?thesis by (auto simp: fs_TruncateFrom_def)
qed

lemma reopen_log:
  assumes "faults d = []" and "read_file logPath d = Some (log_bytes es @ tail)" and "decodeLogEntry tail = Inl err"
    and "load_snapshot d = Some snap" and "list_all entry_ok es"
  obtains fs where "OpenFileStorage d = (Some fs, fsdisk fs)" "loaded fs = es" "log_file_ok fs" "faults (fsdisk fs) = []"
    "baseIndex fs = (case snap of None \<Rightarrow> 0 | Some (idx, _, _) \<Rightarrow> idx)"
proof -
  have "replayLogFile 0 (log_bytes es @ tail) = (es, offsets_of 0 es, length (log_bytes es))"
    using replayLogFile_log [OF assms(5,3), of 0] by simp
  then obtain d' where "OpenFileStorage d = (Some \<lparr>fsdisk = d', offsets = offsets_of 0 es, loaded = es,
      baseIndex = (case snap of None \<Rightarrow> 0 | Some (idx, _, _) \<Rightarrow> idx), fpos = length (log_bytes es),
      fappend = False, fopen = True\<rparr>, d')" "faults d' = []" "read_file logPath d' = Some (log_bytes es)"
    using open_ok [OF assms(1,4), of es "offsets_of 0 es" "length (log_bytes es)"] assms(2) by auto
  then show ?thesis using assms(5)
    by (intro that [of "\<lparr>fsdisk = d', offsets = offsets_of 0 es, loaded = es,
      baseIndex = (case snap of None \<Rightarrow> 0 | Some (idx, _, _) \<Rightarrow> idx), fpos = length (log_bytes es),
      fappend = False, fopen = True\<rparr>"]) (simp_all add: log_file_ok_def)
qed

section \<open>The storage implements a log\<close>

datatype log_op = LogAppend "LogEntry list" | LogTruncate nat

fun run_log_op :: "log_op \<Rightarrow> FileStorage \<Rightarrow> FileStorage" where
  "run_log_op (LogAppend es) fs = snd (fs_AppendEntries fs es)"
| "run_log_op (LogTruncate i) fs = snd (fs_TruncateFrom fs i)"

text \<open>The same on a list of entries that starts after \<open>base\<close>.\<close>

fun spec_log_op :: "nat \<Rightarrow> log_op \<Rightarrow> LogEntry list \<Rightarrow> LogEntry list" where
  "spec_log_op base (LogAppend es) l = l @ es"
| "spec_log_op base (LogTruncate i) l = (if base < i then take (i - base - 1) l else l)"

fun log_op_ok :: "log_op \<Rightarrow> bool" where
  "log_op_ok (LogAppend es) = list_all entry_ok es"
| "log_op_ok (LogTruncate i) = (i < 2 ^ 64)"

lemma run_log_op_ok:
  assumes "log_file_ok fs" and "faults (fsdisk fs) = []" and "log_op_ok a"
  shows "log_file_ok (run_log_op a fs) \<and> faults (fsdisk (run_log_op a fs)) = [] \<and> baseIndex (run_log_op a fs) = baseIndex fs
    \<and> loaded (run_log_op a fs) = spec_log_op (baseIndex fs) a (loaded fs)
    \<and> read_file snapshotPath (fsdisk (run_log_op a fs)) = read_file snapshotPath (fsdisk fs)"
proof (cases a)
  case (LogAppend es)
  have "fopen fs" using assms(1) by (simp add: log_file_ok_def)
  then obtain fs' where run: "fs_AppendEntries fs es = (True, fs')" "faults (fsdisk fs') = []" using append_ok assms(2) by blast
  with append_any [OF assms(1) _ run(1)] append_read [OF run(1), of snapshotPath] LogAppend assms(3) show ?thesis by auto
next
  case (LogTruncate i)
  with assms(3) have "i < 2 ^ 64" by simp
  then obtain fs' where run: "fs_TruncateFrom fs i = (True, fs')" "log_file_ok fs'" "faults (fsdisk fs') = []" "baseIndex fs' = baseIndex fs"
    "loaded fs' = (if baseIndex fs < i then take (i - baseIndex fs - 1) (loaded fs) else loaded fs)"
    using truncate_log_ok [OF assms(1,2)] by blast
  with LogTruncate truncate_read [OF run(1), of snapshotPath] show ?thesis by simp
qed

lemma run_log_ops_ok:
  assumes "log_file_ok fs" and "faults (fsdisk fs) = []" and "list_all log_op_ok ops"
  shows "log_file_ok (fold run_log_op ops fs) \<and> faults (fsdisk (fold run_log_op ops fs)) = []
    \<and> loaded (fold run_log_op ops fs) = fold (spec_log_op (baseIndex fs)) ops (loaded fs)
    \<and> read_file snapshotPath (fsdisk (fold run_log_op ops fs)) = read_file snapshotPath (fsdisk fs)"
  using assms
proof (induction ops arbitrary: fs)
  case (Cons a ops)
  then have "log_op_ok a" by simp
  note step = run_log_op_ok [OF Cons.prems(1,2) this]
  from Cons.IH [of "run_log_op a fs"] step Cons.prems(3) show ?case by simp
qed simp

text \<open>
  C18: Through any sequence of appends and truncations in which no system call fails, the storage
  keeps exactly the entries an abstract log would keep, and a process that opens the directory
  afterwards loads the same entries.
\<close>

theorem file_storage_refines_log:
  assumes "log_file_ok fs" and "faults (fsdisk fs) = []" and "load_snapshot (fsdisk fs) \<noteq> None"
    and "list_all log_op_ok ops"
  shows "fs_LoadLog (fold run_log_op ops fs) = Some (fold (spec_log_op (baseIndex fs)) ops (loaded fs))
    \<and> (\<exists>fs'. fs_reopen (fold run_log_op ops fs) = Some fs' \<and> log_file_ok fs'
         \<and> fs_LoadLog fs' = Some (fold (spec_log_op (baseIndex fs)) ops (loaded fs)))"
proof -
  let ?fs = "fold run_log_op ops fs"
  note run = run_log_ops_ok [OF assms(1,2,4)]
  obtain snap where "load_snapshot (fsdisk ?fs) = Some snap" using assms(3) run by (auto simp: load_snapshot_def)
  moreover have "read_file logPath (fsdisk ?fs) = Some (log_bytes (loaded ?fs) @ [])" "list_all entry_ok (loaded ?fs)"
    using conjunct1 [OF run] unfolding log_file_ok_def by simp_all
  ultimately obtain fs' where "OpenFileStorage (fsdisk ?fs) = (Some fs', fsdisk fs')" "loaded fs' = loaded ?fs" "log_file_ok fs'"
    using reopen_log [of "fsdisk ?fs" "loaded ?fs" "[]" EOF snap] run rlog.decode_nil by metis
  then show ?thesis using run by (auto simp: fs_LoadLog_def fs_reopen_def)
qed

definition sample_fs :: FileStorage where
  "sample_fs = \<lparr>fsdisk = \<lparr>files = [(logPath, [])], faults = []\<rparr>, offsets = [], loaded = [], baseIndex = 0, fpos = 0,
     fappend = False, fopen = True\<rparr>"

definition sample_entry :: "nat \<Rightarrow> LogEntry" where
  "sample_entry i = \<lparr>eTerm = 1, eIndex = i, eCommand = [7]\<rparr>"

lemma sample_entry_ok [simp]: "i < 2 ^ 64 \<Longrightarrow> entry_ok (sample_entry i)"
  by (simp add: entry_ok_def sample_entry_def)

lemma sample_fs_ok: "log_file_ok sample_fs" "faults (fsdisk sample_fs) = []" "load_snapshot (fsdisk sample_fs) = Some None"
  by (simp_all add: log_file_ok_def sample_fs_def read_file_def load_snapshot_def)

theorem file_storage_refines_log_witness:
  "fs_LoadLog (fold run_log_op [LogAppend [sample_entry 1, sample_entry 2], LogTruncate 2, LogAppend [sample_entry 2]] sample_fs)
    = Some [sample_entry 1, sample_entry 2]"
proof -
  have "list_all log_op_ok [LogAppend [sample_entry 1, sample_entry 2], LogTruncate 2, LogAppend [sample_entry 2]]" by simp
  from file_storage_refines_log [OF sample_fs_ok(1,2) _ this] sample_fs_ok(3) show ?thesis
    by (simp add: sample_fs_def)
qed

text \<open>
  C19: A crash or an error at any system call of an append, after which the directory is opened
  again: the old entries are all there, followed by the first of the new entries, and by all of
  them if the append had returned success.
\<close>

theorem append_crash_safe:
  assumes "log_file_ok fs" and "load_snapshot (fsdisk fs) \<noteq> None" and "list_all entry_ok es"
    and "fs_AppendEntries fs es = (ok, fs')"
  shows "\<exists>r j. OpenFileStorage ((fsdisk fs')\<lparr>faults := []\<rparr>) = (Some r, fsdisk r) \<and> log_file_ok r
    \<and> loaded r = loaded fs @ take j es \<and> (ok \<longrightarrow> loaded r = loaded fs @ es)"
proof -
  let ?d = "(fsdisk fs')\<lparr>faults := []\<rparr>"
  have rd: "read_file p ?d = read_file p (fsdisk fs')" for p by (simp add: read_file_def)
  obtain q where q: "read_file logPath ?d = Some (log_bytes (loaded fs) @ q)" "prefix q (log_bytes es)" "ok \<longrightarrow> q = log_bytes es"
    using append_any [OF assms(1,3,4)] rd by auto
  obtain j tail err where j: "j \<le> length es" "q = log_bytes (take j es) @ tail" "decodeLogEntry tail = Inl err"
    "j = length es \<or> q \<noteq> log_bytes es" by (rule log_bytes_cut [OF assms(3) q(2)])
  obtain snap where snap: "load_snapshot ?d = Some snap"
    using assms(2) append_read [OF assms(4), of snapshotPath] rd by (auto simp: load_snapshot_def)
  have ok: "list_all entry_ok (loaded fs @ take j es)"
    using assms(1,3) by (auto simp: log_file_ok_def list_all_iff dest: in_set_takeD)
  have f: "read_file logPath ?d = Some (log_bytes (loaded fs @ take j es) @ tail)" using q(1) j(2) by simp
  obtain r where "OpenFileStorage ?d = (Some r, fsdisk r)" "loaded r = loaded fs @ take j es" "log_file_ok r"
    using reopen_log [OF _ f j(3) snap ok] by auto
  then show ?thesis using j(1,4) q(3) by (intro exI [of _ r] exI [of _ j]) auto
qed

theorem append_crash_safe_witness:
  "\<exists>r j. OpenFileStorage ((fsdisk (snd (fs_AppendEntries (sample_fs\<lparr>fsdisk := \<lparr>files = [(logPath, [])], faults = [Ok, Crash 5]\<rparr>\<rparr>)
       [sample_entry 1, sample_entry 2])))\<lparr>faults := []\<rparr>) = (Some r, fsdisk r) \<and> loaded r = take j [sample_entry 1, sample_entry 2]"
proof -
  let ?fs = "sample_fs\<lparr>fsdisk := \<lparr>files = [(logPath, [])], faults = [Ok, Crash 5]\<rparr>\<rparr>"
  have "log_file_ok ?fs" "load_snapshot (fsdisk ?fs) \<noteq> None" "loaded ?fs = []"
    by (simp_all add: log_file_ok_def sample_fs_def read_file_def load_snapshot_def)
  with append_crash_safe [of ?fs "[sample_entry 1, sample_entry 2]", OF _ _ _ surjective_pairing] show ?thesis by fastforce
qed

text \<open>
  C20: Term and vote are replaced atomically: after an error or a crash at any system call of
  \<^verbatim>\<open>SaveTermAndVote\<close> the reopened storage has the old pair or the new one, and the new one if the
  call had returned success.
\<close>

theorem vote_crash_safe:
  assumes "load_state (fsdisk fs) = Some old" and "load_snapshot (fsdisk fs) \<noteq> None"
    and "t < 2 ^ 64" and "ascii v" and "fs_SaveTermAndVote fs t v = (ok, fs')"
  shows "\<exists>r. OpenFileStorage ((fsdisk fs')\<lparr>faults := []\<rparr>) = (Some r, fsdisk r)
    \<and> (fs_LoadTermAndVote r = Some old \<or> fs_LoadTermAndVote r = Some (t, v))
    \<and> (ok \<longrightarrow> fs_LoadTermAndVote r = Some (t, v))"
proof -
  let ?d = "(fsdisk fs')\<lparr>faults := []\<rparr>"
  have rd: "read_file p ?d = read_file p (fsdisk fs')" for p by (simp add: read_file_def)
  obtain snap where snap: "load_snapshot ?d = Some snap"
    using assms(2) save_read(1) [OF assms(5), of snapshotPath] rd by (auto simp: load_snapshot_def)
  obtain es os n where "replayLogFile 0 (case read_file logPath ?d of None \<Rightarrow> [] | Some f \<Rightarrow> f) = (es, os, n)"
    by (cases "replayLogFile 0 (case read_file logPath ?d of None \<Rightarrow> [] | Some f \<Rightarrow> f)")
  with open_ok [OF _ snap] obtain r d' where r: "OpenFileStorage ?d = (Some r, d')" by auto
  have "fs_SaveTermAndVote fs t v = (ok, fs') \<Longrightarrow> \<exists>d. replace_file statePath (encode_state t v) (fsdisk fs) = (ok, d) \<and> fs' = fs\<lparr>fsdisk := d\<rparr>"
    by (auto simp: fs_SaveTermAndVote_def split: prod.splits)
  with assms(5) obtain d where d: "replace_file statePath (encode_state t v) (fsdisk fs) = (ok, d)" "fsdisk fs' = d" by auto
  have "load_state d = Some old \<or> load_state d = Some (t, v)" "ok \<longrightarrow> load_state d = Some (t, v)"
    using replace_file_any(2,3) [OF d(1)] assms(1) decode_encode_state [OF assms(3,4)] by (auto simp: load_state_def)
  moreover have "fs_LoadTermAndVote r = load_state d"
    using open_read [OF r] rd d(2) by (simp add: fs_LoadTermAndVote_def load_state_def)
  ultimately show ?thesis using r open_read(1) [OF r] by auto
qed

theorem vote_crash_safe_witness:
  "\<exists>r. OpenFileStorage ((fsdisk (snd (fs_SaveTermAndVote (sample_fs\<lparr>fsdisk := \<lparr>files = [(logPath, [])], faults = [Ok, Crash 3]\<rparr>\<rparr>) 4 ''n1'')))\<lparr>faults := []\<rparr>)
     = (Some r, fsdisk r) \<and> (fs_LoadTermAndVote r = Some (0, '''') \<or> fs_LoadTermAndVote r = Some (4, ''n1''))"
proof -
  let ?fs = "sample_fs\<lparr>fsdisk := \<lparr>files = [(logPath, [])], faults = [Ok, Crash 3]\<rparr>\<rparr>"
  have "load_state (fsdisk ?fs) = Some (0, '''')" "load_snapshot (fsdisk ?fs) \<noteq> None" "ascii ''n1''"
    by (simp_all add: read_file_def load_state_def load_snapshot_def code_def)
  with vote_crash_safe [of ?fs "(0, '''')" 4 "''n1''", OF _ _ _ _ surjective_pairing] show ?thesis by fastforce
qed

section \<open>Restart\<close>

lemma reopen_node:
  assumes "log_file_ok fs" and "faults (fsdisk fs) = []" and "load_state (fsdisk fs) = Some (t, v)"
    and "load_snapshot (fsdisk fs) = Some (Some (idx, tm, data))" and "fst (Restore M sm data)"
  shows "\<exists>r n. fs_reopen fs = Some r \<and> NewNode FileStorage_Storage M i ps r sm op = Inr n
    \<and> currentTerm n = t \<and> votedFor n = v \<and> log n = loaded fs \<and> logBaseIndex n = idx \<and> logBaseTerm n = tm
    \<and> stateMachine n = snd (Restore M sm data) \<and> commitIndex n = idx
    \<and> (log_ok n \<longleftrightarrow> from_index (idx + 1) (loaded fs) \<and> idx + length (loaded fs) + 1 < 2 ^ 64)"
proof -
  have f: "read_file logPath (fsdisk fs) = Some (log_bytes (loaded fs) @ [])" "list_all entry_ok (loaded fs)"
    using assms(1) by (simp_all add: log_file_ok_def)
  obtain r where r: "OpenFileStorage (fsdisk fs) = (Some r, fsdisk r)" "loaded r = loaded fs"
    using reopen_log [OF assms(2) f(1) rlog.decode_nil assms(4) f(2)] by blast
  have ld: "load_state (fsdisk r) = Some (t, v)" "load_snapshot (fsdisk r) = Some (Some (idx, tm, data))"
    using open_read [OF r(1)] assms(3,4) by (simp_all add: load_state_def load_snapshot_def)
  obtain sm' where "Restore M sm data = (True, sm')" using assms(5) by (cases "Restore M sm data") auto
  with ld r(2) show ?thesis
    by (simp add: fs_reopen_def r(1) NewNode_def FileStorage_Storage_def fs_LoadTermAndVote_def fs_LoadSnapshot_def fs_LoadLog_def
        log_ok_def from_index_def add.commute)
qed


definition sample_snapshot_fs :: FileStorage where
  "sample_snapshot_fs = snd (fs_SaveSnapshot (snd (fs_AppendEntries sample_fs [sample_entry 1, sample_entry 2])) 2 1 [9])"

definition sample_restore :: "bytes StateMachine" where
  "sample_restore = \<lparr>Apply = \<lambda>s c. (True, s @ c), Snapshot = Some, Restore = \<lambda>s d. (True, d)\<rparr>"

lemma sample_snapshot_fs:
  "log_file_ok sample_snapshot_fs" "faults (fsdisk sample_snapshot_fs) = []" "load_state (fsdisk sample_snapshot_fs) = Some (0, '''')"
  "load_snapshot (fsdisk sample_snapshot_fs) = Some (Some (2, 1, [9]))" "loaded sample_snapshot_fs = [sample_entry 1, sample_entry 2]"
proof -
  let ?es = "[sample_entry 1, sample_entry 2]"
  let ?a = "run_log_op (LogAppend ?es) sample_fs"
  have a: "log_file_ok ?a" "faults (fsdisk ?a) = []" "loaded ?a = ?es"
    using run_log_op_ok [OF sample_fs_ok(1,2), of "LogAppend ?es"] by (simp_all add: sample_fs_def)
  obtain d where d: "fs_SaveSnapshot ?a 2 1 [9] = (True, ?a\<lparr>fsdisk := d\<rparr>)" "faults d = []" "read_file snapshotPath d = Some (encode_snapshot 2 1 [9])"
    using save_ok(2) [OF a(2)] by blast
  have s: "sample_snapshot_fs = ?a\<lparr>fsdisk := d\<rparr>" using d(1) by (simp add: sample_snapshot_fs_def)
  have rl: "read_file logPath d = read_file logPath (fsdisk ?a)" "read_file statePath d = read_file statePath (fsdisk ?a)"
    using save_read(2) [OF d(1)] by simp_all
  have st: "read_file statePath (fsdisk ?a) = None"
    using append_read [of sample_fs ?es _ _ statePath, OF surjective_pairing] by (simp add: sample_fs_def read_file_def)
  show "log_file_ok sample_snapshot_fs" using a(1) rl(1) by (simp add: s log_file_ok_def)
  show "faults (fsdisk sample_snapshot_fs) = []" "loaded sample_snapshot_fs = ?es" using d(2) a(3) by (simp_all add: s)
  show "load_state (fsdisk sample_snapshot_fs) = Some (0, '''')" using rl(2) st by (simp add: s load_state_def)
  show "load_snapshot (fsdisk sample_snapshot_fs) = Some (Some (2, 1, [9]))"
    using d(3) decode_encode_snapshot [of 2 1 "[9]"] by (simp add: s load_snapshot_def)
qed


section \<open>Where the directory and the node part\<close>

text \<open>
  C22: \<^verbatim>\<open>SaveSnapshot\<close> and \<^verbatim>\<open>DiscardLogThrough\<close> are two steps.  If the process stops between them, the
  restarted node takes the snapshot's index as its base and still loads the entries the snapshot
  covers, so that its log is shifted against its indices.
\<close>

theorem crash_before_discard_shifts_log:
  assumes "log_file_ok fs" and "faults (fsdisk fs) = []" and "load_state (fsdisk fs) = Some (t, v)"
    and "loaded fs = e # es" and "eIndex e \<le> idx" and "idx < 2 ^ 64" and "tm < 2 ^ 64" and "fst (Restore M sm data)"
  shows "\<exists>fs' r n. fs_SaveSnapshot fs idx tm data = (True, fs') \<and> fs_reopen fs' = Some r
    \<and> NewNode FileStorage_Storage M i ps r sm op = Inr n \<and> logBaseIndex n = idx \<and> hd (log n) = e \<and> \<not> log_ok n"
proof -
  obtain d where d: "fs_SaveSnapshot fs idx tm data = (True, fs\<lparr>fsdisk := d\<rparr>)" "faults d = []"
    "read_file snapshotPath d = Some (encode_snapshot idx tm data)" using save_ok(2) [OF assms(2)] by blast
  have rl: "read_file logPath d = read_file logPath (fsdisk fs)" "read_file statePath d = read_file statePath (fsdisk fs)"
    using save_read(2) [OF d(1)] by simp_all
  have ok: "log_file_ok (fs\<lparr>fsdisk := d\<rparr>)" using assms(1) rl(1) by (simp add: log_file_ok_def)
  have ld: "faults (fsdisk (fs\<lparr>fsdisk := d\<rparr>)) = []" "load_state (fsdisk (fs\<lparr>fsdisk := d\<rparr>)) = Some (t, v)"
    "load_snapshot (fsdisk (fs\<lparr>fsdisk := d\<rparr>)) = Some (Some (idx, tm, data))"
    using rl(2) assms(3) d(2,3) decode_encode_snapshot [OF assms(6,7)] by (simp_all add: load_state_def load_snapshot_def)
  have "\<not> from_index (idx + 1) (loaded (fs\<lparr>fsdisk := d\<rparr>))" using assms(4,5) by (auto simp: from_index_Cons)
  then obtain r n where "fs_reopen (fs\<lparr>fsdisk := d\<rparr>) = Some r" "NewNode FileStorage_Storage M i ps r sm op = Inr n"
    "logBaseIndex n = idx" "log n = loaded fs" "\<not> log_ok n"
    using reopen_node [OF ok ld assms(8), of i ps op] by auto
  with d(1) assms(4) show ?thesis by auto
qed

theorem crash_before_discard_shifts_log_witness:
  "\<exists>fs' r n. fs_SaveSnapshot sample_snapshot_fs 2 1 [9] = (True, fs') \<and> fs_reopen fs' = Some r
    \<and> NewNode FileStorage_Storage sample_restore ''n1'' [''n2''] r [] DefaultOptions = Inr n \<and> logBaseIndex n = 2
    \<and> hd (log n) = sample_entry 1 \<and> \<not> log_ok n"
  by (rule crash_before_discard_shifts_log [OF sample_snapshot_fs(1-3,5)]) (simp_all add: sample_entry_def sample_restore_def)

text \<open>
  C23: \<^verbatim>\<open>DiscardLogThrough\<close> reopens the log file for appending without seeking to its end, so the
  offset recorded for the next entry is 0.  When that entry is truncated later, the file is cut
  at 0: the entries that survived the compaction are still in memory and no longer on disk.
\<close>

theorem truncate_after_discard_loses_log:
  assumes "log_file_ok fs" and "faults (fsdisk fs) = []" and "load_snapshot (fsdisk fs) \<noteq> None"
    and "baseIndex fs < i" and "i < baseIndex fs + length (loaded fs)"
    and "entry_ok e" and "eIndex e = baseIndex fs + length (loaded fs) + 1"
  shows "\<exists>fs1 fs2 fs3 r. fs_DiscardLogThrough fs i = (True, fs1) \<and> fs_AppendEntries fs1 [e] = (True, fs2)
    \<and> fs_TruncateFrom fs2 (eIndex e) = (True, fs3) \<and> loaded fs3 = drop (i - baseIndex fs) (loaded fs) \<and> loaded fs3 \<noteq> []
    \<and> fs_reopen fs3 = Some r \<and> loaded r = []"
proof -
  let ?keep = "drop (i - baseIndex fs) (loaded fs)"
  have op: "fopen fs" using assms(1) by (simp add: log_file_ok_def)
  obtain d where d: "fs_DiscardLogThrough fs i = (True, fs\<lparr>fsdisk := d, offsets := offsets_of 0 ?keep, loaded := ?keep,
      baseIndex := i, fpos := 0, fappend := True\<rparr>)" (is "_ = (True, ?fs1)")
    "faults d = []" "read_file logPath d = Some (log_bytes ?keep)"
    using discard_succeeds [OF op assms(2,4)] by blast
  let ?d2 = "set_file logPath (log_bytes ?keep @ encodeLogEntry e) d"
  let ?fs2 = "fs\<lparr>fsdisk := ?d2, offsets := offsets_of 0 ?keep @ [0], loaded := ?keep @ [e], baseIndex := i,
      fpos := length (log_bytes ?keep) + length (encodeLogEntry e), fappend := True\<rparr>"
  have ap: "fs_AppendEntries ?fs1 [e] = (True, ?fs2)"
    using op d(2,3) by (simp add: fs_AppendEntries_def log_write_def write_at_def log_sync_def)
  have e: "eIndex e < 2 ^ 64" using assms(6) by (simp add: entry_ok_def)
  have "sub64 (eIndex e) i = eIndex e - i" by (rule sub64_le) (use assms(5,7) e in simp_all)
  moreover have "sub64 (eIndex e - i) 1 = eIndex e - i - 1" by (rule sub64_le) (use assms(5,7) e in simp_all)
  ultimately have p: "position (eIndex e) ?fs2 = Some (length ?keep)" using assms(4,5,7) by (simp add: position_def Let_def add.commute)
  let ?fs3 = "fs\<lparr>fsdisk := set_file logPath [] ?d2, offsets := offsets_of 0 ?keep, loaded := ?keep, baseIndex := i, fpos := 0, fappend := True\<rparr>"
  have tr: "fs_TruncateFrom ?fs2 (eIndex e) = (True, ?fs3)"
    using op d(2) by (simp add: fs_TruncateFrom_def p os_truncate_def log_sync_def nth_append)
  have "read_file snapshotPath d = read_file snapshotPath (fsdisk fs)" using discard_read [OF d(1), of snapshotPath] by simp
  then obtain snap where "load_snapshot (fsdisk ?fs3) = Some snap" using assms(3) by (auto simp: load_snapshot_def)
  then obtain r where "OpenFileStorage (fsdisk ?fs3) = (Some r, fsdisk r)" "loaded r = []"
    using reopen_log [of "fsdisk ?fs3" "[]" "[]" EOF snap] d(2) rlog.decode_nil by auto
  moreover have "?keep \<noteq> []" using assms(4,5) by simp
  ultimately show ?thesis using d(1) ap tr
    by (intro exI [of _ ?fs1] exI [of _ ?fs2] exI [of _ ?fs3] exI [of _ r]) (simp add: fs_reopen_def)
qed

theorem truncate_after_discard_loses_log_witness:
  "\<exists>fs1 fs2 fs3 r. fs_DiscardLogThrough sample_snapshot_fs 1 = (True, fs1) \<and> fs_AppendEntries fs1 [sample_entry 3] = (True, fs2)
    \<and> fs_TruncateFrom fs2 3 = (True, fs3) \<and> loaded fs3 = [sample_entry 2] \<and> fs_reopen fs3 = Some r \<and> loaded r = []"
proof -
  have "baseIndex sample_snapshot_fs = 0"
    using run_log_op_ok [OF sample_fs_ok(1,2), of "LogAppend [sample_entry 1, sample_entry 2]"]
    by (simp add: sample_snapshot_fs_def fs_SaveSnapshot_def sample_fs_def split: prod.splits)
  moreover have "eIndex (sample_entry 3) = 3" by (simp add: sample_entry_def)
  ultimately show ?thesis
    using truncate_after_discard_loses_log [OF sample_snapshot_fs(1,2), of 1 "sample_entry 3"] sample_snapshot_fs(4,5) by auto
qed

end
