(* ===== verification/Raft_Cluster.thy ===== *)
theory Raft_Cluster
  imports Raft_Log
begin

text \<open>
  The cluster: the nodes of \<open>Raft_Node\<close>, a network and the goroutines that wait for something.
  The network keeps every message for ever, so that messages can be lost, duplicated, delayed
  and reordered.  A step is one locked section of one node (\<^verbatim>\<open>tick\<close>, an RPC handler, the
  treatment of a reply, a round of the append loop, one applied entry, one compaction) or a crash
  and restart from what the node's storage holds.  The two ghost components record which votes
  were given and who became leader.
\<close>

section \<open>State\<close>

text \<open>The replies carry the local variables of the goroutine that sent the request.\<close>

datatype rmsg =
    VoteReq string RequestVoteArgs                         \<comment> \<open>to\<close>
  | VoteReply string string nat RequestVoteReply           \<comment> \<open>from, to, term of the election\<close>
  | AppendReq string AppendEntriesArgs
  | AppendReply string string nat nat nat AppendEntriesReply  \<comment> \<open>from, to, term, previous index, entries sent\<close>
  | SnapReq string InstallSnapshotArgs
  | SnapReply string string nat nat InstallSnapshotReply   \<comment> \<open>from, to, term, index\<close>

record ('st, 'sm) cluster =
  nodes :: "string \<Rightarrow> ('st, 'sm) Node"
  net :: "rmsg set"
  waiting :: "(string \<times> nat \<times> string) set"   \<comment> \<open>candidate, term, peer: a vote not yet answered\<close>
  snapping :: "(string \<times> nat \<times> string) set"  \<comment> \<open>leader, term, peer: a snapshot about to be sent\<close>
  restoring :: "(string \<times> InstallSnapshotArgs) set"
  finishing :: "(string \<times> InstallSnapshotArgs) set"
  granted :: "(nat \<times> string \<times> string) set"   \<comment> \<open>term, voter, candidate\<close>
  elected :: "(nat \<times> string) set"

definition set_node :: "string \<Rightarrow> ('st, 'sm) Node \<Rightarrow> ('st, 'sm) cluster \<Rightarrow> ('st, 'sm) cluster" where
  "set_node i n c = c\<lparr>nodes := (nodes c)(i := n)\<rparr>"

definition send_msgs :: "rmsg set \<Rightarrow> ('st, 'sm) cluster \<Rightarrow> ('st, 'sm) cluster" where
  "send_msgs msgs c = c\<lparr>net := net c \<union> msgs\<rparr>"

section \<open>Steps\<close>

text \<open>What one call of \<^verbatim>\<open>tick\<close> does, with its requests and the goroutines that wait for the votes.\<close>

definition tick_step :: "'st Storage \<Rightarrow> time \<Rightarrow> int \<Rightarrow> string \<Rightarrow> ('st, 'sm) cluster \<Rightarrow> ('st, 'sm) cluster" where
  "tick_step S now rnd i c =
     (case tick S now rnd (nodes c i) of
        (n, sent) \<Rightarrow>
          let c1 = send_msgs {VoteReq p args | p args. (p, args) \<in> set sent} (set_node i n c);
              T = currentTerm n
          in if T = currentTerm (nodes c i) then c1
             else c1\<lparr>waiting := waiting c1 \<union> {(i, T, p) | p. p \<in> set (peers n)},
                     granted := insert (T, i, i) (granted c1)\<rparr>)"

definition vote_step :: "'st Storage \<Rightarrow> time \<Rightarrow> int \<Rightarrow> string \<Rightarrow> RequestVoteArgs \<Rightarrow> ('st, 'sm) cluster \<Rightarrow> ('st, 'sm) cluster" where
  "vote_step S now rnd i args c =
     (case HandleRequestVote S now rnd args (nodes c i) of
        (reply, n) \<Rightarrow>
          let c1 = send_msgs {VoteReply i (rvCandidateID args) (rvTerm args) reply} (set_node i n c)
          in if vrVoteGranted reply
             then c1\<lparr>granted := insert (rvTerm args, i, rvCandidateID args) (granted c1)\<rparr> else c1)"

definition vote_reply_step :: "'st Storage \<Rightarrow> string \<Rightarrow> nat \<Rightarrow> string \<Rightarrow> RequestVoteReply \<Rightarrow> ('st, 'sm) cluster \<Rightarrow> ('st, 'sm) cluster" where
  "vote_reply_step S i T p reply c =
     (let n = startElection_reply S T reply (nodes c i);
          c1 = (set_node i n c)\<lparr>waiting := waiting c - {(i, T, p)}\<rparr>
      in if state n = Leader \<and> state (nodes c i) \<noteq> Leader
         then c1\<lparr>elected := insert (currentTerm n, i) (elected c1)\<rparr> else c1)"

text \<open>A restarted process has none of the goroutines of the old one.\<close>

definition restart_step :: "string \<Rightarrow> ('st, 'sm) Node \<Rightarrow> ('st, 'sm) cluster \<Rightarrow> ('st, 'sm) cluster" where
  "restart_step i n c =
     (set_node i n c)\<lparr>waiting := {w \<in> waiting c. fst w \<noteq> i}, snapping := {w \<in> snapping c. fst w \<noteq> i},
        restoring := {w \<in> restoring c. fst w \<noteq> i}, finishing := {w \<in> finishing c. fst w \<noteq> i}\<rparr>"

inductive step ::
  "'st Storage \<Rightarrow> 'sm StateMachine \<Rightarrow> ('st \<Rightarrow> 'st option) \<Rightarrow> string set \<Rightarrow> ('st, 'sm) cluster \<Rightarrow> ('st, 'sm) cluster \<Rightarrow> bool"
  for S M reopen ids where
  step_tick: "i \<in> ids \<Longrightarrow> currentTerm (nodes c i) + 1 < 2 ^ 64 \<Longrightarrow> step S M reopen ids c (tick_step S now rnd i c)"
| step_vote: "i \<in> ids \<Longrightarrow> VoteReq i args \<in> net c \<Longrightarrow> step S M reopen ids c (vote_step S now rnd i args c)"
| step_vote_reply: "i \<in> ids \<Longrightarrow> VoteReply p i T reply \<in> net c \<Longrightarrow> (i, T, p) \<in> waiting c \<Longrightarrow>
    step S M reopen ids c (vote_reply_step S i T p reply c)"
| step_send_append: "i \<in> ids \<Longrightarrow> p \<in> set (peers (nodes c i)) \<Longrightarrow>
    sendAppendEntriesTo_request p (nodes c i) = Some (SendAppend args) \<Longrightarrow>
    step S M reopen ids c (send_msgs {AppendReq p args} c)"
| step_append: "i \<in> ids \<Longrightarrow> AppendReq i args \<in> net c \<Longrightarrow>
    HandleAppendEntries S now rnd args (nodes c i) = Some (reply, n) \<Longrightarrow>
    step S M reopen ids c (send_msgs {AppendReply i (aeLeaderID args) (aeTerm args) (aePrevLogIndex args) (length (aeEntries args)) reply}
      (set_node i n c))"
| step_append_reply: "i \<in> ids \<Longrightarrow> AppendReply p i T prev cnt reply \<in> net c \<Longrightarrow>
    sendAppendEntriesTo_reply S p T prev cnt reply (nodes c i) = Some n \<Longrightarrow> step S M reopen ids c (set_node i n c)"
| step_snap: "i \<in> ids \<Longrightarrow> p \<in> set (peers (nodes c i)) \<Longrightarrow>
    sendAppendEntriesTo_request p (nodes c i) = Some (SendSnapshot T) \<Longrightarrow>
    step S M reopen ids c (c\<lparr>snapping := insert (i, T, p) (snapping c)\<rparr>)"
| step_send_snap: "i \<in> ids \<Longrightarrow> (i, T, p) \<in> snapping c \<Longrightarrow>
    sendInstallSnapshotTo_request S T (nodes c i) = Some args \<Longrightarrow> step S M reopen ids c (send_msgs {SnapReq p args} c)"
| step_install: "i \<in> ids \<Longrightarrow> SnapReq i args \<in> net c \<Longrightarrow>
    HandleInstallSnapshot_begin S now rnd args (nodes c i) = (Inr T, n) \<Longrightarrow>
    step S M reopen ids c ((set_node i n c)\<lparr>restoring := insert (i, args) (restoring c)\<rparr>)"
| step_install_stale: "i \<in> ids \<Longrightarrow> SnapReq i args \<in> net c \<Longrightarrow>
    HandleInstallSnapshot_begin S now rnd args (nodes c i) = (Inl reply, n) \<Longrightarrow>
    step S M reopen ids c (send_msgs {SnapReply i (isLeaderID args) (isTerm args) (isLastIncludedIndex args) reply} (set_node i n c))"
| step_restore: "i \<in> ids \<Longrightarrow> (i, args) \<in> restoring c \<Longrightarrow>
    HandleInstallSnapshot_restore S M args (nodes c i) = (ok, n) \<Longrightarrow>
    step S M reopen ids c ((set_node i n c)\<lparr>restoring := restoring c - {(i, args)},
      finishing := (if ok then insert (i, args) (finishing c) else finishing c)\<rparr>)"
| step_finish: "i \<in> ids \<Longrightarrow> (i, args) \<in> finishing c \<Longrightarrow> HandleInstallSnapshot_finish S args (nodes c i) = (reply, n) \<Longrightarrow>
    step S M reopen ids c (send_msgs {SnapReply i (isLeaderID args) (isTerm args) (isLastIncludedIndex args) reply}
      ((set_node i n c)\<lparr>finishing := finishing c - {(i, args)}\<rparr>))"
| step_snap_reply: "i \<in> ids \<Longrightarrow> SnapReply p i T idx reply \<in> net c \<Longrightarrow>
    sendInstallSnapshotTo_reply S p T idx reply (nodes c i) = Some n \<Longrightarrow> step S M reopen ids c (set_node i n c)"
| step_propose: "i \<in> ids \<Longrightarrow> Propose_enqueue req command (nodes c i) = Inr n \<Longrightarrow> step S M reopen ids c (set_node i n c)"
| step_append_loop: "i \<in> ids \<Longrightarrow> appendLoop_round S (nodes c i) = (results, n) \<Longrightarrow> step S M reopen ids c (set_node i n c)"
| step_replicate: "i \<in> ids \<Longrightarrow> step S M reopen ids c (set_node i (Propose_replicate (nodes c i)) c)"
| step_apply: "i \<in> ids \<Longrightarrow> applyPending_next (nodes c i) = Some (Some e, n) \<Longrightarrow>
    step S M reopen ids c (set_node i (apply_entry M e n) c)"
| step_compact: "i \<in> ids \<Longrightarrow> maybeSnapshot S M (nodes c i) = Some n \<Longrightarrow> step S M reopen ids c (set_node i n c)"
| step_restart: "i \<in> ids \<Longrightarrow> reopen (storage (nodes c i)) = Some st \<Longrightarrow>
    NewNode S M i (peers (nodes c i)) st sm (opts (nodes c i)) = Inr n \<Longrightarrow>
    step S M reopen ids c (restart_step i (Start now rnd n) c)"

text \<open>
  The start: every node has just been built on its storage, its peers are the other nodes, nothing
  has been sent.
\<close>

definition initial :: "'st Storage \<Rightarrow> 'sm StateMachine \<Rightarrow> string set \<Rightarrow> ('st, 'sm) cluster \<Rightarrow> bool" where
  "initial S M ids c \<longleftrightarrow>
     (\<forall>i \<in> ids. \<exists>ps st sm op n now rnd. NewNode S M i ps st sm op = Inr n \<and> nodes c i = Start now rnd n
        \<and> set ps = ids - {i} \<and> distinct ps)
     \<and> net c = {} \<and> waiting c = {} \<and> snapping c = {} \<and> restoring c = {} \<and> finishing c = {}
     \<and> granted c = {} \<and> elected c = {}"

inductive reachable ::
  "'st Storage \<Rightarrow> 'sm StateMachine \<Rightarrow> ('st \<Rightarrow> 'st option) \<Rightarrow> string set \<Rightarrow> ('st, 'sm) cluster \<Rightarrow> ('st, 'sm) cluster \<Rightarrow> bool"
  for S M reopen ids c0 where
  reachable_refl: "reachable S M reopen ids c0 c0"
| reachable_step: "reachable S M reopen ids c0 c \<Longrightarrow> step S M reopen ids c c' \<Longrightarrow> reachable S M reopen ids c0 c'"

section \<open>Quiet transitions\<close>

text \<open>
  A transition of one node is quiet if it gives no vote and wins no election: the term does not
  fall, within the term the vote stays, and a new term starts as a follower without a vote.
\<close>

definition quiet :: "('st, 'sm) Node \<Rightarrow> ('st, 'sm) Node \<Rightarrow> bool" where
  "quiet n n' \<longleftrightarrow> nodeID n' = nodeID n \<and> peers n' = peers n \<and> currentTerm n \<le> currentTerm n'
     \<and> (if currentTerm n' = currentTerm n
        then votedFor n' = votedFor n \<and> (state n' = Follower \<or> state n' = state n \<and> votes n' = votes n)
        else votedFor n' = '''' \<and> state n' = Follower)"

lemma quiet_refl [simp]: "quiet n n"
  by (simp add: quiet_def)

lemma quiet_trans: "quiet n n1 \<Longrightarrow> quiet n1 n2 \<Longrightarrow> quiet n n2"
  by (auto simp: quiet_def split: if_splits)

lemma quiet_same:
  "nodeID n' = nodeID n \<Longrightarrow> peers n' = peers n \<Longrightarrow> currentTerm n' = currentTerm n \<Longrightarrow> votedFor n' = votedFor n \<Longrightarrow>
   state n' = Follower \<or> state n' = state n \<and> votes n' = votes n \<Longrightarrow> quiet n n'"
  by (simp add: quiet_def)

end
