(* ===== verification/Raft_Election.thy ===== *)
theory Raft_Election
  imports Raft_Cluster File_Storage
begin

text \<open>
  Election safety: in every reachable state of a cluster whose nodes keep term and vote in a
  storage that honours the contract \<open>vote_storage\<close>, at most one node has ever been leader of a
  term.  The proof is an invariant of the step relation: a vote that was given is still the vote
  of its term, a candidate has no more votes than peers that answered it with a vote, and
  a leader had the votes of a majority.
\<close>

section \<open>Storage and node agree\<close>

definition insync ::
  "('st \<Rightarrow> bool) \<Rightarrow> ('st \<Rightarrow> nat \<times> string) \<Rightarrow> (string \<Rightarrow> bool) \<Rightarrow> ('st, 'sm) Node \<Rightarrow> bool" where
  "insync good tv id_ok n \<longleftrightarrow> good (storage n) \<and> tv (storage n) = (currentTerm n, votedFor n)
     \<and> currentTerm n < 2 ^ 64 \<and> id_ok (votedFor n)"

lemma insync_same:
  "insync good tv id_ok n \<Longrightarrow> currentTerm n' = currentTerm n \<Longrightarrow> votedFor n' = votedFor n \<Longrightarrow> storage n' = storage n \<Longrightarrow>
   insync good tv id_ok n'"
  by (simp add: insync_def)

lemma insync_storage:
  "insync good tv id_ok n \<Longrightarrow> currentTerm n' = currentTerm n \<Longrightarrow> votedFor n' = votedFor n \<Longrightarrow>
   good (storage n') \<and> tv (storage n') = tv (storage n) \<Longrightarrow> insync good tv id_ok n'"
  by (simp add: insync_def)

text \<open>Transitions that touch neither term, vote nor role.\<close>

definition same_vote :: "('st, 'sm) Node \<Rightarrow> ('st, 'sm) Node \<Rightarrow> bool" where
  "same_vote n n' \<longleftrightarrow> nodeID n' = nodeID n \<and> peers n' = peers n \<and> currentTerm n' = currentTerm n \<and> votedFor n' = votedFor n
     \<and> state n' = state n \<and> votes n' = votes n"

lemma same_vote_refl [simp]: "same_vote n n"
  by (simp add: same_vote_def)

lemma same_vote_trans: "same_vote n n1 \<Longrightarrow> same_vote n1 n2 \<Longrightarrow> same_vote n n2"
  by (simp add: same_vote_def)

lemma same_vote_quiet: "same_vote n n' \<Longrightarrow> quiet n n'"
  by (simp add: same_vote_def quiet_def)

lemma maybeAdvance_same:
  assumes "maybeAdvanceCommitIndexLocked n = Some n'"
  shows "same_vote n n' \<and> storage n' = storage n"
proof -
  have "advance_commit idx n = Some n' \<Longrightarrow> same_vote n n' \<and> storage n' = storage n" for idx
  proof (induction idx n rule: advance_commit.induct)
    case (1 idx n)
    from "1.prems" "1.IH" show ?case
      by (subst (asm) advance_commit.simps) (auto simp: signalApply_def same_vote_def split: if_splits option.splits)
  qed
  with assms show ?thesis by (auto simp: maybeAdvanceCommitIndexLocked_def split: if_splits)
qed

lemma triggers_same: "same_vote n (fold triggerReplication ps n) \<and> storage (fold triggerReplication ps n) = storage n"
proof (induction ps arbitrary: n)
  case (Cons p ps)
  from Cons.IH [of "triggerReplication p n"] show ?case by (simp add: triggerReplication_def same_vote_def)
qed simp

context vote_storage
begin

lemma persist_sync:
  assumes "good (storage n)" and "currentTerm n < 2 ^ 64" and "id_ok (votedFor n)"
  shows "insync good tv id_ok (persistTermAndVoteLocked S n)"
  using save [OF assms] assms(2,3) by (simp add: insync_def persistTermAndVoteLocked_def)

lemma sync_same: "insync good tv id_ok n \<Longrightarrow> same_vote n n' \<Longrightarrow> storage n' = storage n \<Longrightarrow> insync good tv id_ok n'"
  by (simp add: insync_def same_vote_def)

lemma follower_calm:
  assumes "insync good tv id_ok n" and "t < 2 ^ 64" and "id_ok ''''"
  shows "quiet n (becomeFollowerLocked S t n) \<and> insync good tv id_ok (becomeFollowerLocked S t n)"
proof (cases "t > currentTerm n")
  case True
  have "insync good tv id_ok (becomeFollowerLocked S t n)"
    using True assms persist_sync [of "n\<lparr>state := Follower, leaderID := '''', currentTerm := t, votedFor := ''''\<rparr>"]
    by (simp add: becomeFollowerLocked_def insync_def [of _ _ _ n])
  then show ?thesis by (auto simp: quiet_def frame_simps)
next
  case False
  with assms show ?thesis by (auto simp: becomeFollowerLocked_def quiet_def insync_def)
qed

lemma accept_calm:
  assumes "insync good tv id_ok n" and "t < 2 ^ 64" and "id_ok ''''"
  shows "quiet n (accept_leader S now rnd t l n) \<and> insync good tv id_ok (accept_leader S now rnd t l n)"
proof -
  let ?n = "if t > currentTerm n then becomeFollowerLocked S t n
            else if state n = Candidate then becomeFollowerLocked S t n else n"
  have "quiet n ?n \<and> insync good tv id_ok ?n" using follower_calm [OF assms] assms(1) by simp
  then show ?thesis by (auto simp: accept_leader_def Let_def insync_def quiet_def frame_simps split: if_splits)
qed

abbreviation keeps :: "('st, 'sm) Node \<Rightarrow> ('st, 'sm) Node \<Rightarrow> bool" where
  "keeps n n' \<equiv> same_vote n n' \<and> good (storage n') \<and> tv (storage n') = tv (storage n)"

lemma append_log_keeps: "good (storage n) \<Longrightarrow> keeps n (appendLogLocked S es n)"
  using append [of "storage n" es] by (simp add: appendLogLocked_def same_vote_def)

lemma truncate_log_keeps: "good (storage n) \<Longrightarrow> truncateLogFromLocked S i n = Some n' \<Longrightarrow> keeps n n'"
  using truncate [of "storage n" i] by (auto simp: truncateLogFromLocked_def same_vote_def split: if_splits option.splits)

lemma discard_log_keeps: "good (storage n) \<Longrightarrow> keeps n (discardLogPrefixLocked S i t n)"
  using discard [of "storage n"] by (simp add: discardLogPrefixLocked_def same_vote_def Let_def)

lemma append_entries_keeps:
  "append_entries S prev i es n = Some n' \<Longrightarrow> good (storage n) \<Longrightarrow> keeps n n'"
proof (induction es arbitrary: i n)
  case (Cons e es)
  let ?idx = "u64 (prev + 1 + i)"
  show ?case
  proof (cases "?idx \<le> lastLogIndexLocked n")
    case False
    with Cons.prems append_log_keeps [of n "e # es"] show ?thesis by (simp add: Let_def)
  next
    case True
    with Cons.prems obtain t where t: "termAtLocked n ?idx = Some t" by (auto simp: Let_def split: option.splits)
    show ?thesis
    proof (cases "t = eTerm e")
      case True
      with Cons \<open>?idx \<le> _\<close> t show ?thesis by (simp add: Let_def)
    next
      case False
      with Cons.prems \<open>?idx \<le> _\<close> t obtain n1 where n1: "truncateLogFromLocked S ?idx n = Some n1" "n' = appendLogLocked S (e # es) n1"
        by (auto simp: Let_def split: option.splits)
      from truncate_log_keeps [OF Cons.prems(2) n1(1)] append_log_keeps [of n1 "e # es"] n1(2) show ?thesis
        by (auto intro: same_vote_trans)
    qed
  qed
qed simp

lemma sync_keeps: "insync good tv id_ok n \<Longrightarrow> keeps n n' \<Longrightarrow> quiet n n' \<and> insync good tv id_ok n'"
  by (auto simp: insync_def same_vote_def quiet_def)

lemma append_calm:
  assumes "HandleAppendEntries S now rnd args n = Some (reply, n')" and "insync good tv id_ok n"
    and "aeTerm args < 2 ^ 64" and "id_ok ''''"
  shows "quiet n n' \<and> insync good tv id_ok n' \<and> arTerm reply < 2 ^ 64"
proof (cases "aeTerm args < currentTerm n")
  case True
  with assms(1,2) show ?thesis by (auto simp: HandleAppendEntries_def insync_def)
next
  case False
  let ?n = "accept_leader S now rnd (aeTerm args) (aeLeaderID args) n"
  note a = accept_calm [OF assms(2,3,4), of now rnd "aeLeaderID args"]
  then have tm: "currentTerm ?n < 2 ^ 64" and good: "good (storage ?n)" by (simp_all add: insync_def)
  have run: "(case check_prev args ?n of None \<Rightarrow> None
      | Some (Some c) \<Rightarrow> Some (\<lparr>arTerm = currentTerm ?n, arSuccess = False, arConflictIndex = c\<rparr>, ?n)
      | Some None \<Rightarrow>
         (case append_entries S (aePrevLogIndex args) 0 (aeEntries args) ?n of None \<Rightarrow> None
          | Some n2 \<Rightarrow> Some (\<lparr>arTerm = currentTerm n2, arSuccess = True, arConflictIndex = 0\<rparr>,
              if aeLeaderCommit args > commitIndex n2
              then signalApply (n2\<lparr>commitIndex := min (aeLeaderCommit args) (lastLogIndexLocked n2)\<rparr>) else n2))) = Some (reply, n')"
    using assms(1) False by (simp only: HandleAppendEntries_unfold if_False Let_def)
  show ?thesis
  proof (cases "\<exists>c. check_prev args ?n = Some (Some c)")
    case True
    with run have "arTerm reply = currentTerm ?n" "n' = ?n" by auto
    with a tm show ?thesis by simp
  next
    case False
    with run obtain n2 where n2: "append_entries S (aePrevLogIndex args) 0 (aeEntries args) ?n = Some n2"
      "reply = \<lparr>arTerm = currentTerm n2, arSuccess = True, arConflictIndex = 0\<rparr>"
      "n' = (if aeLeaderCommit args > commitIndex n2
         then signalApply (n2\<lparr>commitIndex := min (aeLeaderCommit args) (lastLogIndexLocked n2)\<rparr>) else n2)"
      by (cases "check_prev args ?n") (auto split: option.splits)
    have k: "keeps ?n n2" using append_entries_keeps [OF n2(1) good] .
    moreover have "same_vote n2 n' \<and> storage n' = storage n2" unfolding n2(3) by (simp add: signalApply_def same_vote_def)
    ultimately have "keeps ?n n'" by (auto intro: same_vote_trans)
    with sync_keeps [OF conjunct2 [OF a] this] a k n2(2) tm show ?thesis by (auto intro: quiet_trans simp: same_vote_def)
  qed
qed

lemma append_reply_calm:
  assumes "sendAppendEntriesTo_reply S p T prev cnt reply n = Some n'" and "insync good tv id_ok n"
    and "arTerm reply < 2 ^ 64" and "id_ok []"
  shows "quiet n n' \<and> insync good tv id_ok n'"
proof (cases "arTerm reply > currentTerm n")
  case True
  with assms(1) follower_calm [OF assms(2,3,4)] show ?thesis by (auto simp: sendAppendEntriesTo_reply_def)
next
  case False
  have "same_vote n n' \<and> storage n' = storage n"
    using assms(1) False
    by (auto simp: sendAppendEntriesTo_reply_def Let_def same_vote_def split: if_splits dest!: maybeAdvance_same)
  with assms(2) show ?thesis by (auto intro: same_vote_quiet sync_same)
qed

lemma snap_reply_calm:
  assumes "sendInstallSnapshotTo_reply S p T idx reply n = Some n'" and "insync good tv id_ok n"
    and "irTerm reply < 2 ^ 64" and "id_ok []"
  shows "quiet n n' \<and> insync good tv id_ok n'"
proof (cases "irTerm reply > currentTerm n")
  case True
  with assms(1) follower_calm [OF assms(2,3,4)] show ?thesis by (auto simp: sendInstallSnapshotTo_reply_def)
next
  case False
  have "same_vote n n' \<and> storage n' = storage n"
    using assms(1) False
    by (auto simp: sendInstallSnapshotTo_reply_def Let_def same_vote_def split: if_splits dest!: maybeAdvance_same)
  with assms(2) show ?thesis by (auto intro: same_vote_quiet sync_same)
qed

lemma install_begin_calm:
  assumes "HandleInstallSnapshot_begin S now rnd args n = (r, n')" and "insync good tv id_ok n"
    and "isTerm args < 2 ^ 64" and "id_ok []"
  shows "quiet n n' \<and> insync good tv id_ok n' \<and> (case r of Inl reply \<Rightarrow> irTerm reply < 2 ^ 64 | Inr t \<Rightarrow> True)"
proof (cases "isTerm args < currentTerm n")
  case True
  with assms(1,2) show ?thesis by (auto simp: HandleInstallSnapshot_begin_def insync_def)
next
  case False
  let ?n1 = "if isTerm args > currentTerm n then becomeFollowerLocked S (isTerm args) n else n"
  let ?n = "resetElectionTimerLocked now rnd (?n1\<lparr>state := Follower, leaderID := isLeaderID args\<rparr>)"
  have "quiet n ?n1 \<and> insync good tv id_ok ?n1" using follower_calm [OF assms(2-4)] assms(2) by simp
  then have q: "quiet n ?n \<and> insync good tv id_ok ?n" by (auto simp: insync_def quiet_def frame_simps split: if_splits)
  have "n' = ?n \<and> (case r of Inl reply \<Rightarrow> irTerm reply = currentTerm ?n | Inr t \<Rightarrow> True)"
    using assms(1) False by (auto simp: HandleInstallSnapshot_begin_def Let_def split: if_splits)
  with q show ?thesis by (auto simp: insync_def split: sum.splits)
qed

lemma install_restore_calm:
  assumes "HandleInstallSnapshot_restore S M args n = (ok, n')" and "insync good tv id_ok n"
  shows "quiet n n' \<and> insync good tv id_ok n'"
proof -
  have "good (storage n)" using assms(2) by (simp add: insync_def)
  then have "keeps n n'"
    using snapshot [of "storage n" "isLastIncludedIndex args" "isLastIncludedTerm args" "isData args"] assms(1)
    by (auto simp: HandleInstallSnapshot_restore_def same_vote_def split: prod.splits bool.splits)
  then show ?thesis by (rule sync_keeps [OF assms(2)])
qed

lemma install_finish_calm:
  assumes "HandleInstallSnapshot_finish S args n = (reply, n')" and "insync good tv id_ok n"
  shows "quiet n n' \<and> insync good tv id_ok n' \<and> irTerm reply < 2 ^ 64"
proof -
  have "good (storage n)" using assms(2) by (simp add: insync_def)
  then have "keeps n n' \<and> irTerm reply = currentTerm n"
    using discard [of "storage n" "isLastIncludedIndex args"] assms(1)
    by (auto simp: HandleInstallSnapshot_finish_def same_vote_def Let_def split: if_splits)
  with sync_keeps [OF assms(2), of n'] assms(2) show ?thesis by (simp add: insync_def)
qed

lemma compact_calm:
  assumes "maybeSnapshot S M n = Some n'" and "insync good tv id_ok n"
  shows "quiet n n' \<and> insync good tv id_ok n'"
proof -
  have g: "good (storage n)" using assms(2) by (simp add: insync_def)
  consider "n' = n"
    | st t data where "n' = n\<lparr>storage := st\<rparr>" "st = snd (SaveSnapshot S (storage n) (lastApplied n) t data)"
    | st t data where "n' = discardLogPrefixLocked S (lastApplied n) t (n\<lparr>storage := st\<rparr>)"
      "st = snd (SaveSnapshot S (storage n) (lastApplied n) t data)"
    using assms(1) by (auto simp: maybeSnapshot_def split: if_splits option.splits prod.splits bool.splits) (metis snd_conv)+
  then have "keeps n n'"
  proof cases
    case 2
    with snapshot [OF g, of "lastApplied n" t data] show ?thesis by (simp add: same_vote_def)
  next
    case 3
    from snapshot [OF g, of "lastApplied n" t data] 3(2) have "keeps n (n\<lparr>storage := st\<rparr>)" by (simp add: same_vote_def)
    with discard_log_keeps [of "n\<lparr>storage := st\<rparr>" "lastApplied n" t] 3(1) show ?thesis by (auto intro: same_vote_trans)
  qed (simp add: g)
  then show ?thesis by (rule sync_keeps [OF assms(2)])
qed

lemma client_calm:
  assumes "insync good tv id_ok n"
  shows "Propose_enqueue req command n = Inr n' \<Longrightarrow> quiet n n' \<and> insync good tv id_ok n'"
    "appendLoop_round S n = (results, n') \<Longrightarrow> quiet n n' \<and> insync good tv id_ok n'"
    "quiet n (Propose_replicate n) \<and> insync good tv id_ok (Propose_replicate n)"
    "applyPending_next n = Some (Some e, n') \<Longrightarrow> quiet n (apply_entry M e n') \<and> insync good tv id_ok (apply_entry M e n')"
proof -
  have g: "good (storage n)" using assms by (simp add: insync_def)
  show "Propose_enqueue req command n = Inr n' \<Longrightarrow> quiet n n' \<and> insync good tv id_ok n'"
    using assms by (auto simp: Propose_enqueue_def quiet_def insync_def split: if_splits)
  show "quiet n (Propose_replicate n) \<and> insync good tv id_ok (Propose_replicate n)"
    using triggers_same [of n "peers n"] sync_same [OF assms] same_vote_quiet by (metis Propose_replicate_def)
  show "applyPending_next n = Some (Some e, n') \<Longrightarrow> quiet n (apply_entry M e n') \<and> insync good tv id_ok (apply_entry M e n')"
    using assms by (auto simp: applyPending_next_def apply_entry_def Let_def quiet_def insync_def split: if_splits option.splits)
  assume r: "appendLoop_round S n = (results, n')"
  let ?m = "n\<lparr>proposeCh := drop maxAppendBatchSize (proposeCh n)\<rparr>"
  have m: "keeps n ?m" using g by (simp add: same_vote_def)
  have "n' = ?m \<or> (\<exists>es. n' = appendLogLocked S es ?m)"
    using r by (auto simp: appendLoop_round_def appendBatch_def Let_def split: if_splits)
  then have "keeps n n'" using m append_log_keeps [of ?m] by (auto intro: same_vote_trans)
  then show "quiet n n' \<and> insync good tv id_ok n'" by (rule sync_keeps [OF assms])
qed

lemma restart_calm:
  assumes "reopen (storage n) = Some st" and "NewNode S M (nodeID n) (peers n) st sm op = Inr n'" and "insync good tv id_ok n"
  shows "quiet n (Start now rnd n') \<and> insync good tv id_ok (Start now rnd n')"
proof -
  have st: "good st \<and> tv st = (currentTerm n, votedFor n)" using reopen [OF _ assms(1)] assms(3) by (simp add: insync_def)
  then have "LoadTermAndVote S st = Some (currentTerm n, votedFor n)" using load by auto
  then have "storage n' = st \<and> currentTerm n' = currentTerm n \<and> votedFor n' = votedFor n \<and> state n' = Follower \<and> nodeID n' = nodeID n
      \<and> peers n' = peers n"
    using assms(2) by (auto simp: NewNode_def split: option.splits prod.splits bool.splits)
  with st assms(3) show ?thesis by (simp add: Start_def quiet_def insync_def frame_simps)
qed

end

section \<open>The invariant of the cluster\<close>

fun msg_ok :: "(string \<Rightarrow> bool) \<Rightarrow> string set \<Rightarrow> rmsg \<Rightarrow> bool" where
  "msg_ok id_ok ids (VoteReq p args) = (rvTerm args < 2 ^ 64 \<and> rvCandidateID args \<in> ids)"
| "msg_ok id_ok ids (VoteReply p i T reply) = (vrTerm reply < 2 ^ 64)"
| "msg_ok id_ok ids (AppendReq p args) = (aeTerm args < 2 ^ 64)"
| "msg_ok id_ok ids (AppendReply p i T prev cnt reply) = (arTerm reply < 2 ^ 64)"
| "msg_ok id_ok ids (SnapReq p args) = (isTerm args < 2 ^ 64)"
| "msg_ok id_ok ids (SnapReply p i T idx reply) = (irTerm reply < 2 ^ 64)"

definition nodes_inv :: "(('st, 'sm) Node \<Rightarrow> bool) \<Rightarrow> (string \<Rightarrow> bool) \<Rightarrow> string set \<Rightarrow> ('st, 'sm) cluster \<Rightarrow> bool" where
  "nodes_inv sync id_ok ids c \<longleftrightarrow>
     (\<forall>i \<in> ids. nodeID (nodes c i) = i \<and> set (peers (nodes c i)) = ids - {i} \<and> distinct (peers (nodes c i)) \<and> sync (nodes c i))
     \<and> (\<forall>m \<in> net c. msg_ok id_ok ids m)
     \<and> (\<forall>i T p. (i, T, p) \<in> snapping c \<longrightarrow> T < 2 ^ 64)
     \<and> (\<forall>i T p. (i, T, p) \<in> waiting c \<longrightarrow> T \<le> currentTerm (nodes c i) \<and> p \<in> set (peers (nodes c i)))"

definition votes_inv :: "string set \<Rightarrow> ('st, 'sm) cluster \<Rightarrow> bool" where
  "votes_inv ids c \<longleftrightarrow>
     (\<forall>T j k. (T, j, k) \<in> granted c \<longrightarrow> j \<in> ids \<and> k \<in> ids \<and> T \<le> currentTerm (nodes c j)
        \<and> (T = currentTerm (nodes c j) \<longrightarrow> votedFor (nodes c j) = k))
     \<and> (\<forall>T j k k'. (T, j, k) \<in> granted c \<longrightarrow> (T, j, k') \<in> granted c \<longrightarrow> k = k')
     \<and> (\<forall>p i T reply. VoteReply p i T reply \<in> net c \<longrightarrow> vrVoteGranted reply \<longrightarrow> (T, p, i) \<in> granted c)"

text \<open>The peers that have answered the candidate with a vote.\<close>

definition answered :: "string \<Rightarrow> ('st, 'sm) cluster \<Rightarrow> string set" where
  "answered i c = {p \<in> set (peers (nodes c i)). (i, currentTerm (nodes c i), p) \<notin> waiting c
     \<and> (currentTerm (nodes c i), p, i) \<in> granted c}"

definition quorum :: "string set \<Rightarrow> string set \<Rightarrow> bool" where
  "quorum ids Q \<longleftrightarrow> Q \<subseteq> ids \<and> card ids div 2 + 1 \<le> card Q"

definition roles_inv :: "string set \<Rightarrow> ('st, 'sm) cluster \<Rightarrow> bool" where
  "roles_inv ids c \<longleftrightarrow>
     (\<forall>i \<in> ids. state (nodes c i) = Candidate \<longrightarrow>
        (currentTerm (nodes c i), i, i) \<in> granted c \<and> votes (nodes c i) \<le> 1 + card (answered i c))
     \<and> (\<forall>i \<in> ids. state (nodes c i) = Leader \<longrightarrow> (currentTerm (nodes c i), i) \<in> elected c)
     \<and> (\<forall>T i. (T, i) \<in> elected c \<longrightarrow> i \<in> ids \<and> quorum ids {j. (T, j, i) \<in> granted c})"

definition cluster_inv :: "(('st, 'sm) Node \<Rightarrow> bool) \<Rightarrow> (string \<Rightarrow> bool) \<Rightarrow> string set \<Rightarrow> ('st, 'sm) cluster \<Rightarrow> bool" where
  "cluster_inv sync id_ok ids c \<longleftrightarrow> nodes_inv sync id_ok ids c \<and> votes_inv ids c \<and> roles_inv ids c"

lemma votes_invD:
  assumes "votes_inv ids c" and "(T, j, k) \<in> granted c"
  shows "j \<in> ids" "k \<in> ids" "T \<le> currentTerm (nodes c j)" "T = currentTerm (nodes c j) \<longrightarrow> votedFor (nodes c j) = k"
    "(T, j, k') \<in> granted c \<Longrightarrow> k' = k"
  using assms unfolding votes_inv_def by blast+

lemma votes_invI:
  assumes "\<And>T j k. (T, j, k) \<in> granted c \<Longrightarrow> j \<in> ids \<and> k \<in> ids \<and> T \<le> currentTerm (nodes c j)
      \<and> (T = currentTerm (nodes c j) \<longrightarrow> votedFor (nodes c j) = k)"
    and "\<And>T j k k'. (T, j, k) \<in> granted c \<Longrightarrow> (T, j, k') \<in> granted c \<Longrightarrow> k = k'"
    and "\<And>p i T reply. VoteReply p i T reply \<in> net c \<Longrightarrow> vrVoteGranted reply \<Longrightarrow> (T, p, i) \<in> granted c"
  shows "votes_inv ids c"
  using assms unfolding votes_inv_def by blast

lemma nodes_invI:
  assumes "\<And>i. i \<in> ids \<Longrightarrow> nodeID (nodes c i) = i \<and> set (peers (nodes c i)) = ids - {i} \<and> distinct (peers (nodes c i)) \<and> sync (nodes c i)"
    and "\<And>m. m \<in> net c \<Longrightarrow> msg_ok id_ok ids m" and "\<And>i T p. (i, T, p) \<in> snapping c \<Longrightarrow> T < 2 ^ 64"
    and "\<And>i T p. (i, T, p) \<in> waiting c \<Longrightarrow> T \<le> currentTerm (nodes c i) \<and> p \<in> set (peers (nodes c i))"
  shows "nodes_inv sync id_ok ids c"
  using assms unfolding nodes_inv_def by blast

lemma nodes_invD:
  assumes "nodes_inv sync id_ok ids c"
  shows "i \<in> ids \<Longrightarrow> nodeID (nodes c i) = i" "i \<in> ids \<Longrightarrow> set (peers (nodes c i)) = ids - {i}"
    "i \<in> ids \<Longrightarrow> distinct (peers (nodes c i))" "i \<in> ids \<Longrightarrow> sync (nodes c i)"
    "m \<in> net c \<Longrightarrow> msg_ok id_ok ids m" "(i, T, p) \<in> snapping c \<Longrightarrow> T < 2 ^ 64"
  using assms unfolding nodes_inv_def by blast+

lemma roles_invI:
  assumes "\<And>i. i \<in> ids \<Longrightarrow> state (nodes c i) = Candidate \<Longrightarrow>
      (currentTerm (nodes c i), i, i) \<in> granted c \<and> votes (nodes c i) \<le> 1 + card (answered i c)"
    and "\<And>i. i \<in> ids \<Longrightarrow> state (nodes c i) = Leader \<Longrightarrow> (currentTerm (nodes c i), i) \<in> elected c"
    and "\<And>T i. (T, i) \<in> elected c \<Longrightarrow> i \<in> ids \<and> quorum ids {j. (T, j, i) \<in> granted c}"
  shows "roles_inv ids c"
  using assms unfolding roles_inv_def by blast

lemma roles_invD:
  assumes "roles_inv ids c"
  shows "i \<in> ids \<Longrightarrow> state (nodes c i) = Candidate \<Longrightarrow>
      (currentTerm (nodes c i), i, i) \<in> granted c \<and> votes (nodes c i) \<le> 1 + card (answered i c)"
    "i \<in> ids \<Longrightarrow> state (nodes c i) = Leader \<Longrightarrow> (currentTerm (nodes c i), i) \<in> elected c"
    "(T, i) \<in> elected c \<Longrightarrow> i \<in> ids \<and> quorum ids {j. (T, j, i) \<in> granted c}"
  using assms unfolding roles_inv_def by blast+

lemma votes_inv_reply: "votes_inv ids c \<Longrightarrow> VoteReply p i T reply \<in> net c \<Longrightarrow> vrVoteGranted reply \<Longrightarrow> (T, p, i) \<in> granted c"
  unfolding votes_inv_def by blast

lemma waiting_inv:
  "nodes_inv sync id_ok ids c \<Longrightarrow> (i, T, p) \<in> waiting c \<Longrightarrow> T \<le> currentTerm (nodes c i) \<and> p \<in> set (peers (nodes c i))"
  unfolding nodes_inv_def by blast

lemma quorum_intersect:
  assumes "finite ids" and "quorum ids Q" and "quorum ids R"
  shows "Q \<inter> R \<noteq> {}"
proof
  assume "Q \<inter> R = {}"
  then have "card (Q \<union> R) = card Q + card R"
    using assms by (intro card_Un_disjoint) (auto simp: quorum_def intro: finite_subset)
  moreover have "card (Q \<union> R) \<le> card ids" using assms by (intro card_mono) (auto simp: quorum_def)
  ultimately show False using assms(2,3) by (auto simp: quorum_def)
qed

lemma elected_unique:
  assumes "finite ids" and "cluster_inv sync id_ok ids c" and "(T, i) \<in> elected c" and "(T, j) \<in> elected c"
  shows "i = j"
proof -
  have "quorum ids {k. (T, k, i) \<in> granted c}" "quorum ids {k. (T, k, j) \<in> granted c}"
    using assms(2-4) by (auto simp: cluster_inv_def roles_inv_def)
  then obtain k where "(T, k, i) \<in> granted c" "(T, k, j) \<in> granted c"
    using quorum_intersect [OF assms(1)] by fast
  then show ?thesis using assms(2) by (auto simp: cluster_inv_def votes_inv_def)
qed

text \<open>A quiet transition of one node, with messages that grant no vote.\<close>

lemma quiet_step_inv:
  assumes inv: "cluster_inv sync id_ok ids c" and i: "i \<in> ids" and q: "quiet (nodes c i) n" and s: "sync n"
    and c': "nodes c' = (nodes c)(i := n)" "net c' = net c \<union> msgs" "granted c' = granted c" "elected c' = elected c"
    and w: "waiting c' \<subseteq> waiting c" and sn: "\<forall>j T p. (j, T, p) \<in> snapping c' \<longrightarrow> T < 2 ^ 64"
    and m: "\<forall>m \<in> msgs. msg_ok id_ok ids m" "\<forall>p j T reply. VoteReply p j T reply \<in> msgs \<longrightarrow> \<not> vrVoteGranted reply"
  shows "cluster_inv sync id_ok ids c'"
proof -
  let ?o = "nodes c i"
  have le: "currentTerm (nodes c j) \<le> currentTerm (nodes c' j)" for j using q c'(1) by (simp add: quiet_def)
  have idp: "nodeID n = nodeID ?o" "peers n = peers ?o" using q by (simp_all add: quiet_def)
  have n: "nodes_inv sync id_ok ids c"  and v: "votes_inv ids c" and r: "roles_inv ids c" using inv by (simp_all add: cluster_inv_def)
  have wt: "T \<le> currentTerm (nodes c' j) \<and> p \<in> set (peers (nodes c' j))" if "(j, T, p) \<in> waiting c'" for j T p
  proof -
    have "T \<le> currentTerm (nodes c j) \<and> p \<in> set (peers (nodes c j))" using n subsetD [OF w that] unfolding nodes_inv_def by blast
    then show ?thesis using le [of j] idp(2) c'(1) by (auto intro: le_trans)
  qed
  have "nodes_inv sync id_ok ids c'"
    using n idp s sn m(1) wt c'(1,2) by (simp add: nodes_inv_def ball_Un)
  moreover have "votes_inv ids c'"
  proof -
    have "T \<le> currentTerm (nodes c' j) \<and> (T = currentTerm (nodes c' j) \<longrightarrow> votedFor (nodes c' j) = k)"
      if g: "(T, j, k) \<in> granted c" for T j k
    proof -
      have o: "T \<le> currentTerm (nodes c j)" "T = currentTerm (nodes c j) \<longrightarrow> votedFor (nodes c j) = k"
        using v g by (auto simp: votes_inv_def)
      show ?thesis
      proof (cases "j = i")
        case True
        with o q c'(1) show ?thesis by (auto simp: quiet_def split: if_splits)
      next
        case False
        with o c'(1) show ?thesis by simp
      qed
    qed
    with v m(2) c'(2,3) show ?thesis unfolding votes_inv_def by blast
  qed
  moreover have "roles_inv ids c'"
  proof -
    have cand: "(currentTerm (nodes c' j), j, j) \<in> granted c' \<and> votes (nodes c' j) \<le> 1 + card (answered j c')"
      if j: "j \<in> ids" "state (nodes c' j) = Candidate" for j
    proof -
      have same: "currentTerm (nodes c' j) = currentTerm (nodes c j)" "state (nodes c j) = Candidate"
        "votes (nodes c' j) = votes (nodes c j)" "peers (nodes c' j) = peers (nodes c j)"
        using j q c'(1) idp by (auto simp: quiet_def split: if_splits)
      then have "answered j c \<subseteq> answered j c'" using w c'(3) by (auto simp: answered_def)
      moreover have "finite (answered j c')" by (simp add: answered_def)
      ultimately have "card (answered j c) \<le> card (answered j c')" by (intro card_mono)
      with r j(1) same c'(3) show ?thesis by (fastforce simp: roles_inv_def)
    qed
    have lead: "(currentTerm (nodes c' j), j) \<in> elected c'" if j: "j \<in> ids" "state (nodes c' j) = Leader" for j
    proof -
      have "currentTerm (nodes c' j) = currentTerm (nodes c j)" "state (nodes c j) = Leader"
        using j q c'(1) by (auto simp: quiet_def split: if_splits)
      with r j(1) c'(4) show ?thesis by (simp add: roles_inv_def)
    qed
    from cand lead r c'(3,4) show ?thesis by (simp add: roles_inv_def)
  qed
  ultimately show ?thesis by (simp add: cluster_inv_def)
qed

section \<open>The three steps that vote\<close>

lemma quorum_mono: "finite ids \<Longrightarrow> quorum ids Q \<Longrightarrow> Q \<subseteq> R \<Longrightarrow> R \<subseteq> ids \<Longrightarrow> quorum ids R"
  using card_mono [of R Q] by (auto simp: quorum_def dest: finite_subset)

text \<open>A vote for \<open>k\<close> by node \<open>i\<close> in its current term, in which it has voted for nobody else.\<close>

lemma grant_inv:
  assumes inv: "cluster_inv sync id_ok ids c" and fin: "finite ids" and ne: "'''' \<notin> ids" and i: "i \<in> ids" and k: "k \<in> ids"
    and can: "votedFor (nodes c i) = '''' \<or> votedFor (nodes c i) = k"
    and n: "same_vote ((nodes c i)\<lparr>votedFor := k\<rparr>) n" and s: "sync n" and T: "currentTerm n = T" and r: "vrTerm reply < 2 ^ 64"
    and c: "nodes c' = (nodes c)(i := n)" "net c' = net c \<union> {VoteReply i k T reply}" "waiting c' = waiting c" "snapping c' = snapping c"
      "granted c' = insert (T, i, k) (granted c)" "elected c' = elected c"
  shows "cluster_inv sync id_ok ids c'"
proof -
  have nd: "nodes_inv sync id_ok ids c" and v: "votes_inv ids c" and ro: "roles_inv ids c" using inv by (simp_all add: cluster_inv_def)
  have same: "nodeID n = nodeID (nodes c i)" "peers n = peers (nodes c i)" "currentTerm n = currentTerm (nodes c i)"
    "state n = state (nodes c i)" "votes n = votes (nodes c i)" "votedFor n = k" using n by (simp_all add: same_vote_def)
  have vote: "k' = k" if "(T, i, k') \<in> granted c" for k'
    using votes_invD(2,4) [OF v that] same(3) T can ne by auto
  have ct: "currentTerm (nodes c' j) = currentTerm (nodes c j)" "peers (nodes c' j) = peers (nodes c j)" "state (nodes c' j) = state (nodes c j)"
    "votes (nodes c' j) = votes (nodes c j)" for j using same c(1) by simp_all
  have "nodes_inv sync id_ok ids c'"
  proof (rule nodes_invI)
    show "nodeID (nodes c' j) = j \<and> set (peers (nodes c' j)) = ids - {j} \<and> distinct (peers (nodes c' j)) \<and> sync (nodes c' j)" if "j \<in> ids" for j
      using nodes_invD(1-4) [OF nd that] same(1,2) s c(1) by auto
  qed (use nodes_invD(5,6) [OF nd] waiting_inv [OF nd] r c(2-4) ct in auto)
  moreover have "votes_inv ids c'"
  proof (rule votes_invI)
    fix T' j l assume "(T', j, l) \<in> granted c'"
    then consider "T' = T" "j = i" "l = k" | "(T', j, l) \<in> granted c" using c(5) by blast
    then show "j \<in> ids \<and> l \<in> ids \<and> T' \<le> currentTerm (nodes c' j) \<and> (T' = currentTerm (nodes c' j) \<longrightarrow> votedFor (nodes c' j) = l)"
    proof cases
      case 1
      with i k T same(6) c(1) show ?thesis by simp
    next
      case 2
      have "T' = currentTerm (nodes c j) \<longrightarrow> votedFor (nodes c' j) = l"
        using votes_invD(4) [OF v 2] vote [of l] 2 T same(3,6) c(1) by (cases "j = i") auto
      with votes_invD(1-3) [OF v 2] ct show ?thesis by simp
    qed
  next
    fix T' j l l' assume "(T', j, l) \<in> granted c'" "(T', j, l') \<in> granted c'"
    then show "l = l'" using vote votes_invD(5) [OF v] unfolding c(5) by blast
  next
    fix p j T' rep assume "VoteReply p j T' rep \<in> net c'" "vrVoteGranted rep"
    then show "(T', p, j) \<in> granted c'" using votes_inv_reply [OF v] unfolding c(2,5) by blast
  qed
  moreover have "roles_inv ids c'"
  proof -
    have "votes (nodes c j) \<le> Suc (card (answered j c'))" if "j \<in> ids" "state (nodes c j) = Candidate" for j
    proof -
      have "card (answered j c) \<le> card (answered j c')" by (rule card_mono) (auto simp: answered_def ct c(3,5))
      with roles_invD(1) [OF ro that] show ?thesis by simp
    qed
    moreover have "quorum ids {j. (T', j, l) \<in> granted c} \<Longrightarrow> quorum ids {j. (T', j, l) \<in> granted c'}" for T' l
      by (rule quorum_mono [OF fin]) (use votes_invD(1) [OF v] i c(5) in auto)
    ultimately show ?thesis using roles_invD [OF ro] c(5,6) by (intro roles_invI) (auto simp: ct)
  qed
  ultimately show ?thesis by (simp add: cluster_inv_def)
qed

text \<open>Node \<open>i\<close> starts an election in a new term.\<close>

lemma election_inv:
  assumes inv: "cluster_inv sync id_ok ids c" and fin: "finite ids" and i: "i \<in> ids"
    and n: "nodeID n = i" "peers n = peers (nodes c i)" "currentTerm n = T" "votedFor n = i" "state n = Candidate" "votes n = 1"
    and s: "sync n" and T: "currentTerm (nodes c i) < T"
    and c: "nodes c' = (nodes c)(i := n)" "net c' = net c \<union> msgs" "waiting c' = waiting c \<union> {(i, T, p) | p. p \<in> set (peers n)}"
      "snapping c' = snapping c" "granted c' = insert (T, i, i) (granted c)" "elected c' = elected c"
    and m: "\<forall>m \<in> msgs. msg_ok id_ok ids m" "\<forall>p j T reply. VoteReply p j T reply \<notin> msgs"
  shows "cluster_inv sync id_ok ids c'"
proof -
  have nd: "nodes_inv sync id_ok ids c" and v: "votes_inv ids c" and ro: "roles_inv ids c" using inv by (simp_all add: cluster_inv_def)
  have new: "(T, i, k) \<notin> granted c" for k using votes_invD(3) [OF v, of T i k] T by auto
  have old: "T' \<le> currentTerm (nodes c' j) \<and> p \<in> set (peers (nodes c' j))" if "(j, T', p) \<in> waiting c" for j T' p
    using waiting_inv [OF nd that] n(2,3) T c(1) by (cases "j = i") auto
  have "nodes_inv sync id_ok ids c'"
    unfolding nodes_inv_def
  proof (intro conjI)
    show "\<forall>j T' p. (j, T', p) \<in> waiting c' \<longrightarrow> T' \<le> currentTerm (nodes c' j) \<and> p \<in> set (peers (nodes c' j))"
      using old n(2,3) c(1,3) by auto
  qed (use nd n s m(1) c in \<open>auto simp: nodes_inv_def\<close>)
  moreover have "votes_inv ids c'"
  proof -
    have "T' \<le> currentTerm (nodes c' j) \<and> (T' = currentTerm (nodes c' j) \<longrightarrow> votedFor (nodes c' j) = k)"
      if "(T', j, k) \<in> granted c" for T' j k
      using votes_invD(3,4) [OF v that] T n(3) c(1) by auto
    note term_vote = this
    show ?thesis
    proof (rule votes_invI)
      fix T' j k assume "(T', j, k) \<in> granted c'"
      then consider "T' = T" "j = i" "k = i" | "(T', j, k) \<in> granted c" using c(5) by blast
      then show "j \<in> ids \<and> k \<in> ids \<and> T' \<le> currentTerm (nodes c' j) \<and> (T' = currentTerm (nodes c' j) \<longrightarrow> votedFor (nodes c' j) = k)"
      proof cases
        case 1
        with i n(3,4) c(1) show ?thesis by simp
      next
        case 2
        with term_vote [OF 2] votes_invD(1,2) [OF v 2] show ?thesis by simp
      qed
    next
      fix T' j k k' assume "(T', j, k) \<in> granted c'" "(T', j, k') \<in> granted c'"
      then show "k = k'" using new votes_invD(5) [OF v] unfolding c(5) by blast
    next
      fix p j T' reply assume "VoteReply p j T' reply \<in> net c'" "vrVoteGranted reply"
      then show "(T', p, j) \<in> granted c'" using m(2) votes_inv_reply [OF v] unfolding c(2,5) by blast
    qed
  qed
  moreover have "roles_inv ids c'"
  proof -
    have "votes (nodes c j) \<le> Suc (card (answered j c'))" if "j \<in> ids" "j \<noteq> i" "state (nodes c j) = Candidate" for j
    proof -
      have "card (answered j c) \<le> card (answered j c')"
        using that(2) by (intro card_mono) (auto simp: answered_def c(1,3,5))
      with roles_invD(1) [OF ro that(1,3)] show ?thesis by simp
    qed
    moreover have "quorum ids {j. (T', j, l) \<in> granted c} \<Longrightarrow> quorum ids {j. (T', j, l) \<in> granted c'}" for T' l
      by (rule quorum_mono [OF fin]) (use votes_invD(1) [OF v] i c(5) in auto)
    ultimately show ?thesis using roles_invD [OF ro] n c(1,5,6)
      by (intro roles_invI) (auto split: if_splits)
  qed
  ultimately show ?thesis by (simp add: cluster_inv_def)
qed

lemma majority_quorum:
  assumes nd: "nodes_inv sync id_ok ids c" and v: "votes_inv ids c" and fin: "finite ids" and i: "i \<in> ids"
    and self: "(currentTerm (nodes c i), i, i) \<in> granted c" and count: "votes (nodes c i) \<le> 1 + card (answered i c)"
    and maj: "majority (nodes c i) \<le> votes (nodes c i)"
  shows "quorum ids {j. (currentTerm (nodes c i), j, i) \<in> granted c}"
proof -
  note peers = nodes_invD(2,3) [OF nd i]
  have "length (peers (nodes c i)) = card (ids - {i})" using distinct_card [OF peers(2)] peers(1) by simp
  then have "majority (nodes c i) = card ids div 2 + 1" using card_Suc_Diff1 [OF fin i] by (simp add: majority_def)
  moreover have "i \<notin> answered i c" "answered i c \<subseteq> ids" using peers(1) by (auto simp: answered_def)
  moreover have "finite (answered i c)" by (simp add: answered_def)
  ultimately have "quorum ids (insert i (answered i c))" using count maj i by (simp add: quorum_def)
  then show ?thesis
  proof (rule quorum_mono [OF fin])
    show "insert i (answered i c) \<subseteq> {j. (currentTerm (nodes c i), j, i) \<in> granted c}" using self by (auto simp: answered_def)
    show "{j. (currentTerm (nodes c i), j, i) \<in> granted c} \<subseteq> ids" using votes_invD(1) [OF v] by blast
  qed
qed

text \<open>A vote arrives at candidate \<open>i\<close>, which becomes leader if it now has a majority.\<close>

lemma vote_counted_inv:
  assumes inv: "cluster_inv sync id_ok ids c" and fin: "finite ids" and i: "i \<in> ids"
    and msg: "VoteReply p i T reply \<in> net c" "vrVoteGranted reply" and w: "(i, T, p) \<in> waiting c"
    and cand: "state (nodes c i) = Candidate" "currentTerm (nodes c i) = T"
    and n: "nodeID n = i" "peers n = peers (nodes c i)" "currentTerm n = T" "votedFor n = votedFor (nodes c i)"
      "votes n = votes (nodes c i) + 1" "state n = (if votes n \<ge> majority n then Leader else Candidate)"
    and s: "sync n"
    and c: "nodes c' = (nodes c)(i := n)" "net c' = net c" "waiting c' = waiting c - {(i, T, p)}"
      "snapping c' = snapping c" "granted c' = granted c" "elected c' = (if state n = Leader then insert (T, i) (elected c) else elected c)"
  shows "cluster_inv sync id_ok ids c'"
proof -
  have nd: "nodes_inv sync id_ok ids c" and v: "votes_inv ids c" and ro: "roles_inv ids c" using inv by (simp_all add: cluster_inv_def)
  have p: "p \<in> set (peers (nodes c i))" using waiting_inv [OF nd w] by simp
  have g: "(T, p, i) \<in> granted c" using votes_inv_reply [OF v msg] .
  have ans: "answered i c' = insert p (answered i c)" "p \<notin> answered i c"
    using p g w cand(2) n(2,3) by (auto simp: answered_def c(1,3,5))
  have vt: "votes n \<le> 1 + card (answered i c')"
    using roles_invD(1) [OF ro i cand(1)] ans n(5) by (simp add: answered_def)
  have other: "card (answered j c) \<le> card (answered j c')" if "j \<noteq> i" for j
    using that by (intro card_mono) (auto simp: answered_def c(1,3,5))
  have nd': "nodes_inv sync id_ok ids c'"
  proof (rule nodes_invI)
    show "nodeID (nodes c' j) = j \<and> set (peers (nodes c' j)) = ids - {j} \<and> distinct (peers (nodes c' j)) \<and> sync (nodes c' j)" if "j \<in> ids" for j
      using nodes_invD(1-4) [OF nd that] n(1,2) s c(1) by auto
    show "T' \<le> currentTerm (nodes c' j) \<and> q \<in> set (peers (nodes c' j))" if "(j, T', q) \<in> waiting c'" for j T' q
    proof -
      from that have "(j, T', q) \<in> waiting c" by (simp add: c(3))
      from waiting_inv [OF nd this] show ?thesis using n(2,3) cand(2) c(1) by (cases "j = i") simp_all
    qed
    show "msg_ok id_ok ids m" if "m \<in> net c'" for m using nodes_invD(5) [OF nd] that c(2) by simp
    show "T' < 2 ^ 64" if "(j, T', q) \<in> snapping c'" for j T' q using nodes_invD(6) [OF nd] that unfolding c(4) by blast
  qed
  have v': "votes_inv ids c'"
  proof (rule votes_invI)
    fix T' j k assume g: "(T', j, k) \<in> granted c'"
    then have "(T', j, k) \<in> granted c" by (simp add: c(5))
    from votes_invD(1-4) [OF v this] show "j \<in> ids \<and> k \<in> ids \<and> T' \<le> currentTerm (nodes c' j)
        \<and> (T' = currentTerm (nodes c' j) \<longrightarrow> votedFor (nodes c' j) = k)"
      using n(3,4) cand(2) c(1) by (cases "j = i") simp_all
  next
    show "k = k'" if "(T', j, k) \<in> granted c'" "(T', j, k') \<in> granted c'" for T' j k k'
      using votes_invD(5) [OF v] that unfolding c(5) by blast
    show "(T', q, j) \<in> granted c'" if "VoteReply q j T' rep \<in> net c'" "vrVoteGranted rep" for q j T' rep
      using votes_inv_reply [OF v] that unfolding c(2,5) by blast
  qed
  have self: "(T, i, i) \<in> granted c" and old: "votes (nodes c i) \<le> 1 + card (answered i c)"
    using roles_invD(1) [OF ro i cand(1)] cand(2) by simp_all
  have lead: "quorum ids {j. (T, j, i) \<in> granted c}" if "state n = Leader"
  proof -
    have "majority n \<le> votes n"
    proof (rule ccontr)
      assume "\<not> majority n \<le> votes n"
      then have "state n = Candidate" unfolding n(6) by (rule if_not_P)
      with that show False by simp
    qed
    with majority_quorum [OF nd' v' fin i] vt self n(3) c(1,5) show ?thesis by simp
  qed
  have "roles_inv ids c'"
  proof (rule roles_invI)
    fix j assume j: "j \<in> ids" and st: "state (nodes c' j) = Candidate"
    show "(currentTerm (nodes c' j), j, j) \<in> granted c' \<and> votes (nodes c' j) \<le> 1 + card (answered j c')"
    proof (cases "j = i")
      case True
      with vt n(3) self c(1,5) show ?thesis by simp
    next
      case False
      with roles_invD(1) [OF ro j] st other [OF False] c(1,5) show ?thesis by auto
    qed
  next
    fix j assume j: "j \<in> ids" and st: "state (nodes c' j) = Leader"
    then show "(currentTerm (nodes c' j), j) \<in> elected c'"
      using roles_invD(2) [OF ro j] n(3) c(1,6) by (cases "j = i") auto
  next
    fix T' j assume "(T', j) \<in> elected c'"
    then consider "T' = T" "j = i" "state n = Leader" | "(T', j) \<in> elected c" using c(6) by (auto split: if_splits)
    then show "j \<in> ids \<and> quorum ids {k. (T', k, j) \<in> granted c'}"
      using lead i roles_invD(3) [OF ro] unfolding c(5) by cases auto
  qed
  with nd' v' show ?thesis by (simp add: cluster_inv_def)
qed

section \<open>Every step keeps the invariant\<close>

lemma tick_cases:
  assumes "tick S now rnd n0 = (n, sent)"
  obtains (quiet) "same_vote n0 n" "storage n = storage n0" "sent = []"
    | (election) "startElectionLocked S now rnd n0 = (n, sent)" "state n0 \<noteq> Leader"
proof (cases "state n0 \<noteq> Leader \<and> now - electionResetAt n0 \<ge> electionTimeout n0")
  case True
  with assms have "startElectionLocked S now rnd n0 = (n, sent)" by (auto simp: tick_def split: prod.splits)
  with True show ?thesis using election by blast
next
  case False
  have t: "same_vote n0 (fold triggerReplication (peers n0) (n0\<lparr>lastHeartbeatSent := Some now\<rparr>))
      \<and> storage (fold triggerReplication (peers n0) (n0\<lparr>lastHeartbeatSent := Some now\<rparr>)) = storage n0"
    using triggers_same [of "n0\<lparr>lastHeartbeatSent := Some now\<rparr>" "peers n0"] by (simp add: same_vote_def)
  from False assms have "sent = [] \<and> (n = n0 \<or> n = fold triggerReplication (peers n0) (n0\<lparr>lastHeartbeatSent := Some now\<rparr>))"
    unfolding tick_def Let_def if_not_P [OF False] by (auto split: if_splits)
  with t quiet show ?thesis by auto
qed

lemma NewNode_fields:
  "NewNode S M i ps st sm op = Inr n \<Longrightarrow> nodeID n = i \<and> peers n = ps \<and> state n = Follower"
  by (auto simp: NewNode_def split: option.splits prod.splits bool.splits)

context vote_storage
begin

abbreviation sync :: "('st, 'sm) Node \<Rightarrow> bool" where
  "sync \<equiv> insync good tv id_ok"

lemma election_node:
  assumes "startElectionLocked S now rnd n0 = (n, sent)" and "sync n0" and "currentTerm n0 + 1 < 2 ^ 64" and "id_ok (nodeID n0)"
  shows "nodeID n = nodeID n0" "peers n = peers n0" "currentTerm n = currentTerm n0 + 1" "votedFor n = nodeID n0"
    "state n = Candidate" "votes n = 1" "sync n"
    "(p, args) \<in> set sent \<Longrightarrow> rvTerm args = currentTerm n0 + 1 \<and> rvCandidateID args = nodeID n0"
proof -
  let ?n1 = "n0\<lparr>state := Candidate, currentTerm := u64 (currentTerm n0 + 1), votedFor := nodeID n0\<rparr>"
  have u: "u64 (currentTerm n0 + 1) = currentTerm n0 + 1" using assms(3) by (rule u64_small)
  have n: "n = (resetElectionTimerLocked now rnd (persistTermAndVoteLocked S ?n1))\<lparr>votes := 1\<rparr>"
    using assms(1) by (auto simp: startElectionLocked_def Let_def)
  show "nodeID n = nodeID n0" "peers n = peers n0" "currentTerm n = currentTerm n0 + 1" "votedFor n = nodeID n0"
    "state n = Candidate" "votes n = 1" unfolding n using u by (simp_all add: frame_simps)
  have "sync (persistTermAndVoteLocked S ?n1)" using assms(2-4) u by (intro persist_sync) (simp_all add: insync_def)
  then show "sync n" unfolding n by (simp add: insync_def frame_simps)
  show "(p, args) \<in> set sent \<Longrightarrow> rvTerm args = currentTerm n0 + 1 \<and> rvCandidateID args = nodeID n0"
    using assms(1) u by (auto simp: startElectionLocked_def Let_def frame_simps)
qed

lemma tick_step_inv:
  assumes inv: "cluster_inv sync id_ok ids c" and fin: "finite ids" and i: "i \<in> ids" and ok: "id_ok i"
    and T: "currentTerm (nodes c i) + 1 < 2 ^ 64"
  shows "cluster_inv sync id_ok ids (tick_step S now rnd i c)"
proof -
  obtain n sent where tk: "tick S now rnd (nodes c i) = (n, sent)" by (cases "tick S now rnd (nodes c i)")
  have nd: "nodes_inv sync id_ok ids c" using inv by (simp add: cluster_inv_def)
  have s: "sync (nodes c i)" and nid: "nodeID (nodes c i) = i" using nodes_invD(1,4) [OF nd i] by simp_all
  show ?thesis
  proof (rule tick_cases [OF tk])
    assume q: "same_vote (nodes c i) n" "storage n = storage (nodes c i)" "sent = []"
    show ?thesis
      by (rule quiet_step_inv [OF inv i, of n _ "{}"])
        (use q sync_same [OF s] nodes_invD(6) [OF nd] in
          \<open>auto simp: tick_step_def tk same_vote_quiet same_vote_def set_node_def send_msgs_def\<close>)
  next
    assume e: "startElectionLocked S now rnd (nodes c i) = (n, sent)" "state (nodes c i) \<noteq> Leader"
    note en = election_node [OF e(1) s T, unfolded nid, OF ok]
    show ?thesis
      by (rule election_inv [OF inv fin i, of n "currentTerm (nodes c i) + 1" _ "{VoteReq p args | p args. (p, args) \<in> set sent}"])
        (use en i T in \<open>auto simp: tick_step_def tk set_node_def send_msgs_def Let_def\<close>)
  qed
qed

lemma vote_step_inv:
  assumes inv: "cluster_inv sync id_ok ids c" and fin: "finite ids" and ne: "'''' \<notin> ids" and nil: "id_ok ''''"
    and ok: "\<forall>k \<in> ids. id_ok k" and i: "i \<in> ids" and m: "VoteReq i args \<in> net c"
  shows "cluster_inv sync id_ok ids (vote_step S now rnd i args c)"
proof -
  have nd: "nodes_inv sync id_ok ids c" using inv by (simp add: cluster_inv_def)
  have s: "sync (nodes c i)" using nodes_invD(4) [OF nd i] .
  have a: "rvTerm args < 2 ^ 64" "rvCandidateID args \<in> ids" using nodes_invD(5) [OF nd m] by simp_all
  let ?k = "rvCandidateID args" and ?T = "rvTerm args"
  let ?n = "if ?T > currentTerm (nodes c i) then becomeFollowerLocked S ?T (nodes c i) else nodes c i"
  have calm: "quiet (nodes c i) ?n \<and> sync ?n" using follower_calm [OF s a(1) nil] s by simp
  obtain reply n where h: "HandleRequestVote S now rnd args (nodes c i) = (reply, n)" by (cases "HandleRequestVote S now rnd args (nodes c i)")
  show ?thesis
  proof (cases "vrVoteGranted reply")
    case False
    then have "(n = nodes c i \<or> n = ?n) \<and> vrTerm reply = currentTerm n"
      using h by (auto simp: HandleRequestVote_def Let_def split: if_splits)
    then have n: "quiet (nodes c i) n \<and> sync n \<and> vrTerm reply < 2 ^ 64" using calm s by (auto simp: insync_def)
    show ?thesis
      by (rule quiet_step_inv [OF inv i, of n _ "{VoteReply i ?k ?T reply}"])
        (use n False nodes_invD(6) [OF nd] in \<open>auto simp: vote_step_def h set_node_def send_msgs_def\<close>)
  next
    case True
    let ?c = "set_node i ?n c"
    have v: "votedFor ?n = '''' \<or> votedFor ?n = ?k"
      "n = resetElectionTimerLocked now rnd (persistTermAndVoteLocked S (?n\<lparr>votedFor := ?k\<rparr>))"
      "vrTerm reply = currentTerm ?n" "\<not> ?T < currentTerm (nodes c i)"
      using h True by (auto simp: HandleRequestVote_def Let_def split: if_splits)
    have T: "currentTerm ?n = ?T" using v(4) by (simp add: frame_simps)
    have "sync (persistTermAndVoteLocked S (?n\<lparr>votedFor := ?k\<rparr>))"
      using calm ok a(2) by (intro persist_sync) (simp_all add: insync_def)
    then have sn: "sync n" unfolding v(2) by (simp add: insync_def frame_simps)
    have same: "same_vote ((nodes ?c i)\<lparr>votedFor := ?k\<rparr>) n"
      unfolding v(2) by (simp add: same_vote_def frame_simps set_node_def)
    have ci: "cluster_inv sync id_ok ids ?c"
      by (rule quiet_step_inv [OF inv i, of ?n _ "{}"]) (use calm nodes_invD(6) [OF nd] in \<open>auto simp: set_node_def\<close>)
    show ?thesis
      by (rule grant_inv [OF ci fin ne i a(2) _ same sn, of ?T reply])
        (use v(1,3) T a(1) same True in \<open>auto simp: same_vote_def vote_step_def h set_node_def send_msgs_def\<close>)
  qed
qed

lemma vote_reply_step_inv:
  assumes inv: "cluster_inv sync id_ok ids c" and fin: "finite ids" and nil: "id_ok ''''" and i: "i \<in> ids"
    and m: "VoteReply p i T reply \<in> net c" and w: "(i, T, p) \<in> waiting c"
  shows "cluster_inv sync id_ok ids (vote_reply_step S i T p reply c)"
proof -
  have nd: "nodes_inv sync id_ok ids c" using inv by (simp add: cluster_inv_def)
  have s: "sync (nodes c i)" and nid: "nodeID (nodes c i) = i" using nodes_invD(1,4) [OF nd i] by simp_all
  have t: "vrTerm reply < 2 ^ 64" using nodes_invD(5) [OF nd m] by simp
  let ?n = "startElection_reply S T reply (nodes c i)"
  show ?thesis
  proof (cases "vrTerm reply \<le> currentTerm (nodes c i) \<and> state (nodes c i) = Candidate \<and> currentTerm (nodes c i) = T \<and> vrVoteGranted reply")
    case True
    then have "?n = (let n1 = (nodes c i)\<lparr>votes := votes (nodes c i) + 1\<rparr> in if votes n1 \<ge> majority n1 then becomeLeaderLocked n1 else n1)"
      by (simp add: startElection_reply_def)
    then have n: "nodeID ?n = i" "peers ?n = peers (nodes c i)" "currentTerm ?n = T" "votedFor ?n = votedFor (nodes c i)"
      "votes ?n = votes (nodes c i) + 1" "state ?n = (if votes ?n \<ge> majority ?n then Leader else Candidate)" "storage ?n = storage (nodes c i)"
      using True nid by (auto simp: becomeLeaderLocked_def majority_def Let_def)
    have "sync ?n" using s n True by (simp add: insync_def)
    with n True show ?thesis
      by (intro vote_counted_inv [OF inv fin i m _ w, of ?n]) (auto simp: vote_reply_step_def set_node_def Let_def)
  next
    case False
    then have "?n = nodes c i \<or> ?n = becomeFollowerLocked S (vrTerm reply) (nodes c i)"
      by (auto simp: startElection_reply_def)
    then have q: "quiet (nodes c i) ?n \<and> sync ?n" using follower_calm [OF s t nil] s by auto
    have "\<not> (state ?n = Leader \<and> state (nodes c i) \<noteq> Leader)" using q by (auto simp: quiet_def split: if_splits)
    with q show ?thesis
      by (intro quiet_step_inv [OF inv i, of ?n _ "{}"]) (use nodes_invD(6) [OF nd] in \<open>auto simp: vote_reply_step_def set_node_def Let_def\<close>)
  qed
qed

lemma quiet_node_inv:
  assumes inv: "cluster_inv sync id_ok ids c" and i: "i \<in> ids" and n: "quiet (nodes c i) n \<and> sync n"
    and c': "nodes c' = (nodes c)(i := n)" "net c' = net c \<union> msgs" "granted c' = granted c" "elected c' = elected c"
      "waiting c' \<subseteq> waiting c" "snapping c' \<subseteq> snapping c"
    and m: "\<forall>m \<in> msgs. msg_ok id_ok ids m \<and> (\<forall>p j T reply. m \<noteq> VoteReply p j T reply)"
  shows "cluster_inv sync id_ok ids c'"
proof (rule quiet_step_inv [OF inv i conjunct1 [OF n] conjunct2 [OF n] c'(1-5)])
  have nd: "nodes_inv sync id_ok ids c" using inv by (simp add: cluster_inv_def)
  show "\<forall>j T p. (j, T, p) \<in> snapping c' \<longrightarrow> T < 2 ^ 64" using nodes_invD(6) [OF nd] c'(6) by blast
qed (use m in blast)+

lemma step_inv:
  assumes st: "step S M reopen ids c c'" and inv: "cluster_inv sync id_ok ids c" and fin: "finite ids" and ne: "'''' \<notin> ids"
    and nil: "id_ok ''''" and ok: "\<forall>k \<in> ids. id_ok k"
  shows "cluster_inv sync id_ok ids c'"
proof -
  have nd: "nodes_inv sync id_ok ids c" using inv by (simp add: cluster_inv_def)
  note s = nodes_invD(4) [OF nd] and msg = nodes_invD(5) [OF nd]
  from st show ?thesis
  proof cases
    case (step_tick i now rnd)
    then show ?thesis using tick_step_inv [OF inv fin] ok by blast
  next
    case (step_vote i args now rnd)
    then show ?thesis using vote_step_inv [OF inv fin ne nil ok] by blast
  next
    case (step_vote_reply i p T reply)
    then show ?thesis using vote_reply_step_inv [OF inv fin nil] by blast
  next
    case (step_send_append i p args)
    have "aeTerm args = currentTerm (nodes c i)"
      using step_send_append(4) by (auto simp: sendAppendEntriesTo_request_def Let_def split: if_splits option.splits)
    then show ?thesis using s [OF step_send_append(2)] unfolding step_send_append(1)
      by (intro quiet_node_inv [OF inv step_send_append(2), of "nodes c i" _ "{AppendReq p args}"]) (auto simp: send_msgs_def insync_def)
  next
    case (step_append i args now rnd reply n)
    note calm = append_calm [OF step_append(4) s [OF step_append(2)] _ nil] and m = msg [OF step_append(3)]
    show ?thesis unfolding step_append(1)
      by (rule quiet_node_inv [OF inv step_append(2), of n]) (use calm m in \<open>auto simp: send_msgs_def set_node_def\<close>)
  next
    case (step_append_reply i p T prev cnt reply n)
    note calm = append_reply_calm [OF step_append_reply(4) s [OF step_append_reply(2)] _ nil] and m = msg [OF step_append_reply(3)]
    show ?thesis unfolding step_append_reply(1)
      by (rule quiet_node_inv [OF inv step_append_reply(2), of n _ "{}"]) (use calm m in \<open>auto simp: set_node_def\<close>)
  next
    case (step_snap i p T)
    have "T = currentTerm (nodes c i)"
      using step_snap(4) by (auto simp: sendAppendEntriesTo_request_def Let_def split: if_splits option.splits)
    then show ?thesis using s [OF step_snap(2)] nodes_invD(6) [OF nd] unfolding step_snap(1)
      by (intro quiet_step_inv [OF inv step_snap(2), of "nodes c i" _ "{}"]) (auto simp: insync_def)
  next
    case (step_send_snap i T p args)
    have "isTerm args = T"
      using step_send_snap(4) by (auto simp: sendInstallSnapshotTo_request_def split: option.splits)
    then show ?thesis using s [OF step_send_snap(2)] nodes_invD(6) [OF nd step_send_snap(3)] unfolding step_send_snap(1)
      by (intro quiet_node_inv [OF inv step_send_snap(2), of "nodes c i" _ "{SnapReq p args}"]) (auto simp: send_msgs_def)
  next
    case (step_install i args now rnd T n)
    note calm = install_begin_calm [OF step_install(4) s [OF step_install(2)] _ nil] and m = msg [OF step_install(3)]
    show ?thesis unfolding step_install(1)
      by (rule quiet_node_inv [OF inv step_install(2), of n _ "{}"]) (use calm m in \<open>auto simp: set_node_def\<close>)
  next
    case (step_install_stale i args now rnd reply n)
    note calm = install_begin_calm [OF step_install_stale(4) s [OF step_install_stale(2)] _ nil] and m = msg [OF step_install_stale(3)]
    show ?thesis unfolding step_install_stale(1)
      by (rule quiet_node_inv [OF inv step_install_stale(2), of n]) (use calm m in \<open>auto simp: set_node_def send_msgs_def\<close>)
  next
    case (step_restore i args ok n)
    note calm = install_restore_calm [OF step_restore(4) s [OF step_restore(2)]]
    show ?thesis unfolding step_restore(1)
      by (rule quiet_node_inv [OF inv step_restore(2) calm, where msgs = "{}"]) (auto simp: set_node_def)
  next
    case (step_finish i args reply n)
    note calm = install_finish_calm [OF step_finish(4) s [OF step_finish(2)]]
    show ?thesis unfolding step_finish(1)
      by (rule quiet_node_inv [OF inv step_finish(2), of n]) (use calm in \<open>auto simp: set_node_def send_msgs_def\<close>)
  next
    case (step_snap_reply i p T idx reply n)
    note calm = snap_reply_calm [OF step_snap_reply(4) s [OF step_snap_reply(2)] _ nil] and m = msg [OF step_snap_reply(3)]
    show ?thesis unfolding step_snap_reply(1)
      by (rule quiet_node_inv [OF inv step_snap_reply(2), of n _ "{}"]) (use calm m in \<open>auto simp: set_node_def\<close>)
  next
    case (step_propose i req command n)
    show ?thesis unfolding step_propose(1)
      by (rule quiet_node_inv [OF inv step_propose(2) client_calm(1) [OF s [OF step_propose(2)] step_propose(3)], where msgs = "{}"])
        (auto simp: set_node_def)
  next
    case (step_append_loop i results n)
    show ?thesis unfolding step_append_loop(1)
      by (rule quiet_node_inv [OF inv step_append_loop(2) client_calm(2) [OF s [OF step_append_loop(2)] step_append_loop(3)], where msgs = "{}"])
        (auto simp: set_node_def)
  next
    case (step_replicate i)
    show ?thesis unfolding step_replicate(1)
      by (rule quiet_node_inv [OF inv step_replicate(2) client_calm(3) [OF s [OF step_replicate(2)]], where msgs = "{}"])
        (auto simp: set_node_def)
  next
    case (step_apply i e n)
    show ?thesis unfolding step_apply(1)
      by (rule quiet_node_inv [OF inv step_apply(2) client_calm(4) [OF s [OF step_apply(2)] step_apply(3)], where msgs = "{}"])
        (auto simp: set_node_def)
  next
    case (step_compact i n)
    show ?thesis unfolding step_compact(1)
      by (rule quiet_node_inv [OF inv step_compact(2) compact_calm [OF step_compact(3) s [OF step_compact(2)]], where msgs = "{}"])
        (auto simp: set_node_def)
  next
    case (step_restart i st sm n now rnd)
    have nid: "nodeID (nodes c i) = i" using nodes_invD(1) [OF nd step_restart(2)] .
    have calm: "quiet (nodes c i) (Start now rnd n) \<and> sync (Start now rnd n)"
      by (rule restart_calm [OF step_restart(3) _ s [OF step_restart(2)]]) (use step_restart(4) nid in simp)
    show ?thesis unfolding step_restart(1)
      by (rule quiet_node_inv [OF inv step_restart(2) calm, where msgs = "{}"]) (auto simp: restart_step_def set_node_def)
  qed
qed

lemma initial_inv:
  assumes "initial S M ids c" and "\<forall>i \<in> ids. sync (nodes c i)"
  shows "cluster_inv sync id_ok ids c"
proof -
  have node: "nodeID (nodes c i) = i \<and> set (peers (nodes c i)) = ids - {i} \<and> distinct (peers (nodes c i)) \<and> state (nodes c i) = Follower"
    if i: "i \<in> ids" for i
  proof -
    obtain ps st sm op n now rnd where n: "NewNode S M i ps st sm op = Inr n" "nodes c i = Start now rnd n" "set ps = ids - {i}" "distinct ps"
      using bspec [OF conjunct1 [OF assms(1) [unfolded initial_def]] i] by (elim exE conjE)
    with NewNode_fields [OF n(1)] show ?thesis by (simp add: Start_def frame_simps)
  qed
  have e: "net c = {}" "waiting c = {}" "snapping c = {}" "granted c = {}" "elected c = {}" using assms(1) by (simp_all add: initial_def)
  have "nodes_inv sync id_ok ids c" by (rule nodes_invI) (use node assms(2) e in auto)
  moreover have "votes_inv ids c" by (rule votes_invI) (use e in auto)
  moreover have "roles_inv ids c" by (rule roles_invI) (use node e in auto)
  ultimately show ?thesis by (simp add: cluster_inv_def)
qed

lemma reachable_inv:
  assumes "reachable S M reopen ids c0 c" and "initial S M ids c0" and "\<forall>i \<in> ids. sync (nodes c0 i)" and "finite ids" and "'''' \<notin> ids"
    and "id_ok ''''" and "\<forall>k \<in> ids. id_ok k"
  shows "cluster_inv sync id_ok ids c"
  using assms(1)
proof induction
  case reachable_refl
  show ?case using assms(2,3) by (rule initial_inv)
next
  case (reachable_step c c')
  then show ?case using step_inv assms(4-7) by blast
qed

end

end
