(* ===== verification/Election_Props.thy ===== *)
theory Election_Props
  imports Raft_Election File_Props
begin

text \<open>
  Election safety for clusters whose nodes use the file storage, with a run in which a leader is
  elected.
\<close>

text \<open>
  C3: In every state a cluster of nodes over the file storage can reach, through any
  interleaving of ticks, RPCs, replies, lost and repeated messages, compactions, crashes and
  restarts, at most one node has been elected leader of a term, and two nodes that are leaders
  of the same term are the same node.
\<close>

theorem election_safety:
  assumes "reachable FileStorage_Storage M fs_reopen ids c0 c" and "initial FileStorage_Storage M ids c0"
    and "\<forall>i \<in> ids. insync fs_good fs_tv ascii (nodes c0 i)" and "finite ids" and "'''' \<notin> ids" and "\<forall>i \<in> ids. ascii i"
  shows "(\<forall>T i j. (T, i) \<in> elected c \<longrightarrow> (T, j) \<in> elected c \<longrightarrow> i = j)
    \<and> (\<forall>i \<in> ids. \<forall>j \<in> ids. state (nodes c i) = Leader \<longrightarrow> state (nodes c j) = Leader \<longrightarrow>
         currentTerm (nodes c i) = currentTerm (nodes c j) \<longrightarrow> i = j)"
proof -
  have inv: "cluster_inv (insync fs_good fs_tv ascii) ascii ids c"
    by (rule fsv.reachable_inv [OF assms(1-5) _ assms(6)]) simp
  note unique = elected_unique [OF assms(4) inv]
  moreover have "(currentTerm (nodes c i), i) \<in> elected c" if "i \<in> ids" "state (nodes c i) = Leader" for i
    using inv that by (auto simp: cluster_inv_def roles_inv_def)
  ultimately show ?thesis by metis
qed

definition sample_peers :: "string \<Rightarrow> string list" where
  "sample_peers i = filter (\<lambda>j. j \<noteq> i) [''a'', ''b'', ''c'']"

definition sample_member :: "string \<Rightarrow> (FileStorage, bytes) Node" where
  "sample_member i = \<lparr>nodeID = i, peers = sample_peers i, storage = sample_fs, stateMachine = [],
     opts = DefaultOptions, currentTerm = 0, votedFor = '''', log = [], logBaseIndex = 0, logBaseTerm = 0, state = Follower,
     commitIndex = 0, lastApplied = 0, leaderID = '''', nextIndex = [], matchIndex = [], electionResetAt = 0, electionTimeout = ms 300,
     lastHeartbeatSent = Some 0, applyNotify = False, replicateCh = map (\<lambda>p. (p, False)) (sample_peers i),
     proposeCh = [], votes = 0\<rparr>"

definition sample_cluster :: "(FileStorage, bytes) cluster" where
  "sample_cluster = \<lparr>nodes = sample_member, net = {}, waiting = {}, snapping = {}, restoring = {}, finishing = {},
     granted = {}, elected = {}\<rparr>"

lemma sample_initial: "initial FileStorage_Storage sample_restore {''a'', ''b'', ''c''} sample_cluster"
proof -
  have st: "load_state (fsdisk sample_fs) = Some (0, '''')" "loaded sample_fs = []"
    by (simp_all add: sample_fs_def load_state_def read_file_def)
  have n: "\<exists>n. NewNode FileStorage_Storage sample_restore i (sample_peers i) sample_fs [] DefaultOptions = Inr n
      \<and> nodes sample_cluster i = Start 0 0 n" for i
    using st sample_fs_ok(3)
    by (simp add: NewNode_def FileStorage_Storage_def fs_LoadTermAndVote_def fs_LoadSnapshot_def fs_LoadLog_def sample_cluster_def
        sample_member_def Start_def resetElectionTimerLocked_def randomDuration_def DefaultOptions_def ms_def)
  have p: "set (sample_peers i) = {''a'', ''b'', ''c''} - {i}" "distinct (sample_peers i)" for i
    by (auto simp: sample_peers_def)
  have "\<exists>ps st sm op n now rnd. NewNode FileStorage_Storage sample_restore i ps st sm op = Inr n
      \<and> nodes sample_cluster i = Start now rnd n \<and> set ps = {''a'', ''b'', ''c''} - {i} \<and> distinct ps" for i
  proof -
    obtain m where "NewNode FileStorage_Storage sample_restore i (sample_peers i) sample_fs [] DefaultOptions = Inr m"
      "nodes sample_cluster i = Start 0 0 m" using n [of i] by blast
    then show ?thesis using p [of i]
      by (intro exI [of _ "sample_peers i"] exI [of _ sample_fs] exI [of _ "[]"] exI [of _ DefaultOptions] exI [of _ m]
          exI [of _ "0::int"]) simp
  qed
  then show ?thesis unfolding initial_def by (intro conjI ballI) (simp_all add: sample_cluster_def)
qed

lemma sample_insync: "insync fs_good fs_tv ascii (nodes sample_cluster i)"
  by (simp add: insync_def sample_cluster_def sample_member_def fs_good_def fs_tv_def sample_fs_def load_state_def read_file_def)

definition sample_request :: RequestVoteArgs where
  "sample_request = \<lparr>rvTerm = 1, rvCandidateID = ''a'', rvLastLogIndex = 0, rvLastLogTerm = 0\<rparr>"

definition sample_elected :: "(FileStorage, bytes) cluster" where
  "sample_elected = vote_reply_step FileStorage_Storage ''a'' 1 ''b'' \<lparr>vrTerm = 1, vrVoteGranted = True\<rparr>
     (vote_step FileStorage_Storage 0 0 ''b'' sample_request (tick_step FileStorage_Storage (ms 400) 0 ''a'' sample_cluster))"

lemmas sample_run_defs = tick_step_def vote_step_def vote_reply_step_def tick_def startElectionLocked_def HandleRequestVote_def
  startElection_reply_def becomeLeaderLocked_def majority_def sample_cluster_def sample_member_def sample_peers_def sample_request_def set_node_def send_msgs_def
  frame_simps lastLogIndexLocked_def lastLogTermLocked_def Let_def ms_def DefaultOptions_def

lemma sample_run:
  "reachable FileStorage_Storage sample_restore fs_reopen {''a'', ''b'', ''c''} sample_cluster sample_elected" "(1, ''a'') \<in> elected sample_elected"
proof -
  let ?S = "FileStorage_Storage" and ?ids = "{''a'', ''b'', ''c''}"
  let ?c1 = "tick_step ?S (ms 400) 0 ''a'' sample_cluster"
  let ?c2 = "vote_step ?S 0 0 ''b'' sample_request ?c1"
  have "step ?S sample_restore fs_reopen ?ids sample_cluster ?c1"
    by (rule step_tick) (simp_all add: sample_cluster_def sample_member_def)
  moreover have "VoteReq ''b'' sample_request \<in> net ?c1" by (simp add: sample_run_defs)
  then have "step ?S sample_restore fs_reopen ?ids ?c1 ?c2" by (intro step_vote) simp_all
  moreover have "VoteReply ''b'' ''a'' 1 \<lparr>vrTerm = 1, vrVoteGranted = True\<rparr> \<in> net ?c2" "(''a'', 1, ''b'') \<in> waiting ?c2"
    by (simp_all add: sample_run_defs)
  then have "step ?S sample_restore fs_reopen ?ids ?c2 sample_elected" unfolding sample_elected_def by (intro step_vote_reply) simp_all
  ultimately show "reachable ?S sample_restore fs_reopen ?ids sample_cluster sample_elected"
    by (meson reachable_refl reachable_step)
  show "(1, ''a'') \<in> elected sample_elected" by (simp add: sample_elected_def sample_run_defs)
qed

theorem election_safety_witness:
  "{j. (1, j) \<in> elected sample_elected} = {''a''}"
proof -
  have a: "\<forall>i \<in> {''a'', ''b'', ''c''}. ascii i" by (simp add: code_def)
  have i: "\<forall>i \<in> {''a'', ''b'', ''c''}. insync fs_good fs_tv ascii (nodes sample_cluster i)" using sample_insync by blast
  have f: "finite {''a'', ''b'', ''c''}" "[] \<notin> {''a'', ''b'', ''c''}" by simp_all
  from conjunct1 [OF election_safety [OF sample_run(1) sample_initial i f a]] sample_run(2) show ?thesis by blast
qed

end
