(* ===== verification/Lru.thy ===== *)
theory Lru
  imports Prelude Complex_Main
begin

text \<open>
  Package \<^verbatim>\<open>internal/cache\<close>: the LRU cache of the gateway (\<^verbatim>\<open>lru.go\<close>).  The doubly linked list
  of \<^verbatim>\<open>container/list\<close> is the list of its elements from the front, each with an identity, since
  the map of the cache holds pointers to the elements.  The cache implements the list of its
  entries in the order of their last use, of which at most \<^verbatim>\<open>capacity\<close> are kept, and it keeps
  the contract \<open>read_cache\<close> that the gateway relies on.
\<close>

section \<open>container/list\<close>

type_synonym 'a elements = "(nat \<times> 'a) list"

definition MoveToFront :: "nat \<Rightarrow> 'a elements \<Rightarrow> 'a elements" where
  "MoveToFront p l = (case map_of l p of None \<Rightarrow> l | Some v \<Rightarrow> (p, v) # AList.delete p l)"

definition Remove :: "nat \<Rightarrow> 'a elements \<Rightarrow> 'a elements" where
  "Remove p l = AList.delete p l"

definition Back :: "'a elements \<Rightarrow> nat option" where
  "Back l = (if l = [] then None else Some (fst (last l)))"

section \<open>The cache\<close>

record Stats =
  Hits :: int
  Misses :: int
  Evictions :: int

record entry =
  ekey :: string
  evalue :: bytes

text \<open>\<open>fresh\<close> is the identity of the next element to be allocated.\<close>

record LRU =
  capacity :: int
  items :: "(string \<times> nat) list"
  order :: "entry elements"
  hits :: int
  misses :: int
  evictions :: int
  fresh :: nat

definition NewLRU :: "int \<Rightarrow> LRU" where
  "NewLRU cap = \<lparr>capacity = cap, items = [], order = [], hits = 0, misses = 0, evictions = 0, fresh = 0\<rparr>"

text \<open>A pointer in the map that is not in the list would be a nil dereference: \<open>None\<close> in \<open>deref\<close>.\<close>

definition deref :: "LRU \<Rightarrow> nat \<Rightarrow> entry option" where
  "deref c p = map_of (order c) p"

definition lru_Get :: "LRU \<Rightarrow> string \<Rightarrow> bytes option \<times> LRU" where
  "lru_Get c k =
     (case map_of (items c) k of
        None \<Rightarrow> (None, c\<lparr>misses := s64 (misses c + 1)\<rparr>)
      | Some elem \<Rightarrow>
          let c1 = c\<lparr>order := MoveToFront elem (order c), hits := s64 (hits c + 1)\<rparr>
          in (map_option evalue (deref c1 elem), c1))"

definition lru_Set :: "LRU \<Rightarrow> string \<Rightarrow> bytes \<Rightarrow> LRU" where
  "lru_Set c k v =
     (if capacity c \<le> 0 then c
      else case map_of (items c) k of
        Some elem \<Rightarrow>
          c\<lparr>order := MoveToFront elem (AList.map_entry elem (\<lambda>e. e\<lparr>evalue := v\<rparr>) (order c))\<rparr>
      | None \<Rightarrow>
          let c1 = c\<lparr>order := (fresh c, \<lparr>ekey = k, evalue = v\<rparr>) # order c,
                     items := AList.update k (fresh c) (items c), fresh := fresh c + 1\<rparr>
          in if int (length (order c1)) > capacity c then
               (case Back (order c1) of
                  None \<Rightarrow> c1
                | Some oldest \<Rightarrow>
                    c1\<lparr>order := Remove oldest (order c1),
                       items := (case deref c1 oldest of None \<Rightarrow> items c1 | Some e \<Rightarrow> AList.delete (ekey e) (items c1)),
                       evictions := s64 (evictions c + 1)\<rparr>)
             else c1)"

definition lru_Delete :: "LRU \<Rightarrow> string \<Rightarrow> LRU" where
  "lru_Delete c k =
     (case map_of (items c) k of
        None \<Rightarrow> c
      | Some elem \<Rightarrow> c\<lparr>order := Remove elem (order c), items := AList.delete k (items c)\<rparr>)"

definition lru_Stats :: "LRU \<Rightarrow> Stats" where
  "lru_Stats c = \<lparr>Hits = hits c, Misses = misses c, Evictions = evictions c\<rparr>"

text \<open>The \<^verbatim>\<open>float64\<close> of the hit rate is the exact quotient.\<close>

definition HitRate :: "LRU \<Rightarrow> rat" where
  "HitRate c = (let total = s64 (hits c + misses c) in if total = 0 then 0 else of_int (hits c) / of_int total)"

section \<open>The specification: entries by last use\<close>

definition touch :: "string \<Rightarrow> (string \<times> bytes) list \<Rightarrow> (string \<times> bytes) list" where
  "touch k l = (case map_of l k of None \<Rightarrow> l | Some v \<Rightarrow> (k, v) # AList.delete k l)"

definition store_recent :: "int \<Rightarrow> string \<Rightarrow> bytes \<Rightarrow> (string \<times> bytes) list \<Rightarrow> (string \<times> bytes) list" where
  "store_recent cap k v l = (if cap \<le> 0 then l else take (nat cap) ((k, v) # AList.delete k l))"

definition recent :: "LRU \<Rightarrow> (string \<times> bytes) list" where
  "recent c = map (\<lambda>(p, e). (ekey e, evalue e)) (order c)"

definition cached :: "LRU \<Rightarrow> string \<rightharpoonup> bytes" where
  "cached c = map_of (recent c)"

definition lru_inv :: "LRU \<Rightarrow> bool" where
  "lru_inv c \<longleftrightarrow> distinct (map fst (order c)) \<and> distinct (map (\<lambda>x. ekey (snd x)) (order c))
     \<and> distinct (map fst (items c)) \<and> set (items c) = (\<lambda>(p, e). (ekey e, p)) ` set (order c)
     \<and> (\<forall>p \<in> fst ` set (order c). p < fresh c) \<and> int (length (order c)) \<le> max 0 (capacity c)"

lemma lru_invD:
  assumes "lru_inv c"
  shows "distinct (map fst (order c))" "distinct (map (\<lambda>x. ekey (snd x)) (order c))" "distinct (map fst (items c))"
    "set (items c) = (\<lambda>(p, e). (ekey e, p)) ` set (order c)" "\<forall>p \<in> fst ` set (order c). p < fresh c"
    "int (length (order c)) \<le> max 0 (capacity c)"
  using assms by (simp_all add: lru_inv_def)

lemma map_filter_agree: "(\<forall>x \<in> set l. P x = Q (f x)) \<Longrightarrow> map f (filter P l) = filter Q (map f l)"
  by (induction l) auto

lemma items_lookup:
  assumes "lru_inv c"
  shows "map_of (items c) k = Some p \<longleftrightarrow> (\<exists>e. (p, e) \<in> set (order c) \<and> ekey e = k)"
  using lru_invD(3,4) [OF assms] by (auto simp: map_of_eq_Some_iff)

lemma items_lookup_None:
  assumes "lru_inv c"
  shows "map_of (items c) k = None \<longleftrightarrow> k \<notin> fst ` set (recent c)"
  using lru_invD(4) [OF assms] by (auto simp: map_of_eq_None_iff recent_def image_image case_prod_beta)

lemma distinct_recent: "lru_inv c \<Longrightarrow> distinct (map fst (recent c))"
  using lru_invD(2) [of c] by (simp add: recent_def comp_def case_prod_beta)

text \<open>An element found through the map: where it is and what it says about the entries by last use.\<close>

lemma found_element:
  assumes "lru_inv c" and "map_of (items c) k = Some p"
  obtains e where "(p, e) \<in> set (order c)" "ekey e = k" "map_of (order c) p = Some e"
    "map_of (recent c) k = Some (evalue e)" "\<forall>x \<in> set (order c). (fst x = p) = (ekey (snd x) = k)"
proof -
  obtain e where e: "(p, e) \<in> set (order c)" "ekey e = k" using items_lookup [OF assms(1)] assms(2) by blast
  note d = lru_invD [OF assms(1)]
  have p: "map_of (order c) p = Some e" using e d(1) by simp
  have "(k, evalue e) \<in> set (recent c)" using e by (force simp: recent_def)
  then have r: "map_of (recent c) k = Some (evalue e)" using distinct_recent [OF assms(1)] by simp
  have "\<forall>x \<in> set (order c). (fst x = p) = (ekey (snd x) = k)"
  proof
    fix x assume x: "x \<in> set (order c)"
    show "(fst x = p) = (ekey (snd x) = k)"
    proof
      assume "fst x = p"
      then have "map_of (order c) p = Some (snd x)" using x d(1) by (cases x) simp
      then show "ekey (snd x) = k" using p e(2) by simp
    next
      assume "ekey (snd x) = k"
      then have "(k, fst x) \<in> set (items c)" using x d(4) by (cases x) force
      then have "map_of (items c) k = Some (fst x)" using d(3) by simp
      then show "fst x = p" using assms(2) by simp
    qed
  qed
  with e p r show ?thesis using that by blast
qed

lemma recent_delete:
  assumes "\<forall>x \<in> set o'. (fst x = p) = (ekey (snd x) = k)"
  shows "map (\<lambda>(p, e). (ekey e, evalue e)) (AList.delete p o') = AList.delete k (map (\<lambda>(p, e). (ekey e, evalue e)) o')"
  unfolding AList.delete_eq by (rule map_filter_agree) (use assms in force)

lemma set_delete_elements: "set (AList.delete p l) = {x \<in> set l. fst x \<noteq> p}"
  by (auto simp: AList.delete_eq)

text \<open>Moving an element to the front, with a new value or the old one, keeps the invariant.\<close>

lemma inv_move:
  assumes "lru_inv c" and "(p, e) \<in> set (order c)" and "ekey e' = ekey e"
    and "order c' = (p, e') # AList.delete p (order c)" and "items c' = items c" and "fresh c' = fresh c"
    and "capacity c' = capacity c"
  shows "lru_inv c'"
proof -
  note d = lru_invD [OF assms(1)]
  let ?r = "AList.delete p (order c)"
  have u: "x = (p, e)" if "x \<in> set (order c)" "fst x = p" for x
    using d(1) assms(2) that by (cases x) (auto simp: eq_key_imp_eq_value)
  have k: "x = (p, e)" if "x \<in> set (order c)" "ekey (snd x) = ekey e" for x
    using d(2) assms(2) that inj_onD [of "\<lambda>x. ekey (snd x)" "set (order c)" x "(p, e)"] by (simp add: distinct_map)
  have r: "set (order c) = insert (p, e) (set ?r)"
  proof (rule set_eqI)
    fix x
    show "x \<in> set (order c) \<longleftrightarrow> x \<in> insert (p, e) (set ?r)"
      using assms(2) u [of x] by (cases "fst x = p") (auto simp: set_delete_elements)
  qed
  have "distinct (map fst ?r)" "distinct (map (\<lambda>x. ekey (snd x)) ?r)"
    using d(1,2) by (simp_all add: AList.delete_eq distinct_map_filter)
  moreover have "p \<notin> fst ` set ?r" by (auto simp: set_delete_elements)
  moreover have "ekey e \<notin> (\<lambda>x. ekey (snd x)) ` set ?r"
  proof
    assume "ekey e \<in> (\<lambda>x. ekey (snd x)) ` set ?r"
    then obtain x where x: "x \<in> set ?r" "ekey (snd x) = ekey e" by auto
    then have "x \<in> set (order c)" "fst x \<noteq> p" by (simp_all add: set_delete_elements)
    then show False using k [of x] x(2) by simp
  qed
  moreover have "set (items c') = (\<lambda>(p, e). (ekey e, p)) ` set (order c')"
    unfolding assms(4,5) d(4) r using assms(3) by simp
  moreover have "length ?r < length (order c)"
    using assms(2) by (auto simp: AList.delete_eq length_filter_less)
  moreover have "\<forall>q \<in> fst ` set (order c'). q < fresh c'" using d(5) assms(4,6) unfolding r by simp
  ultimately show ?thesis using d(3,6) assms(3-7) by (simp add: lru_inv_def)
qed

lemma MoveToFront_found: "map_of l p = Some e \<Longrightarrow> MoveToFront p l = (p, e) # AList.delete p l"
  by (simp add: MoveToFront_def)

lemma lru_Get_correct:
  assumes "lru_inv c"
  shows "fst (lru_Get c k) = cached c k" "lru_inv (snd (lru_Get c k))" "recent (snd (lru_Get c k)) = touch k (recent c)"
    "capacity (snd (lru_Get c k)) = capacity c"
proof -
  have "fst (lru_Get c k) = cached c k \<and> lru_inv (snd (lru_Get c k)) \<and> recent (snd (lru_Get c k)) = touch k (recent c)
    \<and> capacity (snd (lru_Get c k)) = capacity c"
  proof (cases "map_of (items c) k")
    case None
    then have "map_of (recent c) k = None" using items_lookup_None [OF assms] by (simp add: map_of_eq_None_iff)
    then show ?thesis using None assms by (simp add: lru_Get_def cached_def touch_def recent_def lru_inv_def)
  next
    case (Some p)
    obtain e where e: "(p, e) \<in> set (order c)" "ekey e = k" "map_of (order c) p = Some e"
      "map_of (recent c) k = Some (evalue e)" "\<forall>x \<in> set (order c). (fst x = p) = (ekey (snd x) = k)"
      using found_element [OF assms Some] by blast
    have "lru_inv (snd (lru_Get c k))"
      by (rule inv_move [OF assms e(1)]) (simp_all add: lru_Get_def Some Let_def MoveToFront_found [OF e(3)])
    then show ?thesis
      by (simp add: lru_Get_def Some Let_def MoveToFront_found [OF e(3)] deref_def cached_def e(2,4) touch_def)
        (simp add: recent_def recent_delete [OF e(5)] e(2))
  qed
  then show "fst (lru_Get c k) = cached c k" "lru_inv (snd (lru_Get c k))" "recent (snd (lru_Get c k)) = touch k (recent c)"
    "capacity (snd (lru_Get c k)) = capacity c" by simp_all
qed

lemma lru_Delete_correct:
  assumes "lru_inv c"
  shows "lru_inv (lru_Delete c k) \<and> recent (lru_Delete c k) = AList.delete k (recent c) \<and> capacity (lru_Delete c k) = capacity c"
proof (cases "map_of (items c) k")
  case None
  then have "k \<notin> fst ` set (recent c)" using items_lookup_None [OF assms] by simp
  then have "AList.delete k (recent c) = recent c" by (rule AList.delete_id)
  then show ?thesis using None assms by (simp add: lru_Delete_def)
next
  case (Some p)
  obtain e where e: "(p, e) \<in> set (order c)" "ekey e = k" "map_of (order c) p = Some e"
    "map_of (recent c) k = Some (evalue e)" "\<forall>x \<in> set (order c). (fst x = p) = (ekey (snd x) = k)"
    using found_element [OF assms Some] by blast
  note d = lru_invD [OF assms]
  have "set (AList.delete k (items c)) = (\<lambda>(p, e). (ekey e, p)) ` set (AList.delete p (order c))"
    using d(4) e(5) by (force simp: set_delete_elements)
  moreover have "distinct (map fst (AList.delete p (order c)))" "distinct (map (\<lambda>x. ekey (snd x)) (AList.delete p (order c)))"
    "distinct (map fst (AList.delete k (items c)))"
    using d(1-3) by (simp_all add: AList.delete_eq distinct_map_filter)
  moreover have "length (AList.delete p (order c)) \<le> length (order c)" by (simp add: AList.delete_eq)
  ultimately have "lru_inv (lru_Delete c k)" using d(5,6)
    by (auto simp: lru_inv_def lru_Delete_def Some Remove_def set_delete_elements)
  then show ?thesis by (simp add: lru_Delete_def Some Remove_def recent_def recent_delete [OF e(5)])
qed

lemma delete_map_entry: "AList.delete p (AList.map_entry p f l) = AList.delete p l"
  by (induction l) (auto simp: AList.delete_eq)

lemma update_absent: "k \<notin> fst ` set l \<Longrightarrow> AList.update k v l = l @ [(k, v)]"
  by (induction l) auto

text \<open>The two cases of \<^verbatim>\<open>Set\<close> on a cache that is on: the key is present, or it is not.\<close>

lemma lru_Set_present:
  assumes "lru_inv c" and "0 < capacity c" and "map_of (items c) k = Some p"
  shows "lru_inv (lru_Set c k v) \<and> recent (lru_Set c k v) = store_recent (capacity c) k v (recent c)"
proof -
  obtain e where e: "(p, e) \<in> set (order c)" "ekey e = k" "map_of (order c) p = Some e"
    "map_of (recent c) k = Some (evalue e)" "\<forall>x \<in> set (order c). (fst x = p) = (ekey (snd x) = k)"
    using found_element [OF assms(1,3)] by blast
  let ?o = "AList.map_entry p (\<lambda>e. e\<lparr>evalue := v\<rparr>) (order c)"
  have m: "MoveToFront p ?o = (p, e\<lparr>evalue := v\<rparr>) # AList.delete p (order c)"
    using e(3) by (simp add: MoveToFront_def map_of_map_entry delete_map_entry)
  have i: "lru_inv (lru_Set c k v)"
    by (rule inv_move [OF assms(1) e(1), of "e\<lparr>evalue := v\<rparr>"]) (use assms(2) in \<open>simp_all add: lru_Set_def assms(3) m\<close>)
  have r: "recent (lru_Set c k v) = (k, v) # AList.delete k (recent c)"
    using assms(2) by (simp add: lru_Set_def assms(3) m recent_def recent_delete [OF e(5)] e(2))
  have "length (recent (lru_Set c k v)) \<le> nat (capacity c)"
    using lru_invD(6) [OF i] assms(2,3) by (simp add: recent_def lru_Set_def)
  then show ?thesis using i r assms(2) by (simp add: store_recent_def)
qed

lemma last_element:
  assumes "distinct (map fst l)" and "l \<noteq> []"
  shows "Back l = Some (fst (last l))" "map_of l (fst (last l)) = Some (snd (last l))" "AList.delete (fst (last l)) l = butlast l"
proof -
  show "Back l = Some (fst (last l))" using assms(2) by (simp add: Back_def)
  show "map_of l (fst (last l)) = Some (snd (last l))" using assms by simp
  obtain l' x where l: "l = l' @ [x]" using assms(2) by (metis append_butlast_last_id)
  then have "fst x \<notin> fst ` set l'" using assms(1) by simp
  then have "filter (\<lambda>(k', _). fst x \<noteq> k') l' = l'" by (induction l') auto
  then show "AList.delete (fst (last l)) l = butlast l" by (simp add: l AList.delete_eq case_prod_beta)
qed

lemma drop_last:
  assumes "distinct (map fst l)" and "distinct (map (\<lambda>x. ekey (snd x)) l)" and "l \<noteq> []"
  shows "distinct (map fst (butlast l))" "distinct (map (\<lambda>x. ekey (snd x)) (butlast l))"
    "{x \<in> (\<lambda>(p, e). (ekey e, p)) ` set l. fst x \<noteq> ekey (snd (last l))} = (\<lambda>(p, e). (ekey e, p)) ` set (butlast l)"
proof -
  obtain l' x where l: "l = l' @ [x]" using assms(3) by (metis append_butlast_last_id)
  show "distinct (map fst (butlast l))" "distinct (map (\<lambda>x. ekey (snd x)) (butlast l))" using assms(1,2) by (simp_all add: l)
  have "ekey (snd x) \<notin> (\<lambda>x. ekey (snd x)) ` set l'" using assms(2) by (simp add: l)
  then show "{x \<in> (\<lambda>(p, e). (ekey e, p)) ` set l. fst x \<noteq> ekey (snd (last l))} = (\<lambda>(p, e). (ekey e, p)) ` set (butlast l)"
    by (cases x) (force simp: l)
qed

lemma lru_Set_absent:
  assumes "lru_inv c" and "0 < capacity c" and "map_of (items c) k = None"
  shows "lru_inv (lru_Set c k v) \<and> recent (lru_Set c k v) = store_recent (capacity c) k v (recent c)"
proof -
  note d = lru_invD [OF assms(1)]
  let ?x = "(fresh c, \<lparr>ekey = k, evalue = v\<rparr>)"
  let ?o = "?x # order c" and ?i = "AList.update k (fresh c) (items c)"
  have k: "k \<notin> fst ` set (recent c)" "k \<notin> fst ` set (items c)"
    using assms(3) items_lookup_None [OF assms(1)] by (simp_all add: map_of_eq_None_iff)
  have dk: "AList.delete k (recent c) = recent c" using k(1) by (rule AList.delete_id)
  have kk: "k \<noteq> ekey e" if "(p, e) \<in> set (order c)" for p e using k(1) that by (force simp: recent_def)
  have u: "?i = items c @ [(k, fresh c)]" using k(2) by (rule update_absent)
  have o: "distinct (map fst ?o)" "distinct (map (\<lambda>x. ekey (snd x)) ?o)" using d(1,2,5) kk by fastforce+
  have i: "distinct (map fst ?i)" "set ?i = (\<lambda>(p, e). (ekey e, p)) ` set ?o" using d(3,4) k(2) by (simp_all add: u)
  let ?c1 = "c\<lparr>order := ?o, items := ?i, fresh := fresh c + 1\<rparr>"
  show ?thesis
  proof (cases "int (length ?o) > capacity c")
    case False
    then have "lru_inv ?c1" using o i d(5) by (auto simp: lru_inv_def less_Suc_eq)
    then show ?thesis using False assms(2,3) dk by (simp add: lru_Set_def recent_def store_recent_def)
  next
    case True
    let ?l = "last ?o" and ?b = "butlast ?o"
    note la = last_element [OF o(1) list.simps(3)]
    have len: "length (order c) = nat (capacity c)" using True d(6) assms(2) by simp
    have bd: "distinct (map fst ?b)" "distinct (map (\<lambda>x. ekey (snd x)) ?b)"
      "{x \<in> (\<lambda>(p, e). (ekey e, p)) ` set ?o. fst x \<noteq> ekey (snd ?l)} = (\<lambda>(p, e). (ekey e, p)) ` set ?b"
      by (rule drop_last [OF o list.simps(3)])+
    have s: "lru_Set c k v = ?c1\<lparr>order := ?b, items := AList.delete (ekey (snd ?l)) ?i, evictions := s64 (evictions c + 1)\<rparr>"
      using True assms(2,3) la by (simp add: lru_Set_def Let_def deref_def Remove_def del: butlast.simps last.simps)
    have "set (AList.delete (ekey (snd ?l)) ?i) = (\<lambda>(p, e). (ekey e, p)) ` set ?b"
      unfolding set_delete_elements i(2) by (rule bd(3))
    moreover have "set ?b \<subseteq> set ?o" by (rule subsetI) (erule in_set_butlastD)
    then have "\<forall>p \<in> fst ` set ?b. p < fresh c + 1" using d(5) by force
    ultimately have "lru_inv (lru_Set c k v)" unfolding s lru_inv_def
      using bd(1,2) i(1) len assms(2) by (simp add: AList.delete_eq distinct_map_filter del: butlast.simps last.simps)
    moreover have "recent (lru_Set c k v) = butlast ((k, v) # recent c)"
      unfolding s by (simp add: recent_def map_butlast del: butlast.simps)
    ultimately show ?thesis using assms(2) len dk
      by (simp add: store_recent_def butlast_conv_take recent_def del: butlast.simps)
  qed
qed

lemma lru_Set_capacity [simp]: "capacity (lru_Set c k v) = capacity c"
  by (simp add: lru_Set_def Let_def split: option.splits)

lemma lru_Set_correct:
  assumes "lru_inv c"
  shows "lru_inv (lru_Set c k v) \<and> recent (lru_Set c k v) = store_recent (capacity c) k v (recent c)"
proof (cases "capacity c \<le> 0")
  case True
  then show ?thesis using assms by (simp add: lru_Set_def store_recent_def)
next
  case False
  then show ?thesis using lru_Set_present [OF assms] lru_Set_absent [OF assms] by (cases "map_of (items c) k") simp_all
qed

lemma lru_inv_New: "lru_inv (NewLRU cap)"
  by (simp add: lru_inv_def NewLRU_def)

section \<open>Refinement\<close>

datatype cache_op = OpGet string | OpSet string bytes | OpDelete string

fun lru_step :: "cache_op \<Rightarrow> LRU \<Rightarrow> bytes option \<times> LRU" where
  "lru_step (OpGet k) c = lru_Get c k"
| "lru_step (OpSet k v) c = (None, lru_Set c k v)"
| "lru_step (OpDelete k) c = (None, lru_Delete c k)"

fun recent_step :: "int \<Rightarrow> cache_op \<Rightarrow> (string \<times> bytes) list \<Rightarrow> bytes option \<times> (string \<times> bytes) list" where
  "recent_step cap (OpGet k) l = (map_of l k, touch k l)"
| "recent_step cap (OpSet k v) l = (None, store_recent cap k v l)"
| "recent_step cap (OpDelete k) l = (None, AList.delete k l)"

primrec run_ops :: "(cache_op \<Rightarrow> 's \<Rightarrow> bytes option \<times> 's) \<Rightarrow> cache_op list \<Rightarrow> 's \<Rightarrow> bytes option list \<times> 's" where
  "run_ops f [] s = ([], s)"
| "run_ops f (op # ops) s = (case f op s of (r, s1) \<Rightarrow> case run_ops f ops s1 of (rs, s2) \<Rightarrow> (r # rs, s2))"

lemma lru_step_correct:
  assumes "lru_inv c"
  shows "lru_inv (snd (lru_step op c)) \<and> capacity (snd (lru_step op c)) = capacity c
    \<and> recent_step (capacity c) op (recent c) = (fst (lru_step op c), recent (snd (lru_step op c)))"
  using lru_Get_correct [OF assms] lru_Set_correct [OF assms] lru_Delete_correct [OF assms]
  by (cases op) (simp_all add: cached_def)

lemma lru_run_correct:
  assumes "lru_inv c"
  shows "lru_inv (snd (run_ops lru_step ops c)) \<and> capacity (snd (run_ops lru_step ops c)) = capacity c
    \<and> run_ops (recent_step (capacity c)) ops (recent c) = (fst (run_ops lru_step ops c), recent (snd (run_ops lru_step ops c)))"
  using assms
proof (induction ops arbitrary: c)
  case (Cons op ops)
  show ?case using lru_step_correct [OF Cons.prems, of op] Cons.IH [of "snd (lru_step op c)"]
    by (simp add: case_prod_beta)
qed simp

text \<open>
  C24: A sequence of \<^verbatim>\<open>Get\<close>, \<^verbatim>\<open>Set\<close> and \<^verbatim>\<open>Delete\<close> calls on a new cache returns what the list of the entries
  by last use returns, of which \<^verbatim>\<open>Set\<close> keeps the \<^verbatim>\<open>capacity\<close> most recent ones; the cache, its map
  and its linked list hold exactly this list, never more entries than the capacity.
\<close>

theorem lru_refines_recency:
  "run_ops (recent_step cap) ops [] = (fst (run_ops lru_step ops (NewLRU cap)), recent (snd (run_ops lru_step ops (NewLRU cap))))
   \<and> int (length (recent (snd (run_ops lru_step ops (NewLRU cap))))) \<le> max 0 cap
   \<and> length (items (snd (run_ops lru_step ops (NewLRU cap)))) = length (recent (snd (run_ops lru_step ops (NewLRU cap))))"
proof -
  let ?c = "snd (run_ops lru_step ops (NewLRU cap))"
  have 0: "capacity (NewLRU cap) = cap" "recent (NewLRU cap) = []" by (simp_all add: NewLRU_def recent_def)
  note r = lru_run_correct [OF lru_inv_New [of cap], of ops, unfolded 0]
  then have i: "lru_inv ?c" by simp
  note d = lru_invD [OF i]
  have "length (items ?c) = card (set (items ?c))" using d(3) by (simp add: distinct_map distinct_card)
  also have "\<dots> = card (set (order ?c))"
    unfolding d(4) using d(1) by (intro card_image inj_onI) (auto simp: eq_key_imp_eq_value)
  also have "\<dots> = length (recent ?c)" using d(1) by (simp add: distinct_map distinct_card recent_def)
  finally show ?thesis using r d(6) by (simp add: recent_def)
qed

section \<open>The contract of a read cache\<close>

text \<open>A cache may forget an entry at any time, but it never invents or resurrects one.\<close>

lemma map_leD: "m \<subseteq>\<^sub>m m' \<Longrightarrow> m j = Some w \<Longrightarrow> m' j = Some w"
  by (metis domI map_le_def)

locale read_cache =
  fixes inv :: "'c \<Rightarrow> bool"
    and view :: "'c \<Rightarrow> string \<rightharpoonup> bytes"
    and get :: "'c \<Rightarrow> string \<Rightarrow> bytes option \<times> 'c"
    and put :: "'c \<Rightarrow> string \<Rightarrow> bytes \<Rightarrow> 'c"
    and del :: "'c \<Rightarrow> string \<Rightarrow> 'c"
  assumes get_view: "inv c \<Longrightarrow> fst (get c k) = view c k \<and> inv (snd (get c k)) \<and> view (snd (get c k)) = view c"
    and put_view: "inv c \<Longrightarrow> inv (put c k v) \<and> view (put c k v) \<subseteq>\<^sub>m (view c)(k \<mapsto> v)"
    and del_view: "inv c \<Longrightarrow> inv (del c k) \<and> view (del c k) \<subseteq>\<^sub>m (view c)(k := None)"
begin

lemma put_SomeD: "inv c \<Longrightarrow> view (put c k v) j = Some w \<Longrightarrow> j = k \<and> w = v \<or> view c j = Some w"
  using put_view [of c k v] map_leD [of "view (put c k v)" "(view c)(k \<mapsto> v)" j w] by (auto split: if_splits)

lemma del_SomeD: "inv c \<Longrightarrow> view (del c k) j = Some w \<Longrightarrow> j \<noteq> k \<and> view c j = Some w"
  using del_view [of c k] map_leD [of "view (del c k)" "(view c)(k := None)" j w] by (auto split: if_splits)

end

lemma map_of_touch: "map_of (touch k l) = map_of l"
  by (auto simp: touch_def AList.delete_conv fun_eq_iff split: option.splits)

lemma map_of_take_le:
  assumes "distinct (map fst l)"
  shows "map_of (take n l) \<subseteq>\<^sub>m map_of l"
proof -
  have "map_of l k = Some v" if "map_of (take n l) k = Some v" for k v
    using map_of_SomeD [OF that] assms by (auto dest: in_set_takeD)
  then show ?thesis by (auto simp: map_le_def dom_def)
qed

lemma store_recent_le:
  assumes "distinct (map fst l)"
  shows "map_of (store_recent cap k v l) \<subseteq>\<^sub>m (map_of l)(k \<mapsto> v) \<or> cap \<le> 0"
proof -
  have "distinct (map fst ((k, v) # AList.delete k l))" using assms by (auto simp: AList.distinct_delete set_delete_elements)
  from map_of_take_le [OF this, of "nat cap"] show ?thesis
    by (simp add: store_recent_def AList.delete_conv map_le_def)
qed

interpretation lru: read_cache lru_inv cached lru_Get lru_Set lru_Delete
proof
  fix c k assume i: "lru_inv c"
  show "fst (lru_Get c k) = cached c k \<and> lru_inv (snd (lru_Get c k)) \<and> cached (snd (lru_Get c k)) = cached c"
    using lru_Get_correct [OF i, of k] by (simp add: cached_def map_of_touch)
  show "lru_inv (lru_Delete c k) \<and> cached (lru_Delete c k) \<subseteq>\<^sub>m (cached c)(k := None)"
    using lru_Delete_correct [OF i, of k] by (simp add: cached_def AList.delete_conv)
  fix v
  have "cached (lru_Set c k v) \<subseteq>\<^sub>m (cached c)(k \<mapsto> v)"
  proof (cases "capacity c \<le> 0")
    case True
    then have "recent c = []" using lru_invD(6) [OF i] by (simp add: recent_def)
    then show ?thesis using True lru_Set_correct [OF i, of k v] by (simp add: cached_def store_recent_def)
  next
    case False
    then show ?thesis using lru_Set_correct [OF i, of k v] store_recent_le [OF distinct_recent [OF i], of "capacity c" k v]
      by (simp add: cached_def)
  qed
  then show "lru_inv (lru_Set c k v) \<and> cached (lru_Set c k v) \<subseteq>\<^sub>m (cached c)(k \<mapsto> v)" using conjunct1 [OF lru_Set_correct [OF i, of k v]] by simp
qed

end
