(* ===== verification/Rate_Limit.thy ===== *)
theory Rate_Limit
  imports Prelude Complex_Main
begin

text \<open>
  The token buckets of the gateway (\<^verbatim>\<open>internal/gateway/ratelimit.go\<close>).  The \<^verbatim>\<open>float64\<close> amounts are
  exact rationals: rounding is not modelled.  Each call takes the two readings of the clock that
  the code makes, when it creates a bucket and when it fills it.
\<close>

section \<open>The limiter\<close>

record RateLimitOptions =
  RequestsPerSecond :: rat
  Burst :: int

definition DefaultRateLimitOptions :: RateLimitOptions where
  "DefaultRateLimitOptions = \<lparr>RequestsPerSecond = 50, Burst = 100\<rparr>"

record bucket =
  tokens :: rat
  lastFill :: time

record RateLimiter =
  rlopts :: RateLimitOptions
  buckets :: "(string \<times> bucket) list"

definition NewRateLimiter :: "RateLimitOptions \<Rightarrow> RateLimiter" where
  "NewRateLimiter o' = \<lparr>rlopts = o', buckets = []\<rparr>"

definition seconds :: "int \<Rightarrow> rat" where
  "seconds d = of_int d / 1000000000"

definition take_token :: "RateLimitOptions \<Rightarrow> time \<Rightarrow> bucket \<Rightarrow> bool \<times> bucket" where
  "take_token o' now b =
     (let filled = tokens b + seconds (now - lastFill b) * RequestsPerSecond o';
          capped = (if filled > of_int (Burst o') then of_int (Burst o') else filled)
      in if capped < 1 then (False, \<lparr>tokens = capped, lastFill = now\<rparr>)
         else (True, \<lparr>tokens = capped - 1, lastFill = now\<rparr>))"

definition Allow :: "time \<Rightarrow> time \<Rightarrow> string \<Rightarrow> RateLimiter \<Rightarrow> bool \<times> RateLimiter" where
  "Allow created now k rl =
     (if RequestsPerSecond (rlopts rl) \<le> 0 then (True, rl)
      else
        let b = (case map_of (buckets rl) k of
                   Some b \<Rightarrow> b
                 | None \<Rightarrow> \<lparr>tokens = of_int (Burst (rlopts rl)), lastFill = created\<rparr>);
            (ok, b1) = take_token (rlopts rl) now b
        in (ok, rl\<lparr>buckets := AList.update k b1 (buckets rl)\<rparr>))"

section \<open>The key of a client\<close>

definition has_char :: "char \<Rightarrow> string \<Rightarrow> bool" where
  "has_char c s \<longleftrightarrow> c \<in> set s"

text \<open>
  \<^verbatim>\<open>net.SplitHostPort\<close> of the standard library, without the texts of its errors: \<open>after\<close> is what
  follows the last colon, \<open>before\<close> what precedes it.
\<close>

definition SplitHostPort :: "string \<Rightarrow> (string \<times> string) option" where
  "SplitHostPort s =
     (if \<not> has_char CHR '':'' s then None
      else
        let after = rev (takeWhile (\<lambda>c. c \<noteq> CHR '':'') (rev s));
            before = take (length s - length after - 1) s
        in if hd s = CHR ''['' then
             (if \<not> has_char CHR '']'' s then None
              else
                let host = takeWhile (\<lambda>c. c \<noteq> CHR '']'') (tl s); end = length host + 1 in
                if end + 1 \<noteq> length before \<or> has_char CHR ''['' (tl s) \<or> has_char CHR '']'' (drop (end + 1) s) then None
                else Some (host, after))
           else if has_char CHR '':'' before \<or> has_char CHR ''['' s \<or> has_char CHR '']'' s then None
           else Some (before, after))"

definition clientKey :: "string \<Rightarrow> string" where
  "clientKey remoteAddr = (case SplitHostPort remoteAddr of None \<Rightarrow> remoteAddr | Some (host, port) \<Rightarrow> host)"

section \<open>How much gets through\<close>

text \<open>A call is the client key with the two readings of the clock.\<close>

primrec run_allow :: "(string \<times> time \<times> time) list \<Rightarrow> RateLimiter \<Rightarrow> bool list \<times> RateLimiter" where
  "run_allow [] rl = ([], rl)"
| "run_allow (call # calls) rl =
     (case call of (k, created, now) \<Rightarrow>
      case Allow created now k rl of (ok, rl1) \<Rightarrow>
      case run_allow calls rl1 of (oks, rl2) \<Rightarrow> (ok # oks, rl2))"

definition allowed_of :: "string \<Rightarrow> (string \<times> time \<times> time) list \<Rightarrow> bool list \<Rightarrow> nat" where
  "allowed_of k calls oks = length (filter (\<lambda>(c, ok). fst c = k \<and> ok) (zip calls oks))"

text \<open>The clock does not go back: the readings of the calls are in order, from \<open>t\<close> to \<open>t'\<close>.\<close>

fun in_order :: "time \<Rightarrow> (string \<times> time \<times> time) list \<Rightarrow> time \<Rightarrow> bool" where
  "in_order t [] t' \<longleftrightarrow> t \<le> t'"
| "in_order t ((k, created, now) # calls) t' \<longleftrightarrow> t \<le> created \<and> created \<le> now \<and> in_order now calls t'"

text \<open>What a client may still use at time \<open>t\<close>: the tokens of its bucket, filled up to \<open>t\<close>.\<close>

definition credit :: "string \<Rightarrow> time \<Rightarrow> RateLimiter \<Rightarrow> rat" where
  "credit k t rl =
     (case map_of (buckets rl) k of
        None \<Rightarrow> of_int (Burst (rlopts rl))
      | Some b \<Rightarrow> min (of_int (Burst (rlopts rl))) (tokens b + seconds (t - lastFill b) * RequestsPerSecond (rlopts rl)))"

definition rl_inv :: "time \<Rightarrow> RateLimiter \<Rightarrow> bool" where
  "rl_inv t rl \<longleftrightarrow> 0 < RequestsPerSecond (rlopts rl) \<and> 0 \<le> Burst (rlopts rl)
     \<and> (\<forall>k b. map_of (buckets rl) k = Some b \<longrightarrow> lastFill b \<le> t \<and> 0 \<le> tokens b)"

lemma seconds_add: "seconds (a + b) = seconds a + seconds b"
  by (simp add: seconds_def add_divide_distrib)

lemma seconds_nonneg: "0 \<le> d \<Longrightarrow> 0 \<le> seconds d"
  by (simp add: seconds_def)

lemma seconds_split: "seconds (t' - a) = seconds (t - a) + seconds (t' - t)"
  using seconds_add [of "t - a" "t' - t"] by simp

lemma credit_bounds: "rl_inv t rl \<Longrightarrow> 0 \<le> credit k t rl \<and> credit k t rl \<le> of_int (Burst (rlopts rl))"
  by (auto simp: rl_inv_def credit_def seconds_nonneg split: option.splits)

lemma credit_later:
  assumes "rl_inv t rl" and "t \<le> t'"
  shows "credit k t' rl \<le> credit k t rl + seconds (t' - t) * RequestsPerSecond (rlopts rl)"
proof -
  have "0 \<le> seconds (t' - t) * RequestsPerSecond (rlopts rl)" using assms by (simp add: rl_inv_def seconds_nonneg)
  moreover have "seconds (t' - lastFill b) * r = seconds (t - lastFill b) * r + seconds (t' - t) * r" for b :: bucket and r
    using seconds_split [of t' "lastFill b" t] by (simp add: distrib_right)
  ultimately show ?thesis by (simp add: credit_def min_def split: option.splits)
qed

lemma Allow_opts: "rlopts (snd (Allow created now k rl)) = rlopts rl"
  by (simp add: Allow_def Let_def case_prod_beta)

text \<open>One call: it is allowed exactly if the client has a whole token, and then it uses it.\<close>

lemma Allow_credit:
  assumes "rl_inv t rl" and "t \<le> created" and "created \<le> now"
  shows "fst (Allow created now k rl) \<longleftrightarrow> 1 \<le> credit k now rl"
    and "credit k now (snd (Allow created now k rl)) = (if 1 \<le> credit k now rl then credit k now rl - 1 else credit k now rl)"
    and "j \<noteq> k \<Longrightarrow> credit j now (snd (Allow created now k rl)) = credit j now rl"
    and "rl_inv now (snd (Allow created now k rl))"
proof -
  define b where "b = (case map_of (buckets rl) k of Some b \<Rightarrow> b | None \<Rightarrow> \<lparr>tokens = of_int (Burst (rlopts rl)), lastFill = created\<rparr>)"
  define f where "f = tokens b + seconds (now - lastFill b) * RequestsPerSecond (rlopts rl)"
  define g where "g = (if f > of_int (Burst (rlopts rl)) then of_int (Burst (rlopts rl)) else f)"
  have pos: "0 < RequestsPerSecond (rlopts rl)" "0 \<le> Burst (rlopts rl)" using assms(1) by (simp_all add: rl_inv_def)
  have c: "credit k now rl = g"
  proof (cases "map_of (buckets rl) k")
    case None
    have "0 \<le> seconds (now - created) * RequestsPerSecond (rlopts rl)" using pos assms(3) by (simp add: seconds_nonneg)
    then show ?thesis using None by (simp add: credit_def g_def f_def b_def)
  qed (simp add: credit_def g_def f_def b_def min_def)
  have "0 \<le> tokens b \<and> lastFill b \<le> now"
  proof (cases "map_of (buckets rl) k")
    case (Some b')
    then have "0 \<le> tokens b'" "lastFill b' \<le> t" using assms(1) by (simp_all add: rl_inv_def)
    then show ?thesis using Some assms(2,3) by (simp add: b_def)
  qed (use pos assms(3) in \<open>simp add: b_def\<close>)
  then have g0: "0 \<le> g" using pos by (simp add: g_def f_def seconds_nonneg)
  have tt: "take_token (rlopts rl) now b = (1 \<le> g, \<lparr>tokens = (if 1 \<le> g then g - 1 else g), lastFill = now\<rparr>)"
    unfolding take_token_def Let_def f_def [symmetric] g_def [symmetric] by (cases "g < 1") auto
  have a: "Allow created now k rl = (1 \<le> g, rl\<lparr>buckets := AList.update k \<lparr>tokens = (if 1 \<le> g then g - 1 else g), lastFill = now\<rparr> (buckets rl)\<rparr>)"
    using pos by (simp add: Allow_def b_def [symmetric] tt)
  show "fst (Allow created now k rl) \<longleftrightarrow> 1 \<le> credit k now rl" by (simp add: a c)
  have "g \<le> of_int (Burst (rlopts rl))" by (simp add: g_def)
  then show "credit k now (snd (Allow created now k rl)) = (if 1 \<le> credit k now rl then credit k now rl - 1 else credit k now rl)"
    unfolding c by (auto simp: a credit_def AList.update_conv seconds_def)
  show "j \<noteq> k \<Longrightarrow> credit j now (snd (Allow created now k rl)) = credit j now rl"
    by (simp add: a credit_def AList.update_conv split: option.splits)
  show "rl_inv now (snd (Allow created now k rl))"
  proof -
    have "lastFill b' \<le> now \<and> 0 \<le> tokens b'" if "map_of (buckets rl) j = Some b'" for j b'
      using assms that by (fastforce simp: rl_inv_def)
    then show ?thesis using pos g0 by (simp add: a rl_inv_def AList.update_conv)
  qed
qed

lemma run_credit:
  assumes "rl_inv t rl" and "in_order t calls t'"
  shows "of_nat (allowed_of k calls (fst (run_allow calls rl))) \<le> credit k t rl + seconds (t' - t) * RequestsPerSecond (rlopts rl)"
  using assms
proof (induction calls arbitrary: t rl)
  case Nil
  then show ?case using credit_bounds [of t rl k] seconds_nonneg [of "t' - t"] by (simp add: allowed_of_def rl_inv_def)
next
  case (Cons call calls)
  obtain j created now where call: "call = (j, created, now)" by (cases call) blast
  have o: "t \<le> created" "created \<le> now" "in_order now calls t'" using Cons.prems(2) by (simp_all add: call)
  define rl1 where "rl1 = snd (Allow created now j rl)"
  note A = Allow_credit [OF Cons.prems(1) o(1,2), of j]
  have r: "rlopts rl1 = rlopts rl" by (simp add: rl1_def Allow_opts)
  let ?r = "RequestsPerSecond (rlopts rl)"
  have IH: "of_nat (allowed_of k calls (fst (run_allow calls rl1))) \<le> credit k now rl1 + seconds (t' - now) * ?r"
    using Cons.IH [of now rl1] A(4) o(3) r by (simp add: rl1_def)
  have split: "allowed_of k (call # calls) (fst (run_allow (call # calls) rl))
    = (if j = k \<and> fst (Allow created now j rl) then 1 else 0) + allowed_of k calls (fst (run_allow calls rl1))"
    by (auto simp: allowed_of_def call rl1_def case_prod_beta)
  have "(if j = k \<and> fst (Allow created now j rl) then 1 else 0) + credit k now rl1 \<le> credit k now rl"
    using A(1,2) Allow_credit(3) [OF Cons.prems(1) o(1,2), of k j] by (cases "j = k") (auto simp: rl1_def)
  moreover have "credit k now rl \<le> credit k t rl + seconds (now - t) * ?r"
    using o by (intro credit_later [OF Cons.prems(1)]) simp
  moreover have "seconds (t' - t) * ?r = seconds (now - t) * ?r + seconds (t' - now) * ?r"
    using seconds_split [of t' t now] by (simp add: distrib_right)
  ultimately show ?case using IH unfolding split by (auto split: if_splits)
qed

lemma rl_inv_New: "0 < RequestsPerSecond o' \<Longrightarrow> 0 \<le> Burst o' \<Longrightarrow> rl_inv t (NewRateLimiter o')"
  by (simp add: rl_inv_def NewRateLimiter_def)

text \<open>
  C25: However the requests of all clients interleave, one client gets at most \<^verbatim>\<open>Burst\<close> requests plus
  \<^verbatim>\<open>RequestsPerSecond\<close> for every second that passes through the limiter: over every stretch of a run,
  the number of its requests that are allowed is bounded by the tokens it has at the start, never
  more than the burst, plus the rate times the length of the stretch.
\<close>

theorem rate_limit_bound:
  assumes "0 < RequestsPerSecond o'" and "0 \<le> Burst o'" and "in_order t0 earlier t" and "in_order t calls t'"
  shows "of_nat (allowed_of k calls (fst (run_allow calls (snd (run_allow earlier (NewRateLimiter o'))))))
    \<le> of_int (Burst o') + seconds (t' - t) * RequestsPerSecond o'"
proof -
  have inv: "rl_inv t (snd (run_allow earlier rl)) \<and> rlopts (snd (run_allow earlier rl)) = rlopts rl"
    if "rl_inv t0 rl" "in_order t0 earlier t" for rl t0 using that
  proof (induction earlier arbitrary: rl t0)
    case Nil
    then show ?case by (fastforce simp: rl_inv_def)
  next
    case (Cons call calls)
    then show ?case using Allow_credit(4) [of t0 rl] Allow_opts
      by (cases call) (fastforce simp: case_prod_beta)
  qed
  let ?rl = "snd (run_allow earlier (NewRateLimiter o'))"
  have i: "rl_inv t ?rl" "rlopts ?rl = o'" using inv [OF rl_inv_New [OF assms(1,2)] assms(3)] by (simp_all add: NewRateLimiter_def)
  show ?thesis using run_credit [OF i(1) assms(4), of k] credit_bounds [OF i(1), of k] unfolding i(2) by simp
qed

theorem rate_limit_bound_witness:
  "fst (run_allow [(''a'', 0, 0), (''b'', 0, 0), (''a'', 0, 0), (''a'', 0, 0), (''a'', 500000000, 500000000)]
     (NewRateLimiter \<lparr>RequestsPerSecond = 2, Burst = 2\<rparr>)) = [True, True, True, False, True]
   \<and> allowed_of ''a'' [(''a'', 0, 0), (''b'', 0, 0), (''a'', 0, 0), (''a'', 0, 0), (''a'', 500000000, 500000000)]
       [True, True, True, False, True] \<le> 3"
proof -
  let ?o = "\<lparr>RequestsPerSecond = 2, Burst = 2\<rparr>"
  let ?c = "[(''a'', 0::int, 0::int), (''b'', 0, 0), (''a'', 0, 0), (''a'', 0, 0), (''a'', 500000000, 500000000)]"
  have r: "fst (run_allow ?c (NewRateLimiter ?o)) = [True, True, True, False, True]"
    by (simp add: NewRateLimiter_def Allow_def take_token_def Let_def seconds_def)
  have "of_nat (allowed_of ''a'' ?c (fst (run_allow ?c (NewRateLimiter ?o)))) \<le> (3 :: rat)"
    using rate_limit_bound [of ?o 0 "[]" 0 ?c 500000000 "''a''"] by (simp add: seconds_def)
  then show ?thesis unfolding r by simp
qed

end
