(* ===== verification/Workload.thy ===== *)
theory Workload
  imports Prelude Complex_Main "HOL-Library.Product_Lexorder"
begin

text \<open>
  Package \<^verbatim>\<open>internal/workload\<close>: the request rate over a sliding window (\<^verbatim>\<open>monitor.go\<close>), the keys
  that are requested most (\<^verbatim>\<open>hotkeys.go\<close>) and the workload mode (\<^verbatim>\<open>mode.go\<close>, \<^verbatim>\<open>engine.go\<close>).
  Every operation takes the readings of the clock that the code makes, in nanoseconds.
  Counters are mathematical integers (a window would need \<open>2 ^ 63\<close> requests to wrap one), rates
  are exact rationals.
\<close>

section \<open>Modes\<close>

type_synonym Mode = string

definition ModeNormal :: Mode where "ModeNormal = ''NORMAL''"
definition ModeElevated :: Mode where "ModeElevated = ''ELEVATED''"
definition ModeHighTraffic :: Mode where "ModeHighTraffic = ''HIGH_TRAFFIC''"
definition ModeCritical :: Mode where "ModeCritical = ''CRITICAL''"

record Thresholds =
  ElevatedRPS :: rat
  HighTrafficRPS :: rat
  CriticalRPS :: rat

definition DefaultThresholds :: Thresholds where
  "DefaultThresholds = \<lparr>ElevatedRPS = 20, HighTrafficRPS = 100, CriticalRPS = 500\<rparr>"

section \<open>Clock readings\<close>

text \<open>\<^verbatim>\<open>t.UnixMilli()\<close> rounds down, \<^verbatim>\<open>d.Milliseconds()\<close> towards zero.\<close>

definition UnixMilli :: "time \<Rightarrow> int" where
  "UnixMilli t = t div 1000000"

definition Milliseconds :: "int \<Rightarrow> int" where
  "Milliseconds d = sgn d * (\<bar>d\<bar> div 1000000)"

definition Seconds :: "int \<Rightarrow> rat" where
  "Seconds d = of_int d / 1000000000"

section \<open>RequestMonitor\<close>

type_synonym buckets = "(int \<times> int) list"  \<comment> \<open>unix milliseconds to count\<close>

definition bump :: "int \<Rightarrow> buckets \<Rightarrow> buckets" where
  "bump t b = AList.update t ((case map_of b t of None \<Rightarrow> 0 | Some c \<Rightarrow> c) + 1) b"

record RequestMonitor =
  rmwindow :: int
  rmbuckets :: buckets

definition NewRequestMonitor :: "int \<Rightarrow> RequestMonitor" where
  "NewRequestMonitor w = \<lparr>rmwindow = w, rmbuckets = []\<rparr>"

definition pruneLocked :: "int \<Rightarrow> RequestMonitor \<Rightarrow> RequestMonitor" where
  "pruneLocked nowMilli m =
     (let cutoff = nowMilli - Milliseconds (rmwindow m)
      in m\<lparr>rmbuckets := filter (\<lambda>(t, c). \<not> t < cutoff) (rmbuckets m)\<rparr>)"

definition monitor_Record :: "time \<Rightarrow> RequestMonitor \<Rightarrow> RequestMonitor" where
  "monitor_Record t m = (let now = UnixMilli t in pruneLocked now (m\<lparr>rmbuckets := bump now (rmbuckets m)\<rparr>))"

definition monitor_RPS :: "time \<Rightarrow> RequestMonitor \<Rightarrow> rat \<times> RequestMonitor" where
  "monitor_RPS t m =
     (let m1 = pruneLocked (UnixMilli t) m;
          total = sum_list (map snd (rmbuckets m1));
          windowSecs = Seconds (rmwindow m1)
      in (if windowSecs \<le> 0 then 0 else of_int total / windowSecs, m1))"

section \<open>HotKeyTracker\<close>

record KeyStat =
  Key :: string
  Count :: int

record HotKeyTracker =
  hkwindow :: int
  threshold :: int
  keyHits :: "(string \<times> buckets) list"

definition NewHotKeyTracker :: "int \<Rightarrow> int \<Rightarrow> HotKeyTracker" where
  "NewHotKeyTracker w th = \<lparr>hkwindow = w, threshold = th, keyHits = []\<rparr>"

definition pruneKeyLocked :: "string \<Rightarrow> int \<Rightarrow> HotKeyTracker \<Rightarrow> HotKeyTracker" where
  "pruneKeyLocked k nowMilli h =
     (let cutoff = nowMilli - Milliseconds (hkwindow h);
          b = (case map_of (keyHits h) k of None \<Rightarrow> [] | Some b \<Rightarrow> b);
          b1 = filter (\<lambda>(t, c). \<not> t < cutoff) b
      in if \<not> (\<exists>(t, c) \<in> set b1. 0 < c) then h\<lparr>keyHits := AList.delete k (keyHits h)\<rparr>
         else h\<lparr>keyHits := AList.update k b1 (keyHits h)\<rparr>)"

definition hotkey_Record :: "time \<Rightarrow> string \<Rightarrow> HotKeyTracker \<Rightarrow> HotKeyTracker" where
  "hotkey_Record t k h =
     (if k = '''' then h
      else
        let now = UnixMilli t;
            b = (case map_of (keyHits h) k of None \<Rightarrow> [] | Some b \<Rightarrow> b)
        in pruneKeyLocked k now (h\<lparr>keyHits := AList.update k (bump now b) (keyHits h)\<rparr>))"

text \<open>The order given to \<^verbatim>\<open>sort.Slice\<close> is total on the keys, so that the sorted slice is unique.\<close>

definition HotKeys :: "time \<Rightarrow> HotKeyTracker \<Rightarrow> KeyStat list" where
  "HotKeys t h =
     (let cutoff = UnixMilli t - Milliseconds (hkwindow h);
          total = (\<lambda>b. sum_list (map snd (filter (\<lambda>(t, c). cutoff \<le> t) b)))
      in sort_key (\<lambda>s. (- Count s, Key s))
           (map (\<lambda>(k, b). \<lparr>Key = k, Count = total b\<rparr>) (filter (\<lambda>(k, b). threshold h \<le> total b) (keyHits h))))"

section \<open>Engine\<close>

text \<open>\<open>criticalUntil = None\<close> is Go's zero time.\<close>

record WorkloadEngine =
  requests :: RequestMonitor
  hotKeys :: HotKeyTracker
  thresholds :: Thresholds
  mode :: Mode
  criticalUntil :: "time option"

definition NewEngine :: "Thresholds \<Rightarrow> WorkloadEngine" where
  "NewEngine th = \<lparr>requests = NewRequestMonitor 10000000000, hotKeys = NewHotKeyTracker 10000000000 20,
     thresholds = th, mode = ModeNormal, criticalUntil = None\<rparr>"

definition mode_for :: "Thresholds \<Rightarrow> rat \<Rightarrow> Mode" where
  "mode_for th rps =
     (if rps \<ge> CriticalRPS th then ModeCritical
      else if rps \<ge> HighTrafficRPS th then ModeHighTraffic
      else if rps \<ge> ElevatedRPS th then ModeElevated
      else ModeNormal)"

definition recomputeMode :: "time \<Rightarrow> time \<Rightarrow> WorkloadEngine \<Rightarrow> WorkloadEngine" where
  "recomputeMode t now e =
     (case monitor_RPS t (requests e) of (rps, m) \<Rightarrow>
        let e1 = e\<lparr>requests := m\<rparr>
        in if (case criticalUntil e of None \<Rightarrow> False | Some u \<Rightarrow> now < u) then e1\<lparr>mode := ModeCritical\<rparr>
           else e1\<lparr>mode := mode_for (thresholds e) rps\<rparr>)"

text \<open>The four readings of the clock of one call.\<close>

record readings =
  at_monitor :: time
  at_hotkeys :: time
  at_rps :: time
  at_mode :: time

definition RecordRequest :: "readings \<Rightarrow> string \<Rightarrow> WorkloadEngine \<Rightarrow> WorkloadEngine" where
  "RecordRequest r k e =
     (let e1 = e\<lparr>requests := monitor_Record (at_monitor r) (requests e)\<rparr>;
          e2 = (if k \<noteq> '''' then e1\<lparr>hotKeys := hotkey_Record (at_hotkeys r) k (hotKeys e1)\<rparr> else e1)
      in recomputeMode (at_rps r) (at_mode r) e2)"

definition SignalCritical :: "time \<Rightarrow> int \<Rightarrow> WorkloadEngine \<Rightarrow> WorkloadEngine" where
  "SignalCritical now hold e =
     (let until = now + hold;
          e1 = (if (case criticalUntil e of None \<Rightarrow> True | Some u \<Rightarrow> until > u) then e\<lparr>criticalUntil := Some until\<rparr> else e)
      in e1\<lparr>mode := ModeCritical\<rparr>)"

record WorkloadStatus =
  wsMode :: Mode
  wsRPS :: rat
  wsHotKeys :: "KeyStat list"

definition workload_Status :: "time \<Rightarrow> time \<Rightarrow> WorkloadEngine \<Rightarrow> WorkloadStatus \<times> WorkloadEngine" where
  "workload_Status t t' e =
     (case monitor_RPS t (requests e) of (rps, m) \<Rightarrow>
        (\<lparr>wsMode = mode e, wsRPS = rps, wsHotKeys = HotKeys t' (hotKeys e)\<rparr>, e\<lparr>requests := m\<rparr>))"

section \<open>Buckets and the history of requests\<close>

text \<open>
  \<open>b\<close> holds the requests at the times \<open>H\<close> (in milliseconds), down to the cutoff \<open>c\<close> of the last pruning.
\<close>

definition holds_history :: "int \<Rightarrow> int list \<Rightarrow> buckets \<Rightarrow> bool" where
  "holds_history c H b \<longleftrightarrow> distinct (map fst b)
     \<and> (\<forall>t. map_of b t = (if c \<le> t \<and> t \<in> set H then Some (int (count_list H t)) else None))"

lemma holds_history_Nil: "holds_history c [] []"
  by (simp add: holds_history_def)

lemma holds_history_bump:
  assumes "holds_history c H b" and "c \<le> t"
  shows "holds_history c (H @ [t]) (bump t b)"
  using assms by (auto simp: holds_history_def bump_def AList.update_conv AList.distinct_update count_list_0_iff)

lemma map_of_filter_key: "map_of (filter (\<lambda>(t, c). P t) b) t = (if P t then map_of b t else None)"
  by (induction b) auto

lemma holds_history_prune:
  assumes "holds_history c H b" and "c \<le> c'"
  shows "holds_history c' H (filter (\<lambda>(t, n). \<not> t < c') b)"
  using assms by (auto simp: holds_history_def map_of_filter_key [of "\<lambda>t. \<not> t < c'"] distinct_map_filter)

lemma count_list_filter: "P t \<Longrightarrow> count_list (filter P H) t = count_list H t"
  by (induction H) auto

lemma holds_history_total:
  assumes "holds_history c H b"
  shows "sum_list (map snd b) = int (length (filter (\<lambda>t. c \<le> t) H))"
proof -
  have d: "distinct (map fst b)" and m: "map_of b t = (if c \<le> t \<and> t \<in> set H then Some (int (count_list H t)) else None)" for t
    using assms by (auto simp: holds_history_def)
  let ?F = "filter (\<lambda>t. c \<le> t) H"
  have "snd x = int (count_list ?F (fst x))" if "x \<in> set b" for x
  proof -
    have "map_of b (fst x) = Some (snd x)" using d that by simp
    then show ?thesis using m [of "fst x"] by (simp add: count_list_filter split: if_splits)
  qed
  then have "sum_list (map snd b) = sum_list (map (\<lambda>t. int (count_list ?F t)) (map fst b))"
    by (simp add: comp_def cong: map_cong)
  also have "\<dots> = (\<Sum>t \<in> set (map fst b). int (count_list ?F t))" using d by (rule sum_list_distinct_conv_sum_set)
  also have "set (map fst b) = set ?F"
    using m by (auto simp: domIff dom_map_of_conv_image_fst [symmetric] split: if_splits)
  also have "(\<Sum>t \<in> set ?F. int (count_list ?F t)) = int (length ?F)"
    by (simp only: of_nat_sum [symmetric] sum_count_set [OF subset_refl finite_set])
  finally show ?thesis .
qed

section \<open>Runs of the engine\<close>

datatype wcall = Request readings string | Signal time int

fun wstep :: "wcall \<Rightarrow> WorkloadEngine \<Rightarrow> WorkloadEngine" where
  "wstep (Request r k) e = RecordRequest r k e"
| "wstep (Signal now hold) e = SignalCritical now hold e"

definition wrun :: "wcall list \<Rightarrow> WorkloadEngine \<Rightarrow> WorkloadEngine" where
  "wrun calls e = fold wstep calls e"

text \<open>The clock does not go back: the readings from \<open>t\<close> on are in order, the last one is \<open>t'\<close>.\<close>

fun clocked :: "time \<Rightarrow> wcall list \<Rightarrow> time \<Rightarrow> bool" where
  "clocked t [] t' \<longleftrightarrow> t \<le> t'"
| "clocked t (Request r k # calls) t' \<longleftrightarrow> t \<le> at_monitor r \<and> at_monitor r \<le> at_hotkeys r \<and> at_hotkeys r \<le> at_rps r
     \<and> at_rps r \<le> at_mode r \<and> clocked (at_mode r) calls t'"
| "clocked t (Signal now hold # calls) t' \<longleftrightarrow> t \<le> now \<and> clocked now calls t'"

text \<open>The times of all requests and of the requests for one key, in milliseconds.\<close>

fun request_times :: "wcall list \<Rightarrow> int list" where
  "request_times [] = []"
| "request_times (Request r k # calls) = UnixMilli (at_monitor r) # request_times calls"
| "request_times (Signal now hold # calls) = request_times calls"

fun key_times :: "string \<Rightarrow> wcall list \<Rightarrow> int list" where
  "key_times k [] = []"
| "key_times k (Request r j # calls) = (if j = k then [UnixMilli (at_hotkeys r)] else []) @ key_times k calls"
| "key_times k (Signal now hold # calls) = key_times k calls"

definition held :: "time \<Rightarrow> wcall list \<Rightarrow> bool" where
  "held now calls \<longleftrightarrow> (\<exists>s hold. Signal s hold \<in> set calls \<and> now < s + hold)"

lemma request_times_append: "request_times (xs @ ys) = request_times xs @ request_times ys"
  by (induction xs rule: request_times.induct) simp_all

lemma key_times_append: "key_times k (xs @ ys) = key_times k xs @ key_times k ys"
  by (induction k xs rule: key_times.induct) simp_all

lemma UnixMilli_mono: "t \<le> t' \<Longrightarrow> UnixMilli t \<le> UnixMilli t'"
  by (simp add: UnixMilli_def zdiv_mono1)

text \<open>What the engine knows at time \<open>t\<close>, the last reading of its clock.\<close>

definition monitor_inv :: "time \<Rightarrow> int list \<Rightarrow> RequestMonitor \<Rightarrow> bool" where
  "monitor_inv t H m \<longleftrightarrow> 0 \<le> rmwindow m \<and>
     (\<exists>c. c \<le> UnixMilli t - Milliseconds (rmwindow m) \<and> holds_history c H (rmbuckets m))"

definition key_inv :: "time \<Rightarrow> int \<Rightarrow> int list \<Rightarrow> string \<Rightarrow> buckets option \<Rightarrow> bool" where
  "key_inv t w H k ob \<longleftrightarrow>
     (case ob of
        None \<Rightarrow> k = '''' \<or> H = []
      | Some b \<Rightarrow> k \<noteq> '''' \<and> (\<exists>c. c \<le> UnixMilli t - Milliseconds w \<and> holds_history c H b))"

definition hotkey_inv :: "time \<Rightarrow> (string \<Rightarrow> int list) \<Rightarrow> HotKeyTracker \<Rightarrow> bool" where
  "hotkey_inv t H h \<longleftrightarrow> 0 \<le> hkwindow h \<and> distinct (map fst (keyHits h)) \<and>
     (\<forall>k. key_inv t (hkwindow h) (H k) k (map_of (keyHits h) k))"

lemma Milliseconds_nonneg: "0 \<le> d \<Longrightarrow> 0 \<le> Milliseconds d"
  by (simp add: Milliseconds_def sgn_if pos_imp_zdiv_nonneg_iff)

lemma monitor_inv_prune:
  assumes "monitor_inv t H m" and "t \<le> t'"
  shows "monitor_inv t' H (pruneLocked (UnixMilli t') m)"
    and "holds_history (UnixMilli t' - Milliseconds (rmwindow m)) H (rmbuckets (pruneLocked (UnixMilli t') m))"
proof -
  obtain c where c: "c \<le> UnixMilli t - Milliseconds (rmwindow m)" "holds_history c H (rmbuckets m)" "0 \<le> rmwindow m"
    using assms(1) by (auto simp: monitor_inv_def)
  have "c \<le> UnixMilli t' - Milliseconds (rmwindow m)" using c(1) UnixMilli_mono [OF assms(2)] by simp
  then show h: "holds_history (UnixMilli t' - Milliseconds (rmwindow m)) H (rmbuckets (pruneLocked (UnixMilli t') m))"
    using holds_history_prune [OF c(2)] by (simp add: pruneLocked_def Let_def)
  show "monitor_inv t' H (pruneLocked (UnixMilli t') m)" unfolding monitor_inv_def
    by (intro conjI exI [of _ "UnixMilli t' - Milliseconds (rmwindow m)"]) (use c(3) h in \<open>simp_all add: pruneLocked_def\<close>)
qed

lemma monitor_Record_inv:
  assumes "monitor_inv t H m" and "t \<le> t'"
  shows "monitor_inv t' (H @ [UnixMilli t']) (monitor_Record t' m)"
proof -
  obtain c where c: "c \<le> UnixMilli t - Milliseconds (rmwindow m)" "holds_history c H (rmbuckets m)" "0 \<le> rmwindow m"
    using assms(1) by (auto simp: monitor_inv_def)
  have u: "UnixMilli t \<le> UnixMilli t'" "0 \<le> Milliseconds (rmwindow m)"
    using UnixMilli_mono [OF assms(2)] Milliseconds_nonneg [OF c(3)] by simp_all
  then have "holds_history c (H @ [UnixMilli t']) (bump (UnixMilli t') (rmbuckets m))"
    using c by (intro holds_history_bump) simp_all
  then have "monitor_inv t' (H @ [UnixMilli t']) (m\<lparr>rmbuckets := bump (UnixMilli t') (rmbuckets m)\<rparr>)"
    using c(1,3) u(1) by (auto simp: monitor_inv_def intro!: exI [of _ c])
  from monitor_inv_prune(1) [OF this] show ?thesis by (simp add: monitor_Record_def Let_def)
qed

text \<open>\<^verbatim>\<open>RPS\<close> is the exact number of requests in the window, per second.\<close>

lemma monitor_RPS_exact:
  assumes "monitor_inv t H m" and "t \<le> t'" and "0 < rmwindow m"
  shows "fst (monitor_RPS t' m) =
    of_nat (length (filter (\<lambda>x. UnixMilli t' - Milliseconds (rmwindow m) \<le> x) H)) / Seconds (rmwindow m)"
    and "monitor_inv t' H (snd (monitor_RPS t' m))"
proof -
  have w: "rmwindow (pruneLocked x m) = rmwindow m" for x by (simp add: pruneLocked_def)
  show "monitor_inv t' H (snd (monitor_RPS t' m))" using monitor_inv_prune(1) [OF assms(1,2)] by (simp add: monitor_RPS_def Let_def)
  show "fst (monitor_RPS t' m) =
    of_nat (length (filter (\<lambda>x. UnixMilli t' - Milliseconds (rmwindow m) \<le> x) H)) / Seconds (rmwindow m)"
    using holds_history_total [OF monitor_inv_prune(2) [OF assms(1,2)]] assms(3)
    by (simp add: monitor_RPS_def Let_def w Seconds_def)
qed

lemma hotkey_invD:
  assumes "hotkey_inv t H h" and "k \<noteq> ''''"
  obtains c where "c \<le> UnixMilli t - Milliseconds (hkwindow h)"
    "holds_history c (H k) (case map_of (keyHits h) k of None \<Rightarrow> [] | Some b \<Rightarrow> b)"
proof -
  have "key_inv t (hkwindow h) (H k) k (map_of (keyHits h) k)" using assms(1) by (simp add: hotkey_inv_def)
  then show ?thesis
    using assms(2) that [OF order_refl] that holds_history_Nil by (cases "map_of (keyHits h) k") (auto simp: key_inv_def)
qed

lemma key_inv_later: "key_inv t w H k ob \<Longrightarrow> t \<le> t' \<Longrightarrow> key_inv t' w H k ob"
proof (cases ob)
  case (Some b)
  assume "key_inv t w H k ob" and "t \<le> t'"
  then obtain c where "k \<noteq> ''''" "c \<le> UnixMilli t - Milliseconds w" "holds_history c H b" by (auto simp: key_inv_def Some)
  then show ?thesis using UnixMilli_mono [OF \<open>t \<le> t'\<close>] unfolding key_inv_def Some option.simps by (intro conjI exI [of _ c]) simp_all
qed (simp add: key_inv_def)

lemma hotkey_Record_inv:
  assumes "hotkey_inv t H h" and "t \<le> t'" and "k \<noteq> ''''"
  shows "hotkey_inv t' (H(k := H k @ [UnixMilli t'])) (hotkey_Record t' k h)"
    and "hkwindow (hotkey_Record t' k h) = hkwindow h" and "threshold (hotkey_Record t' k h) = threshold h"
proof -
  define now where "now = UnixMilli t'"
  define cutoff where "cutoff = now - Milliseconds (hkwindow h)"
  define b where "b = (case map_of (keyHits h) k of None \<Rightarrow> [] | Some b \<Rightarrow> b)"
  define b1 where "b1 = filter (\<lambda>(t, c). \<not> t < cutoff) (bump now b)"
  have w: "0 \<le> hkwindow h" "distinct (map fst (keyHits h))" using assms(1) by (simp_all add: hotkey_inv_def)
  obtain c where c: "c \<le> UnixMilli t - Milliseconds (hkwindow h)" "holds_history c (H k) b"
    using hotkey_invD [OF assms(1,3)] b_def by blast
  have le: "UnixMilli t \<le> now" "c \<le> cutoff" "c \<le> now" "cutoff \<le> now"
    using UnixMilli_mono [OF assms(2)] Milliseconds_nonneg [OF w(1)] c(1) by (simp_all add: cutoff_def now_def)
  have h1: "holds_history cutoff (H k @ [now]) b1"
    unfolding b1_def by (rule holds_history_prune [OF holds_history_bump [OF c(2) le(3)] le(2)])
  then have "map_of b1 now = Some (int (count_list (H k @ [now]) now))" using le(4) by (simp add: holds_history_def)
  then have "(now, int (count_list (H k @ [now]) now)) \<in> set b1" by (rule map_of_SomeD)
  then have ne: "\<exists>(t, c) \<in> set b1. 0 < c" by force
  have r: "hotkey_Record t' k h = h\<lparr>keyHits := AList.update k b1 (AList.update k (bump now b) (keyHits h))\<rparr>"
  proof -
    let ?h = "h\<lparr>keyHits := AList.update k (bump now b) (keyHits h)\<rparr>"
    have e: "hkwindow ?h = hkwindow h" "map_of (keyHits ?h) k = Some (bump now b)" by (simp_all add: AList.update_conv)
    have "pruneKeyLocked k now ?h = (if \<not> (\<exists>(t, c) \<in> set b1. 0 < c) then ?h\<lparr>keyHits := AList.delete k (keyHits ?h)\<rparr>
       else ?h\<lparr>keyHits := AList.update k b1 (keyHits ?h)\<rparr>)"
      unfolding pruneKeyLocked_def Let_def b1_def cutoff_def e option.simps ..
    also have "\<dots> = ?h\<lparr>keyHits := AList.update k b1 (keyHits ?h)\<rparr>" by (simp only: ne not_True_eq_False if_False)
    finally show ?thesis using assms(3) by (simp add: hotkey_Record_def Let_def now_def b_def)
  qed
  then show "hkwindow (hotkey_Record t' k h) = hkwindow h" "threshold (hotkey_Record t' k h) = threshold h" by simp_all
  have "key_inv t' (hkwindow h) ((H(k := H k @ [now])) j) j (map_of (keyHits (hotkey_Record t' k h)) j)" for j
  proof (cases "j = k")
    case True
    then show ?thesis using h1 assms(3) by (auto simp: r AList.update_conv cutoff_def key_inv_def now_def)
  next
    case False
    have "key_inv t (hkwindow h) (H j) j (map_of (keyHits h) j)" using assms(1) by (simp add: hotkey_inv_def)
    then show ?thesis using False key_inv_later [OF _ assms(2)] by (simp add: r AList.update_conv)
  qed
  then show "hotkey_inv t' (H(k := H k @ [UnixMilli t'])) (hotkey_Record t' k h)"
    using w by (simp add: hotkey_inv_def now_def [symmetric] r AList.distinct_update)
qed

lemma hotkey_inv_later: "hotkey_inv t H h \<Longrightarrow> t \<le> t' \<Longrightarrow> hotkey_inv t' H h"
  using key_inv_later [of t _ _ _ _ t'] by (auto simp: hotkey_inv_def)

lemma monitor_inv_later: "monitor_inv t H m \<Longrightarrow> t \<le> t' \<Longrightarrow> monitor_inv t' H m"
  using UnixMilli_mono [of t t'] unfolding monitor_inv_def by (elim conjE exE, intro conjI exI) auto

text \<open>\<^verbatim>\<open>HotKeys\<close> lists exactly the keys with enough requests in the window, the most requested first.\<close>

lemma HotKeys_exact:
  assumes "hotkey_inv t H h" and "t \<le> t'" and "0 < threshold h"
  defines "n \<equiv> \<lambda>k. int (length (filter (\<lambda>x. UnixMilli t' - Milliseconds (hkwindow h) \<le> x) (H k)))"
  shows "set (HotKeys t' h) = {\<lparr>Key = k, Count = n k\<rparr> | k. k \<noteq> '''' \<and> threshold h \<le> n k}"
    and "sorted (map (\<lambda>s. (- Count s, Key s)) (HotKeys t' h))" and "distinct (map Key (HotKeys t' h))"
proof -
  define cutoff where "cutoff = UnixMilli t' - Milliseconds (hkwindow h)"
  define total where "total = (\<lambda>b. sum_list (map snd (filter (\<lambda>(t, c). cutoff \<le> t) b)) :: int)"
  have d: "distinct (map fst (keyHits h))" using assms(1) by (simp add: hotkey_inv_def)
  have total: "total (case map_of (keyHits h) k of None \<Rightarrow> [] | Some b \<Rightarrow> b) = n k" if k: "k \<noteq> ''''" for k
  proof -
    obtain c where c: "c \<le> UnixMilli t - Milliseconds (hkwindow h)"
      "holds_history c (H k) (case map_of (keyHits h) k of None \<Rightarrow> [] | Some b \<Rightarrow> b)"
      using hotkey_invD [OF assms(1) k] by blast
    have "c \<le> cutoff" using c(1) UnixMilli_mono [OF assms(2)] by (simp add: cutoff_def)
    from holds_history_total [OF holds_history_prune [OF c(2) this]] show ?thesis
      by (simp add: total_def n_def cutoff_def not_less)
  qed
  have hk: "HotKeys t' h = sort_key (\<lambda>s. (- Count s, Key s))
      (map (\<lambda>(k, b). \<lparr>Key = k, Count = total b\<rparr>) (filter (\<lambda>(k, b). threshold h \<le> total b) (keyHits h)))"
    by (simp add: HotKeys_def Let_def cutoff_def [symmetric] total_def)
  show "sorted (map (\<lambda>s. (- Count s, Key s)) (HotKeys t' h))" by (simp add: hk)
  have "distinct (map fst (filter (\<lambda>(k, b). threshold h \<le> total b) (keyHits h)))" using d by (simp add: distinct_map_filter)
  then have "distinct (map Key (map (\<lambda>(k, b). \<lparr>Key = k, Count = total b\<rparr>) (filter (\<lambda>(k, b). threshold h \<le> total b) (keyHits h))))"
    by (simp add: comp_def case_prod_beta)
  then show "distinct (map Key (HotKeys t' h))" unfolding hk distinct_map [of Key] by (simp only: distinct_sort set_sort simp_thms)
  have ent: "b = (case map_of (keyHits h) k of None \<Rightarrow> [] | Some b \<Rightarrow> b) \<and> k \<noteq> ''''" if "(k, b) \<in> set (keyHits h)" for k b
  proof -
    have m: "map_of (keyHits h) k = Some b" using that d by simp
    moreover have "key_inv t (hkwindow h) (H k) k (map_of (keyHits h) k)" using assms(1) by (simp add: hotkey_inv_def)
    ultimately show ?thesis by (simp add: key_inv_def)
  qed
  show "set (HotKeys t' h) = {\<lparr>Key = k, Count = n k\<rparr> | k. k \<noteq> '''' \<and> threshold h \<le> n k}"
  proof (intro set_eqI iffI)
    fix s assume "s \<in> set (HotKeys t' h)"
    then obtain k b where "(k, b) \<in> set (keyHits h)" "threshold h \<le> total b" "s = \<lparr>Key = k, Count = total b\<rparr>"
      by (auto simp: hk)
    then show "s \<in> {\<lparr>Key = k, Count = n k\<rparr> | k. k \<noteq> '''' \<and> threshold h \<le> n k}" using ent [of k b] total [of k] by auto
  next
    fix s assume "s \<in> {\<lparr>Key = k, Count = n k\<rparr> | k. k \<noteq> '''' \<and> threshold h \<le> n k}"
    then obtain k where k: "s = \<lparr>Key = k, Count = n k\<rparr>" "k \<noteq> ''''" "threshold h \<le> n k" by blast
    show "s \<in> set (HotKeys t' h)"
    proof (cases "map_of (keyHits h) k")
      case None
      then show ?thesis using total [OF k(2)] k(3) assms(3) by (simp add: total_def)
    next
      case (Some b)
      then have "(k, b) \<in> set (keyHits h)" "total b = n k" using total [OF k(2)] by (simp_all add: map_of_SomeD)
      then show ?thesis using k by (force simp: hk)
    qed
  qed
qed

section \<open>The engine along a run\<close>

definition engine_inv :: "Thresholds \<Rightarrow> time \<Rightarrow> wcall list \<Rightarrow> WorkloadEngine \<Rightarrow> bool" where
  "engine_inv th t calls e \<longleftrightarrow>
     monitor_inv t (request_times calls) (requests e) \<and> rmwindow (requests e) = 10000000000
   \<and> hotkey_inv t (\<lambda>k. key_times k calls) (hotKeys e) \<and> hkwindow (hotKeys e) = 10000000000 \<and> threshold (hotKeys e) = 20
   \<and> thresholds e = th
   \<and> (\<forall>now. (case criticalUntil e of None \<Rightarrow> False | Some u \<Rightarrow> now < u) \<longleftrightarrow> held now calls)"

lemma engine_inv_New: "engine_inv th t [] (NewEngine th)"
proof -
  have "monitor_inv t [] (NewRequestMonitor 10000000000)"
    using holds_history_Nil by (auto simp: monitor_inv_def NewRequestMonitor_def)
  moreover have "hotkey_inv t (\<lambda>k. []) (NewHotKeyTracker 10000000000 20)"
    by (simp add: hotkey_inv_def key_inv_def NewHotKeyTracker_def)
  ultimately show ?thesis by (simp add: engine_inv_def NewEngine_def held_def NewRequestMonitor_def NewHotKeyTracker_def)
qed

lemma held_Request: "held now (calls @ [Request r k]) = held now calls"
  by (simp add: held_def)

lemma monitor_windows [simp]: "rmwindow (monitor_Record t m) = rmwindow m" "rmwindow (snd (monitor_RPS t m)) = rmwindow m"
  by (simp_all add: monitor_Record_def monitor_RPS_def pruneLocked_def Let_def)

text \<open>The window of ten seconds: the requests that count at time \<open>t\<close>.\<close>

definition in_window :: "time \<Rightarrow> int list \<Rightarrow> int list" where
  "in_window t H = filter (\<lambda>x. UnixMilli t - 10000 \<le> x) H"

lemma RecordRequest_inv:
  assumes "engine_inv th t calls e" and "t \<le> at_monitor r" "at_monitor r \<le> at_hotkeys r" "at_hotkeys r \<le> at_rps r" "at_rps r \<le> at_mode r"
  shows "engine_inv th (at_mode r) (calls @ [Request r k]) (RecordRequest r k e)"
    and "mode (RecordRequest r k e) = (if held (at_mode r) calls then ModeCritical
      else mode_for th (of_nat (length (in_window (at_rps r) (request_times (calls @ [Request r k])))) / 10))"
proof -
  let ?H = "request_times (calls @ [Request r k])"
  let ?m = "monitor_Record (at_monitor r) (requests e)"
  have E: "monitor_inv t (request_times calls) (requests e)" "rmwindow (requests e) = 10000000000"
    "hotkey_inv t (\<lambda>k. key_times k calls) (hotKeys e)" "hkwindow (hotKeys e) = 10000000000" "threshold (hotKeys e) = 20"
    "thresholds e = th" "(case criticalUntil e of None \<Rightarrow> False | Some u \<Rightarrow> now < u) \<longleftrightarrow> held now calls" for now
    using assms(1) by (simp_all add: engine_inv_def)
  have m: "monitor_inv (at_monitor r) ?H ?m"
    using monitor_Record_inv [OF E(1) assms(2)] by (simp add: request_times_append)
  have w: "rmwindow ?m = 10000000000" by (simp add: E(2))
  have t: "at_monitor r \<le> at_rps r" using assms by simp
  have rps: "fst (monitor_RPS (at_rps r) ?m) = of_nat (length (in_window (at_rps r) ?H)) / 10"
    "monitor_inv (at_rps r) ?H (snd (monitor_RPS (at_rps r) ?m))"
    using monitor_RPS_exact [OF m t] by (simp_all add: E(2) in_window_def Milliseconds_def Seconds_def)
  define h where "h = (if k = '''' then hotKeys e else hotkey_Record (at_hotkeys r) k (hotKeys e))"
  have h: "hotkey_inv (at_hotkeys r) (\<lambda>j. key_times j (calls @ [Request r k])) h" "hkwindow h = 10000000000" "threshold h = 20"
  proof -
    have th: "t \<le> at_hotkeys r" using assms by simp
    show "hkwindow h = 10000000000" "threshold h = 20"
      using hotkey_Record_inv(2,3) [OF E(3) th, of k] E(4,5) by (auto simp: h_def)
    show "hotkey_inv (at_hotkeys r) (\<lambda>j. key_times j (calls @ [Request r k])) h"
    proof (cases "k = ''''")
      case True
      have "key_inv (at_hotkeys r) w (key_times j (calls @ [Request r k])) j ob" if "key_inv (at_hotkeys r) w (key_times j calls) j ob" for w j ob
        using that True by (cases "j = ''''") (auto simp: key_inv_def key_times_append split: option.splits)
      then show ?thesis using hotkey_inv_later [OF E(3) th] True by (simp add: h_def hotkey_inv_def)
    next
      case False
      have "(\<lambda>j. key_times j (calls @ [Request r k])) = (\<lambda>j. key_times j calls)(k := key_times k calls @ [UnixMilli (at_hotkeys r)])"
        by (auto simp: key_times_append)
      then show ?thesis using hotkey_Record_inv(1) [OF E(3) th False] False by (simp add: h_def)
    qed
  qed
  have R: "RecordRequest r k e = e\<lparr>requests := snd (monitor_RPS (at_rps r) ?m), hotKeys := h,
     mode := (if held (at_mode r) calls then ModeCritical else mode_for th (fst (monitor_RPS (at_rps r) ?m)))\<rparr>"
    by (simp add: RecordRequest_def recomputeMode_def Let_def case_prod_beta h_def E(6,7))
  show "mode (RecordRequest r k e) = (if held (at_mode r) calls then ModeCritical
      else mode_for th (of_nat (length (in_window (at_rps r) ?H)) / 10))" by (simp add: R rps(1))
  show "engine_inv th (at_mode r) (calls @ [Request r k]) (RecordRequest r k e)"
    using monitor_inv_later [OF rps(2) assms(5)] hotkey_inv_later [OF h(1), of "at_mode r"] h(2,3) assms(3-5)
    by (simp add: engine_inv_def R E held_Request)
qed

lemma SignalCritical_inv:
  assumes "engine_inv th t calls e" and "t \<le> now"
  shows "engine_inv th now (calls @ [Signal now hold]) (SignalCritical now hold e)"
proof -
  have E: "monitor_inv t (request_times calls) (requests e)" "hotkey_inv t (\<lambda>k. key_times k calls) (hotKeys e)"
    and c: "\<And>x. (case criticalUntil e of None \<Rightarrow> False | Some u \<Rightarrow> x < u) \<longleftrightarrow> held x calls"
    using assms(1) by (simp_all add: engine_inv_def)
  have "(case criticalUntil (SignalCritical now hold e) of None \<Rightarrow> False | Some u \<Rightarrow> x < u) \<longleftrightarrow> held x (calls @ [Signal now hold])" for x
    using c [of x] by (auto simp: SignalCritical_def Let_def held_def split: option.splits)
  then show ?thesis using monitor_inv_later [OF E(1) assms(2)] hotkey_inv_later [OF E(2) assms(2)] assms(1)
    by (simp add: engine_inv_def SignalCritical_def Let_def request_times_append key_times_append)
qed

lemma wrun_inv:
  assumes "clocked t calls t'"
  shows "engine_inv th t' calls (wrun calls (NewEngine th))"
proof -
  have "engine_inv th t' (done @ calls) (fold wstep calls e)" if "engine_inv th t done e" "clocked t calls t'" for t "done" e
    using that
  proof (induction calls arbitrary: t "done" e)
    case Nil
    then show ?case using monitor_inv_later [of t _ _ t'] hotkey_inv_later [of t _ _ t'] by (simp add: engine_inv_def)
  next
    case (Cons call calls)
    show ?case
    proof (cases call)
      case (Request r k)
      then show ?thesis using Cons.prems Cons.IH [OF RecordRequest_inv(1) [OF Cons.prems(1), of r k]] by simp
    next
      case (Signal now hold)
      then show ?thesis using Cons.prems Cons.IH [OF SignalCritical_inv [OF Cons.prems(1), of now hold]] by simp
    qed
  qed
  from this [OF engine_inv_New assms] show ?thesis by (simp add: wrun_def)
qed

lemma clocked_snoc: "clocked t (calls @ [Request r k]) t' \<longleftrightarrow> (\<exists>u. clocked t calls u \<and> u \<le> at_monitor r) \<and> at_monitor r \<le> at_hotkeys r
    \<and> at_hotkeys r \<le> at_rps r \<and> at_rps r \<le> at_mode r \<and> at_mode r \<le> t'"
  by (induction t calls t' rule: clocked.induct) auto

section \<open>Properties\<close>



text \<open>
  C27: \<^verbatim>\<open>HotKeys\<close> lists exactly the keys with at least twenty requests in the last ten seconds, each
  once, with this number, the most requested first and equal counts by key.
\<close>

theorem hot_keys_exact:
  assumes "clocked t calls t'"
  defines "n \<equiv> \<lambda>k. int (length (in_window t' (key_times k calls)))"
  shows "set (HotKeys t' (hotKeys (wrun calls (NewEngine th)))) = {\<lparr>Key = k, Count = n k\<rparr> | k. k \<noteq> '''' \<and> 20 \<le> n k}
    \<and> distinct (map Key (HotKeys t' (hotKeys (wrun calls (NewEngine th)))))
    \<and> sorted (map (\<lambda>s. (- Count s, Key s)) (HotKeys t' (hotKeys (wrun calls (NewEngine th)))))"
proof -
  let ?h = "hotKeys (wrun calls (NewEngine th))"
  have e: "hotkey_inv t' (\<lambda>k. key_times k calls) ?h" "hkwindow ?h = 10000000000" "threshold ?h = 20"
    using wrun_inv [OF assms(1), of th] by (simp_all add: engine_inv_def)
  show ?thesis using HotKeys_exact [OF e(1) order_refl] by (simp add: e(2,3) n_def in_window_def Milliseconds_def)
qed

definition busy :: "wcall list" where
  "busy = replicate 20 (Request \<lparr>at_monitor = 0, at_hotkeys = 0, at_rps = 0, at_mode = 0\<rparr> ''k'')"

theorem hot_keys_exact_witness: "HotKeys 0 (hotKeys (wrun busy (NewEngine DefaultThresholds))) = [\<lparr>Key = ''k'', Count = 20\<rparr>]"
proof -
  have c: "clocked 0 busy 0" by (simp add: busy_def eval_nat_numeral)
  have n: "length (in_window 0 (key_times k busy)) = (if k = ''k'' then 20 else 0)" for k
    by (simp add: busy_def eval_nat_numeral in_window_def UnixMilli_def)
  let ?l = "HotKeys 0 (hotKeys (wrun busy (NewEngine DefaultThresholds)))"
  note h = hot_keys_exact [OF c, of DefaultThresholds, unfolded n]
  have s: "set ?l = {\<lparr>Key = ''k'', Count = 20\<rparr>}" unfolding conjunct1 [OF h] by (auto split: if_splits)
  have "distinct ?l" using h by (simp add: distinct_map)
  then have "length ?l = 1" using distinct_card [of ?l] by (simp add: s)
  then obtain x where "?l = [x]" by (cases ?l) auto
  then show ?thesis using s by simp
qed

end
