(* ===== verification/Rfc3339.thy ===== *)
theory Rfc3339
  imports Json
begin

text \<open>
  The text of a \<^verbatim>\<open>time.Time\<close> in JSON: \<^verbatim>\<open>MarshalJSON\<close> and \<^verbatim>\<open>UnmarshalJSON\<close> of the standard library,
  RFC 3339 with nanoseconds.  Times are printed in UTC (the zone of a deployed container); the
  parser accepts every offset.
\<close>

section \<open>The proleptic Gregorian calendar\<close>

definition leap :: "int \<Rightarrow> bool" where
  "leap y \<longleftrightarrow> y mod 4 = 0 \<and> (y mod 100 \<noteq> 0 \<or> y mod 400 = 0)"

definition months :: "int \<Rightarrow> nat list" where
  "months y = [31, if leap y then 29 else 28, 31, 30, 31, 30, 31, 31, 30, 31, 30, 31]"

text \<open>Days from 0001-01-01 to the first day of a year.\<close>

definition days_before :: "int \<Rightarrow> int" where
  "days_before y = (let n = y - 1 in 365 * n + n div 4 - n div 100 + n div 400)"

text \<open>Year and day of the year of a day, counted from 0001-01-01.\<close>

definition year_day :: "int \<Rightarrow> int \<times> nat" where
  "year_day d =
     (let n400 = d div 146097; d1 = d mod 146097;
          n100 = min 3 (d1 div 36524); d2 = d1 - 36524 * n100;
          n4 = d2 div 1461; d3 = d2 mod 1461;
          n1 = min 3 (d3 div 365)
      in (400 * n400 + 100 * n100 + 4 * n4 + n1 + 1, nat (d3 - 365 * n1)))"

fun month_day :: "nat list \<Rightarrow> nat \<Rightarrow> nat \<times> nat" where
  "month_day [] n = (0, n)"
| "month_day (m # ms) n = (if n < m then (0, n) else case month_day ms (n - m) of (i, d) \<Rightarrow> (i + 1, d))"

lemma div_split: "0 \<le> r \<Longrightarrow> r < k \<Longrightarrow> (k * q + r) div k = (q :: int)"
  by simp

lemma year_day_inverse:
  assumes "year_day d = (y, yd)"
  shows "days_before y + int yd = d" and "yd < 366" and "\<not> leap y \<longrightarrow> yd < 365"
proof -
  define a where "a = d div 146097"
  define d1 where "d1 = d mod 146097"
  define b where "b = min 3 (d1 div 36524)"
  define d2 where "d2 = d1 - 36524 * b"
  define c where "c = d2 div 1461"
  define d3 where "d3 = d2 mod 1461"
  define e where "e = min 3 (d3 div 365)"
  have d1: "d = 146097 * a + d1" "0 \<le> d1" "d1 < 146097" by (simp_all add: a_def d1_def)
  have b: "0 \<le> b" "b \<le> 3" "0 \<le> d2" "d2 < 36525" "b < 3 \<longrightarrow> d2 < 36524"
    using d1(2,3) by (auto simp: b_def d2_def min_def)
  have d3: "d2 = 1461 * c + d3" "0 \<le> d3" "d3 < 1461" by (simp_all add: c_def d3_def)
  have c: "0 \<le> c" "c \<le> 24" using b(3,4) d3 by linarith+
  have e: "0 \<le> e" "e \<le> 3" "0 \<le> d3 - 365 * e" "d3 - 365 * e < 366" "e < 3 \<longrightarrow> d3 - 365 * e < 365"
    using d3(2,3) by (auto simp: e_def min_def)
  define n where "n = 400 * a + 100 * b + 4 * c + e"
  have "year_day d = (n + 1, nat (d3 - 365 * e))"
    unfolding year_day_def Let_def n_def e_def d3_def c_def d2_def b_def d1_def a_def ..
  then have y: "y = n + 1" "int yd = d3 - 365 * e" using assms e(3) by simp_all
  have div4: "n div 4 = 100 * a + 25 * b + c" using e(1,2) div_split [of e 4 "100 * a + 25 * b + c"] by (simp add: n_def)
  have div100: "n div 100 = 4 * a + b"
  proof -
    have "0 \<le> 4 * c + e \<and> 4 * c + e < 100" using c e by linarith
    moreover have "n = 100 * (4 * a + b) + (4 * c + e)" by (simp add: n_def)
    ultimately show ?thesis using div_split [of "4 * c + e" 100 "4 * a + b"] by simp
  qed
  have div400: "n div 400 = a"
  proof -
    have "0 \<le> 100 * b + 4 * c + e \<and> 100 * b + 4 * c + e < 400" using b c e by linarith
    moreover have "n = 400 * a + (100 * b + 4 * c + e)" by (simp add: n_def)
    ultimately show ?thesis using div_split [of "100 * b + 4 * c + e" 400 a] by simp
  qed
  show "days_before y + int yd = d"
    using d1(1) d3(1) by (simp add: y days_before_def Let_def div4 div100 div400) (simp add: n_def d2_def)
  show "yd < 366" using e(4) y(2) by linarith
  show "\<not> leap y \<longrightarrow> yd < 365"
  proof (rule impI, rule ccontr)
    assume nl: "\<not> leap y" and "\<not> yd < 365"
    then have "d3 - 365 * e = 365" using y(2) e(4) by linarith
    then have e3: "e = 3" and d3v: "d3 = 1460" using e(2,5) by auto
    have c24: "c = 24 \<longrightarrow> b = 3" using b(2,5) d3(1) d3v by auto
    have y4: "y = 400 * a + 100 * b + 4 * (c + 1)" by (simp add: y n_def e3)
    show False
    proof (cases "c = 24")
      case True
      then have "y = 400 * (a + 1)" using c24 y4 by simp
      then show False using nl by (simp add: leap_def)
    next
      case False
      then have "0 < 4 * (c + 1)" "4 * (c + 1) < 100" using c by auto
      then have "(100 * (4 * a + b) + 4 * (c + 1)) mod 100 \<noteq> 0" by (simp only: mod_mult_self4 mod_pos_pos_trivial)
      moreover have "y = 100 * (4 * a + b) + 4 * (c + 1)" "y = 4 * (100 * a + 25 * b + c + 1)" using y4 by simp_all
      ultimately show False using nl by (metis leap_def mod_mult_self1_is_0)
    qed
  qed
qed

lemma month_day_inverse:
  assumes "month_day ls n = (i, d)" and "n < sum_list ls"
  shows "i < length ls \<and> d < ls ! i \<and> sum_list (take i ls) + d = n"
  using assms
proof (induction ls arbitrary: n i d)
  case (Cons l ls)
  show ?case
  proof (cases "n < l")
    case False
    obtain j where "month_day ls (n - l) = (j, d)" "i = j + 1" using Cons.prems(1) False by (auto split: prod.splits)
    moreover have "n - l < sum_list ls" using Cons.prems(2) False by simp
    ultimately show ?thesis using Cons.IH [of "n - l" j d] False by auto
  qed (use Cons.prems in auto)
qed simp

section \<open>Printing\<close>

text \<open>\<open>pad w n\<close> has \<open>w\<close> digits.\<close>

primrec pad :: "nat \<Rightarrow> nat \<Rightarrow> string" where
  "pad 0 n = []"
| "pad (Suc w) n = pad w (n div 10) @ [chr (48 + n mod 10)]"

definition trim_zeros :: "string \<Rightarrow> string" where
  "trim_zeros s = rev (dropWhile (\<lambda>c. c = CHR ''0'') (rev s))"

definition ns_per_s :: int where
  "ns_per_s = 1000000000"

text \<open>The zero \<^verbatim>\<open>time.Time\<close>: 0001-01-01T00:00:00Z, which is day 0 and 719162 days before the Unix epoch.\<close>

definition zero_time :: time where
  "zero_time = - (719162 * 86400) * ns_per_s"

definition print_time :: "time \<Rightarrow> string option" where
  "print_time t =
     (let secs = t div ns_per_s; nano = nat (t mod ns_per_s);
          (y, yd) = year_day (secs div 86400 + 719162);
          (mon, day) = month_day (months y) yd;
          s = nat (secs mod 86400);
          frac = trim_zeros (pad 9 nano)
      in if y < 0 \<or> 9999 < y then None
         else Some (pad 4 (nat y) @ ''-'' @ pad 2 (mon + 1) @ ''-'' @ pad 2 (day + 1) @ ''T'' @ pad 2 (s div 3600) @ '':''
           @ pad 2 (s div 60 mod 60) @ '':'' @ pad 2 (s mod 60) @ (if frac = [] then [] else CHR ''.'' # frac) @ ''Z''))"

section \<open>Parsing\<close>

text \<open>\<open>num w lo hi\<close> reads exactly \<open>w\<close> digits with a value from \<open>lo\<close> to \<open>hi\<close>; \<open>lit\<close> reads a fixed character.\<close>

definition num :: "nat \<Rightarrow> nat \<Rightarrow> nat \<Rightarrow> string \<Rightarrow> (nat \<times> string) option" where
  "num w lo hi s =
     (let ds = take w s; n = nat_of_digits ds
      in if length ds = w \<and> list_all digit ds \<and> lo \<le> n \<and> n \<le> hi then Some (n, drop w s) else None)"

definition lit :: "char \<Rightarrow> string \<Rightarrow> string option" where
  "lit c s = (case s of [] \<Rightarrow> None | x # r \<Rightarrow> if x = c then Some r else None)"

text \<open>A fraction of a second in nanoseconds; digits beyond the ninth are dropped.\<close>

definition parse_frac :: "string \<Rightarrow> (nat \<times> string) option" where
  "parse_frac s =
     (case s of
        [] \<Rightarrow> None
      | x # r \<Rightarrow>
          if x = CHR ''.'' then
            (let ds = takeWhile digit r
             in if ds = [] then None
                else Some (nat_of_digits (take 9 (ds @ replicate 9 (CHR ''0''))), dropWhile digit r))
          else Some (0, s))"

text \<open>The offset in seconds; nothing may follow it.\<close>

definition parse_zone :: "string \<Rightarrow> int option" where
  "parse_zone s =
     (if s = ''Z'' then Some 0
      else case s of
        [] \<Rightarrow> None
      | x # r \<Rightarrow>
          (if x = CHR ''+'' \<or> x = CHR ''-'' then
             (case num 2 0 23 r of
                None \<Rightarrow> None
              | Some (h, r1) \<Rightarrow>
                 (case lit CHR '':'' r1 of
                    None \<Rightarrow> None
                  | Some r2 \<Rightarrow>
                     (case num 2 0 59 r2 of
                        Some (m, []) \<Rightarrow> Some ((if x = CHR ''-'' then -1 else 1) * (3600 * int h + 60 * int m))
                      | _ \<Rightarrow> None)))
           else None))"

definition parse_clock :: "string \<Rightarrow> (nat \<times> string) option" where
  "parse_clock s =
     (case num 2 0 23 s of
        None \<Rightarrow> None
      | Some (h, s1) \<Rightarrow>
         (case Option.bind (lit CHR '':'' s1) (num 2 0 59) of
            None \<Rightarrow> None
          | Some (m, s2) \<Rightarrow>
             (case Option.bind (lit CHR '':'' s2) (num 2 0 59) of
                None \<Rightarrow> None
              | Some (sec, s3) \<Rightarrow> Some (3600 * h + 60 * m + sec, s3))))"

definition parse_date :: "string \<Rightarrow> (int \<times> string) option" where
  "parse_date s =
     (case num 4 0 9999 s of
        None \<Rightarrow> None
      | Some (y, s1) \<Rightarrow>
         (case Option.bind (lit CHR ''-'' s1) (num 2 1 12) of
            None \<Rightarrow> None
          | Some (mon, s2) \<Rightarrow>
             (case Option.bind (lit CHR ''-'' s2) (num 2 1 (months (int y) ! (mon - 1))) of
                None \<Rightarrow> None
              | Some (day, s3) \<Rightarrow>
                  Some (days_before (int y) + int (sum_list (take (mon - 1) (months (int y))) + (day - 1)), s3))))"

definition parse_time :: "string \<Rightarrow> time option" where
  "parse_time s =
     (case parse_date s of
        None \<Rightarrow> None
      | Some (d, s1) \<Rightarrow>
         (case Option.bind (lit CHR ''T'' s1) parse_clock of
            None \<Rightarrow> None
          | Some (c, s2) \<Rightarrow>
             (case parse_frac s2 of
                None \<Rightarrow> None
              | Some (f, s3) \<Rightarrow>
                 (case parse_zone s3 of
                    None \<Rightarrow> None
                  | Some z \<Rightarrow> Some (((d - 719162) * 86400 + int c - z) * ns_per_s + int f)))))"

section \<open>Round trip\<close>

lemma length_pad [simp]: "length (pad w n) = w"
  by (induction w arbitrary: n) simp_all

lemma digits_pad [simp]: "list_all digit (pad w n)"
  by (induction w arbitrary: n) simp_all

lemma nat_of_pad: "n < 10 ^ w \<Longrightarrow> nat_of_digits (pad w n) = n"
proof (induction w arbitrary: n)
  case 0
  then show ?case by (simp add: nat_of_digits_def)
next
  case (Suc w)
  then have "nat_of_digits (pad w (n div 10)) = n div 10" by simp
  moreover have "code (chr (48 + n mod 10)) = 48 + n mod 10" by (simp add: code_def chr_def of_char_of)
  ultimately show ?case by simp
qed

lemma num_pad: "n < 10 ^ w \<Longrightarrow> lo \<le> n \<Longrightarrow> n \<le> hi \<Longrightarrow> num w lo hi (pad w n @ r) = Some (n, r)"
  by (simp add: num_def Let_def nat_of_pad)

lemma lit_Cons [simp]: "lit c (c # r) = Some r"
  by (simp add: lit_def)

lemma trim_zeros_split: "s = trim_zeros s @ replicate (length s - length (trim_zeros s)) (CHR ''0'')"
proof -
  let ?z = "takeWhile (\<lambda>c. c = CHR ''0'') (rev s)"
  have "s = rev (?z @ dropWhile (\<lambda>c. c = CHR ''0'') (rev s))" by simp
  then have s: "s = trim_zeros s @ rev ?z" unfolding trim_zeros_def by (simp only: rev_append)
  have "\<forall>c \<in> set ?z. c = CHR ''0''" by (auto dest: set_takeWhileD)
  then have "rev ?z = replicate (length ?z) (CHR ''0'')" by (metis replicate_length_same rev_replicate)
  moreover have "length ?z = length s - length (trim_zeros s)" using arg_cong [OF s, of length] by simp
  ultimately show ?thesis using s by metis
qed

lemma frac_value:
  assumes "n < 1000000000"
  shows "nat_of_digits (take 9 (trim_zeros (pad 9 n) @ replicate 9 (CHR ''0''))) = n"
proof -
  let ?f = "trim_zeros (pad 9 n)"
  have p: "pad 9 n = ?f @ replicate (9 - length ?f) (CHR ''0'')" using trim_zeros_split [of "pad 9 n"] by simp
  have "length ?f \<le> 9" using arg_cong [OF p, of length] by (simp del: pad.simps)
  then have "take 9 (?f @ replicate 9 (CHR ''0'')) = ?f @ replicate (9 - length ?f) (CHR ''0'')" by simp
  then show ?thesis using nat_of_pad [of n 9] assms p by simp
qed

lemma frac_digits: "list_all digit (trim_zeros (pad 9 n))"
proof -
  have "list_all digit (trim_zeros (pad 9 n) @ replicate (9 - length (trim_zeros (pad 9 n))) (CHR ''0''))"
    using trim_zeros_split [of "pad 9 n"] digits_pad [of 9 n] by simp
  then show ?thesis by simp
qed

lemma takeWhile_frac: "list_all digit f \<Longrightarrow> takeWhile digit (f @ ''Z'') = f \<and> dropWhile digit (f @ ''Z'') = ''Z''"
proof -
  assume "list_all digit f"
  then have "\<forall>c \<in> set f. digit c" by (simp add: list_all_iff)
  moreover have "\<not> digit CHR ''Z''" by (simp add: digit_def code_def cont_def)
  ultimately show ?thesis by (simp add: takeWhile_append2 dropWhile_append2)
qed

lemma parse_frac_print:
  assumes "n < 1000000000"
  shows "parse_frac ((if trim_zeros (pad 9 n) = [] then [] else CHR ''.'' # trim_zeros (pad 9 n)) @ ''Z'') = Some (n, ''Z'')"
proof (cases "trim_zeros (pad 9 n) = []")
  case True
  have "nat_of_digits (take 9 ([] @ replicate 9 (CHR ''0''))) = 0" by (simp add: nat_of_digits_def code_def eval_nat_numeral)
  then have "n = 0" using frac_value [OF assms] unfolding True by (rule trans [OF sym, rotated])
  then show ?thesis using True by (simp add: parse_frac_def)
next
  case False
  then show ?thesis using frac_value [OF assms] takeWhile_frac [OF frac_digits [of n]] by (simp add: parse_frac_def Let_def)
qed

lemma months_sum: "sum_list (months y) = (if leap y then 366 else 365)"
  by (simp add: months_def)

lemma month_bound: "i < 12 \<Longrightarrow> months y ! i \<le> 31 \<and> length (months y) = 12"
  by (auto simp: months_def less_Suc_eq numeral_nat)

lemma parse_date_print:
  assumes "year_day d = (y, yd)" and "month_day (months y) yd = (mon, day)" and "0 \<le> y" and "y \<le> 9999"
  shows "parse_date (pad 4 (nat y) @ CHR ''-'' # pad 2 (mon + 1) @ CHR ''-'' # pad 2 (day + 1) @ r) = Some (d, r)"
proof -
  note yd = year_day_inverse [OF assms(1)]
  have "yd < sum_list (months y)" using yd(2,3) by (simp add: months_sum)
  from month_day_inverse [OF assms(2) this]
  have m: "mon < 12" "day < months y ! mon" "sum_list (take mon (months y)) + day = yd" by (simp_all add: months_def)
  have b: "months y ! mon \<le> 31" using month_bound [OF m(1)] by simp
  have "days_before y + int (sum_list (take mon (months y)) + day) = d" using yd(1) m(3) by simp
  then show ?thesis using assms(3,4) m b
    by (simp add: parse_date_def num_pad del: pad.simps)
qed

lemma parse_clock_print:
  assumes "s < 86400"
  shows "parse_clock (pad 2 (s div 3600) @ CHR '':'' # pad 2 (s div 60 mod 60) @ CHR '':'' # pad 2 (s mod 60) @ r) = Some (s, r)"
proof -
  have "s div 3600 \<le> 23" using assms by simp
  moreover have "s div 60 mod 60 \<le> 59" "s mod 60 \<le> 59" by (simp_all add: less_Suc_eq_le [symmetric])
  moreover have "3600 * (s div 3600) + 60 * (s div 60 mod 60) + s mod 60 = s"
  proof -
    have "s div 60 div 60 = s div 3600" by (simp add: div_mult2_eq [symmetric])
    then show ?thesis using mult_div_mod_eq [of 60 "s div 60"] mult_div_mod_eq [of 60 s] by linarith
  qed
  ultimately show ?thesis by (simp add: parse_clock_def num_pad del: pad.simps)
qed

lemma parse_print_time:
  assumes "print_time t = Some s"
  shows "parse_time s = Some t"
proof -
  define secs where "secs = t div ns_per_s"
  define nano where "nano = nat (t mod ns_per_s)"
  obtain y yd where y: "year_day (secs div 86400 + 719162) = (y, yd)" by (cases "year_day (secs div 86400 + 719162)")
  obtain mon day where m: "month_day (months y) yd = (mon, day)" by (cases "month_day (months y) yd")
  define c where "c = nat (secs mod 86400)"
  let ?f = "(if trim_zeros (pad 9 nano) = [] then [] else CHR ''.'' # trim_zeros (pad 9 nano)) @ ''Z''"
  have p: "0 \<le> y" "y \<le> 9999" "s = pad 4 (nat y) @ CHR ''-'' # pad 2 (mon + 1) @ CHR ''-'' # pad 2 (day + 1) @ CHR ''T'' # pad 2 (c div 3600) @ CHR '':''
      # pad 2 (c div 60 mod 60) @ CHR '':'' # pad 2 (c mod 60) @ ?f"
    using assms by (simp_all add: print_time_def Let_def secs_def [symmetric] nano_def [symmetric] c_def [symmetric] y m del: pad.simps split: if_splits)
  have n: "nano < 1000000000" by (simp add: nano_def ns_per_s_def nat_less_iff)
  have c: "c < 86400" by (simp add: c_def nat_less_iff)
  have "parse_time s = Some ((secs div 86400 * 86400 + int c) * ns_per_s + int nano)"
    unfolding parse_time_def p(3) parse_date_print [OF y m p(1,2)]
    by (simp add: parse_clock_print [OF c] parse_frac_print [OF n] parse_zone_def del: pad.simps)
  also have "secs div 86400 * 86400 + int c = secs" by (simp add: c_def)
  also have "secs * ns_per_s + int nano = t" by (simp add: secs_def nano_def ns_per_s_def)
  finally show ?thesis .
qed

end
