(* ===== verification/State_Machine.thy ===== *)
theory State_Machine
  imports Rfc3339 Engine_Refinement
begin

text \<open>
  The replicated state machine (\<^verbatim>\<open>internal/storage/command.go\<close>, \<^verbatim>\<open>statemachine.go\<close>): the JSON text of a
  command, \<^verbatim>\<open>Apply\<close>, \<^verbatim>\<open>Snapshot\<close> and \<^verbatim>\<open>Restore\<close> over any storage engine.  The Go interface
  \<^verbatim>\<open>Engine\<close> is a record of functions; the laws the lemmas need of it are the locale \<open>kv_engine\<close>.
\<close>

section \<open>Commands\<close>

definition CommandSet :: nat where "CommandSet = 1"
definition CommandDelete :: nat where "CommandDelete = 2"

record Command =
  cOp :: nat
  cKey :: string
  cValue :: bytes
  cConsistency :: Consistency
  cTTLSeconds :: int

definition EncodeCommand :: "Command \<Rightarrow> bytes" where
  "EncodeCommand c =
     str_bytes (json_print (JObj ([(''op'', JNum (print_nat (cOp c))), (''key'', JStr (cKey c))]
       @ (if cValue c = [] then [] else [(''value'', JStr (b64_encode (cValue c)))])
       @ (if cConsistency c = '''' then [] else [(''consistency'', JStr (cConsistency c))])
       @ (if cTTLSeconds c = 0 then [] else [(''ttl_seconds'', JNum (print_int (cTTLSeconds c)))]))))"

definition DecodeCommand :: "bytes \<Rightarrow> Command option" where
  "DecodeCommand data =
     (case json_parse (bytes_str data) of
        Some (JObj members) \<Rightarrow>
          (case (decode_field (dec_uint 8) 0 ''op'' members, decode_field dec_string '''' ''key'' members,
                 decode_field dec_bytes [] ''value'' members, decode_field dec_string '''' ''consistency'' members,
                 decode_field dec_int64 0 ''ttl_seconds'' members) of
             (Some o', Some k, Some v, Some c, Some ttl) \<Rightarrow>
               Some \<lparr>cOp = o', cKey = k, cValue = v, cConsistency = c, cTTLSeconds = ttl\<rparr>
           | _ \<Rightarrow> None)
      | Some JNull \<Rightarrow> Some \<lparr>cOp = 0, cKey = '''', cValue = [], cConsistency = '''', cTTLSeconds = 0\<rparr>
      | _ \<Rightarrow> None)"

section \<open>The state machine\<close>

record 'e KVEngine =
  eGet :: "'e \<Rightarrow> time \<Rightarrow> string \<Rightarrow> kv_error + Entry"
  ePut :: "'e \<Rightarrow> time \<Rightarrow> string \<Rightarrow> bytes \<Rightarrow> Consistency \<Rightarrow> int \<Rightarrow> kv_error option \<times> 'e"
  eDelete :: "'e \<Rightarrow> time \<Rightarrow> string \<Rightarrow> kv_error option \<times> 'e"
  eScan :: "'e \<Rightarrow> time \<Rightarrow> string \<Rightarrow> kv_error + (string \<times> Entry) list"

datatype sm_error = DecodeError | EngineError kv_error | UnknownOp nat

text \<open>\<^verbatim>\<open>time.Duration(cmd.TTLSeconds) * time.Second\<close>, which wraps.\<close>

definition ttl_duration :: "int \<Rightarrow> int" where
  "ttl_duration s = s64 (s * 1000000000)"

definition sm_Apply :: "'e KVEngine \<Rightarrow> time \<Rightarrow> bytes \<Rightarrow> 'e \<Rightarrow> sm_error option \<times> 'e" where
  "sm_Apply E now command e =
     (case DecodeCommand command of
        None \<Rightarrow> (Some DecodeError, e)
      | Some cmd \<Rightarrow>
          if cOp cmd = CommandSet then
            map_prod (map_option EngineError) id (ePut E e now (cKey cmd) (cValue cmd) (cConsistency cmd) (ttl_duration (cTTLSeconds cmd)))
          else if cOp cmd = CommandDelete then
            (case eDelete E e now (cKey cmd) of
               (err, e') \<Rightarrow> (if err = Some ErrKeyNotFound then None else map_option EngineError err, e'))
          else (Some (UnknownOp (cOp cmd)), e))"

record snapshotEntry =
  seKey :: string
  seValue :: bytes
  seConsistency :: Consistency
  seExpiresAt :: "time option"

definition instant :: "time option \<Rightarrow> time" where
  "instant t = (case t of None \<Rightarrow> zero_time | Some x \<Rightarrow> x)"

definition of_instant :: "time \<Rightarrow> time option" where
  "of_instant x = (if x = zero_time then None else Some x)"

text \<open>\<open>omitempty\<close> does not omit a \<^verbatim>\<open>time.Time\<close>: the zero time is printed.\<close>

definition encode_entry :: "snapshotEntry \<Rightarrow> json option" where
  "encode_entry s =
     map_option (\<lambda>x. JObj [(''key'', JStr (seKey s)), (''value'', JStr (b64_encode (seValue s))),
       (''consistency'', JStr (seConsistency s)), (''expires_at'', JStr x)]) (print_time (instant (seExpiresAt s)))"

fun dec_time :: "json \<Rightarrow> time option" where
  "dec_time (JStr s) = parse_time s"
| "dec_time _ = None"

fun decode_entry :: "json \<Rightarrow> snapshotEntry option" where
  "decode_entry (JObj members) =
     (case (decode_field dec_string '''' ''key'' members, decode_field dec_bytes [] ''value'' members,
            decode_field dec_string '''' ''consistency'' members, decode_field dec_time zero_time ''expires_at'' members) of
        (Some k, Some v, Some c, Some x) \<Rightarrow> Some \<lparr>seKey = k, seValue = v, seConsistency = c, seExpiresAt = of_instant x\<rparr>
      | _ \<Rightarrow> None)"
| "decode_entry JNull = Some \<lparr>seKey = '''', seValue = [], seConsistency = '''', seExpiresAt = None\<rparr>"
| "decode_entry _ = None"

fun collect :: "('a \<Rightarrow> 'b option) \<Rightarrow> 'a list \<Rightarrow> 'b list option" where
  "collect f [] = Some []"
| "collect f (x # xs) = (case f x of None \<Rightarrow> None | Some y \<Rightarrow> map_option ((#) y) (collect f xs))"

text \<open>\<^verbatim>\<open>sort.Slice\<close> by keys, which are distinct.\<close>

definition snapshot_entries :: "(string \<times> Entry) list \<Rightarrow> snapshotEntry list" where
  "snapshot_entries m =
     sort_key seKey (map (\<lambda>(k, e). \<lparr>seKey = k, seValue = Value e, seConsistency = Consistency e, seExpiresAt = ExpiresAt e\<rparr>) m)"

definition sm_Snapshot :: "'e KVEngine \<Rightarrow> time \<Rightarrow> 'e \<Rightarrow> bytes option" where
  "sm_Snapshot E now e =
     (case eScan E e now '''' of
        Inl _ \<Rightarrow> None
      | Inr m \<Rightarrow> map_option (\<lambda>js. str_bytes (json_print (JArr js))) (collect encode_entry (snapshot_entries m)))"

text \<open>\<^verbatim>\<open>time.Until\<close> saturates.\<close>

definition time_until :: "time \<Rightarrow> time \<Rightarrow> int" where
  "time_until now t = (let d = t - now in if d < - (2 ^ 63) then - (2 ^ 63) else if d > 2 ^ 63 - 1 then 2 ^ 63 - 1 else d)"

definition entry_ttl :: "time \<Rightarrow> snapshotEntry \<Rightarrow> int" where
  "entry_ttl now s = (case seExpiresAt s of None \<Rightarrow> 0 | Some x \<Rightarrow> time_until now x)"

text \<open>\<open>clock i\<close> are the readings of the clock for the \<open>i\<close>th entry: in \<^verbatim>\<open>time.Until\<close> and in \<^verbatim>\<open>Put\<close>.\<close>

fun restore_entries :: "'e KVEngine \<Rightarrow> (nat \<Rightarrow> time \<times> time) \<Rightarrow> nat \<Rightarrow> snapshotEntry list \<Rightarrow> 'e \<Rightarrow> sm_error option \<times> 'e" where
  "restore_entries E clock i [] e = (None, e)"
| "restore_entries E clock i (s # ss) e =
     (let ttl = entry_ttl (fst (clock i)) s
      in if seExpiresAt s \<noteq> None \<and> ttl \<le> 0 then restore_entries E clock (i + 1) ss e
         else case ePut E e (snd (clock i)) (seKey s) (seValue s) (seConsistency s) ttl of
             (Some err, e') \<Rightarrow> (Some (EngineError err), e')
           | (None, e') \<Rightarrow> restore_entries E clock (i + 1) ss e')"

definition decode_entries :: "bytes \<Rightarrow> snapshotEntry list option" where
  "decode_entries data =
     (case json_parse (bytes_str data) of
        Some (JArr js) \<Rightarrow> collect decode_entry js
      | Some JNull \<Rightarrow> Some []
      | _ \<Rightarrow> None)"

definition sm_Restore :: "'e KVEngine \<Rightarrow> (nat \<Rightarrow> time \<times> time) \<Rightarrow> bytes \<Rightarrow> 'e \<Rightarrow> sm_error option \<times> 'e" where
  "sm_Restore E clock data e =
     (case decode_entries data of None \<Rightarrow> (Some DecodeError, e) | Some ss \<Rightarrow> restore_entries E clock 0 ss e)"

section \<open>Codecs\<close>

definition command_ok :: "Command \<Rightarrow> bool" where
  "command_ok c \<longleftrightarrow> cOp c < 256 \<and> ascii (cKey c) \<and> ascii (cConsistency c) \<and> in_s64 (cTTLSeconds c)"

lemma ascii_field_names [simp]:
  "ascii ''op''" "ascii ''key''" "ascii ''value''" "ascii ''consistency''" "ascii ''ttl_seconds''" "ascii ''expires_at''"
  by (simp_all add: code_def)

lemma decode_encode_command:
  assumes "command_ok c"
  shows "DecodeCommand (EncodeCommand c) = Some c"
proof -
  let ?ms = "[(''op'', JNum (print_nat (cOp c))), (''key'', JStr (cKey c))]
       @ (if cValue c = [] then [] else [(''value'', JStr (b64_encode (cValue c)))])
       @ (if cConsistency c = '''' then [] else [(''consistency'', JStr (cConsistency c))])
       @ (if cTTLSeconds c = 0 then [] else [(''ttl_seconds'', JNum (print_int (cTTLSeconds c)))])"
  have "json_ok (JObj ?ms)" using assms by (simp add: command_ok_def del: ascii_simps)
  then have p: "json_parse (json_print (JObj ?ms)) = Some (JObj ?ms)" by (rule json_parse_print)
  have "obj_values ''op'' ?ms = [JNum (print_nat (cOp c))]" "obj_values ''key'' ?ms = [JStr (cKey c)]"
    "obj_values ''value'' ?ms = (if cValue c = [] then [] else [JStr (b64_encode (cValue c))])"
    "obj_values ''consistency'' ?ms = (if cConsistency c = '''' then [] else [JStr (cConsistency c)])"
    "obj_values ''ttl_seconds'' ?ms = (if cTTLSeconds c = 0 then [] else [JNum (print_int (cTTLSeconds c))])"
    unfolding obj_values_append by (simp_all add: obj_values_Cons)
  then have f: "decode_field (dec_uint 8) 0 ''op'' ?ms = Some (cOp c)" "decode_field dec_string '''' ''key'' ?ms = Some (cKey c)"
    "decode_field dec_bytes [] ''value'' ?ms = Some (cValue c)" "decode_field dec_string '''' ''consistency'' ?ms = Some (cConsistency c)"
    "decode_field dec_int64 0 ''ttl_seconds'' ?ms = Some (cTTLSeconds c)"
    using assms by (simp_all only: decode_field_def) (simp_all add: command_ok_def)
  show ?thesis unfolding DecodeCommand_def EncodeCommand_def bytes_str_str_bytes p by (simp add: f del: append.simps)
qed

lemma ascii_pad [simp]: "ascii (pad w n)"
proof (induction w arbitrary: n)
  case (Suc w)
  have "n mod 10 < 10" by simp
  then have "code (chr (48 + n mod 10)) < 128" by (simp add: code_def chr_def of_char_of)
  then show ?case using Suc by (simp only: pad.simps ascii_simps)
qed simp

lemma ascii_trim: "ascii s \<Longrightarrow> ascii (trim_zeros s)"
  by (auto simp: ascii_def trim_zeros_def list_all_iff dest!: set_dropWhileD)

lemma ascii_print_time: "print_time t = Some s \<Longrightarrow> ascii s"
proof -
  assume p: "print_time t = Some s"
  have c: "code CHR ''-'' < 128" "code CHR ''T'' < 128" "code CHR '':'' < 128" "code CHR ''.'' < 128" "code CHR ''Z'' < 128"
    by (simp_all add: code_def)
  show ?thesis using p c ascii_trim [OF ascii_pad [of 9]]
    unfolding print_time_def Let_def by (auto split: if_splits prod.splits simp del: pad.simps)
qed

definition entry_wf :: "snapshotEntry \<Rightarrow> bool" where
  "entry_wf s \<longleftrightarrow> ascii (seKey s) \<and> ascii (seConsistency s) \<and> seExpiresAt s \<noteq> Some zero_time"

lemma decode_encode_entry:
  assumes "encode_entry s = Some j" and "entry_wf s"
  shows "json_ok j \<and> decode_entry j = Some s"
proof -
  obtain x where x: "print_time (instant (seExpiresAt s)) = Some x" using assms(1) by (auto simp: encode_entry_def)
  let ?ms = "[(''key'', JStr (seKey s)), (''value'', JStr (b64_encode (seValue s))), (''consistency'', JStr (seConsistency s)), (''expires_at'', JStr x)]"
  have j: "j = JObj ?ms" using assms(1) by (simp add: encode_entry_def x)
  have "json_ok (JObj ?ms)" using assms(2) ascii_print_time [OF x] by (simp add: entry_wf_def del: ascii_simps)
  moreover have "obj_values ''key'' ?ms = [JStr (seKey s)]" "obj_values ''value'' ?ms = [JStr (b64_encode (seValue s))]"
    "obj_values ''consistency'' ?ms = [JStr (seConsistency s)]" "obj_values ''expires_at'' ?ms = [JStr x]"
    by (simp_all add: obj_values_Cons)
  then have "decode_field dec_string '''' ''key'' ?ms = Some (seKey s)" "decode_field dec_bytes [] ''value'' ?ms = Some (seValue s)"
    "decode_field dec_string '''' ''consistency'' ?ms = Some (seConsistency s)"
    "decode_field dec_time zero_time ''expires_at'' ?ms = Some (instant (seExpiresAt s))"
    using parse_print_time [OF x] by (simp_all add: decode_field_one)
  moreover have "of_instant (instant (seExpiresAt s)) = seExpiresAt s"
    using assms(2) by (auto simp: of_instant_def instant_def entry_wf_def split: option.splits)
  ultimately show ?thesis by (simp add: j)
qed

lemma collect_inverse:
  assumes "collect f xs = Some ys" and "\<And>x y. x \<in> set xs \<Longrightarrow> f x = Some y \<Longrightarrow> P y \<and> g y = Some x"
  shows "list_all P ys \<and> collect g ys = Some xs"
  using assms
proof (induction xs arbitrary: ys)
  case (Cons x xs)
  obtain y zs where "f x = Some y" "collect f xs = Some zs" "ys = y # zs"
    using Cons.prems(1) by (auto split: option.splits)
  moreover have "list_all P zs \<and> collect g zs = Some xs"
    by (rule Cons.IH [OF calculation(2) Cons.prems(2)]) simp_all
  ultimately show ?case using Cons.prems(2) [of x y] by simp
qed simp

lemma decode_entries_encode:
  assumes "collect encode_entry ss = Some js" and "list_all entry_wf ss"
  shows "decode_entries (str_bytes (json_print (JArr js))) = Some ss"
proof -
  have "list_all json_ok js \<and> collect decode_entry js = Some ss"
    by (rule collect_inverse [OF assms(1)]) (use assms(2) decode_encode_entry in \<open>auto simp: list_all_iff\<close>)
  moreover from this have "json_parse (json_print (JArr js)) = Some (JArr js)" by (intro json_parse_print) simp
  ultimately show ?thesis by (simp add: decode_entries_def)
qed

section \<open>What applying and restoring do to an engine\<close>

text \<open>The engine's bounds at every write of a restore.\<close>

fun fits_restore ::
  "('e \<Rightarrow> time \<Rightarrow> string \<Rightarrow> bytes \<Rightarrow> Consistency \<Rightarrow> int \<Rightarrow> bool) \<Rightarrow> 'e KVEngine \<Rightarrow> (nat \<Rightarrow> time \<times> time) \<Rightarrow> nat \<Rightarrow> snapshotEntry list \<Rightarrow> 'e \<Rightarrow> bool" where
  "fits_restore fp E clock i [] e \<longleftrightarrow> True"
| "fits_restore fp E clock i (s # ss) e \<longleftrightarrow>
     (let ttl = entry_ttl (fst (clock i)) s
      in if seExpiresAt s \<noteq> None \<and> ttl \<le> 0 then fits_restore fp E clock (i + 1) ss e
         else fp e (snd (clock i)) (seKey s) (seValue s) (seConsistency s) ttl
           \<and> fits_restore fp E clock (i + 1) ss (snd (ePut E e (snd (clock i)) (seKey s) (seValue s) (seConsistency s) ttl)))"

text \<open>What a restore at \<open>now\<close> writes for a key: nothing if the entry has expired.\<close>

definition restored :: "time \<Rightarrow> snapshotEntry list \<Rightarrow> string \<Rightarrow> seen option" where
  "restored now ss k =
     (case map_of (map (\<lambda>s. (seKey s, s)) ss) k of
        None \<Rightarrow> None
      | Some s \<Rightarrow> if (case seExpiresAt s of None \<Rightarrow> False | Some x \<Rightarrow> x \<le> now) then None
                  else Some (seValue s, seConsistency s, seExpiresAt s))"

definition expiry_near :: "time \<Rightarrow> snapshotEntry \<Rightarrow> bool" where
  "expiry_near now s \<longleftrightarrow> (case seExpiresAt s of None \<Rightarrow> True | Some x \<Rightarrow> \<bar>x - now\<bar> < 2 ^ 63)"

lemma restore_ttl:
  assumes "expiry_near now s"
  shows "(seExpiresAt s \<noteq> None \<and> entry_ttl now s \<le> 0) \<longleftrightarrow> (case seExpiresAt s of None \<Rightarrow> False | Some x \<Rightarrow> x \<le> now)"
    and "\<not> (case seExpiresAt s of None \<Rightarrow> False | Some x \<Rightarrow> x \<le> now) \<Longrightarrow>
      seen (new_entry v c now (entry_ttl now s) ver) = (v, c, seExpiresAt s)"
  using assms by (auto simp: expiry_near_def entry_ttl_def time_until_def Let_def seen_def new_entry_def expires_at_def split: option.splits)

context kv_engine
begin

lemma restore_view:
  assumes "inv e" and "fits_restore fits_put \<lparr>eGet = get, ePut = put, eDelete = del, eScan = scan\<rparr> (\<lambda>_. (now, now)) i ss e"
    and "distinct (map seKey ss)" and "list_all (expiry_near now) ss"
  shows "\<exists>e'. restore_entries \<lparr>eGet = get, ePut = put, eDelete = del, eScan = scan\<rparr> (\<lambda>_. (now, now)) i ss e = (None, e') \<and> inv e'
    \<and> (\<forall>k. map_option seen (view e' now k) =
         (case restored now ss k of None \<Rightarrow> map_option seen (view e now k) | Some x \<Rightarrow> Some x))"
  using assms
proof (induction ss arbitrary: i e)
  case Nil
  then show ?case by (simp add: restored_def)
next
  case (Cons s ss)
  let ?E = "\<lparr>eGet = get, ePut = put, eDelete = del, eScan = scan\<rparr>"
  let ?ttl = "entry_ttl now s"
  let ?old = "case seExpiresAt s of None \<Rightarrow> False | Some x \<Rightarrow> x \<le> now"
  have near: "expiry_near now s" and d: "distinct (map seKey ss)" "seKey s \<notin> seKey ` set ss" and n: "list_all (expiry_near now) ss"
    using Cons.prems(3,4) by simp_all
  note ttl = restore_ttl [OF near]
  have absent: "restored now ss (seKey s) = None"
  proof -
    have "map_of (map (\<lambda>s. (seKey s, s)) ss) (seKey s) = None" using d(2) by (simp add: map_of_eq_None_iff image_image)
    then show ?thesis by (simp add: restored_def)
  qed
  have split: "restored now (s # ss) k =
      (if k = seKey s then (if ?old then None else Some (seValue s, seConsistency s, seExpiresAt s)) else restored now ss k)" for k
    by (simp add: restored_def)
  show ?case
  proof (cases ?old)
    case True
    then have skip: "seExpiresAt s \<noteq> None \<and> ?ttl \<le> 0" using ttl(1) by blast
    have "fits_restore fits_put ?E (\<lambda>_. (now, now)) (i + 1) ss e" using Cons.prems(2) skip by (simp add: Let_def)
    from Cons.IH [OF Cons.prems(1) this d(1) n] obtain e' where
      "restore_entries ?E (\<lambda>_. (now, now)) (i + 1) ss e = (None, e')" "inv e'"
      "\<forall>k. map_option seen (view e' now k) = (case restored now ss k of None \<Rightarrow> map_option seen (view e now k) | Some x \<Rightarrow> Some x)"
      by blast
    then show ?thesis using skip True absent by (intro exI [of _ e']) (simp add: Let_def split)
  next
    case False
    then have keep: "\<not> (seExpiresAt s \<noteq> None \<and> ?ttl \<le> 0)" using ttl(1) by blast
    have f: "fits_put e now (seKey s) (seValue s) (seConsistency s) ?ttl"
      and fr: "fits_restore fits_put ?E (\<lambda>_. (now, now)) (i + 1) ss (snd (put e now (seKey s) (seValue s) (seConsistency s) ?ttl))"
      using Cons.prems(2) keep unfolding fits_restore.simps Let_def fst_conv snd_conv by (simp_all only: if_False KVEngine.simps)
    obtain e1 ver where e1: "put e now (seKey s) (seValue s) (seConsistency s) ?ttl = (None, e1)" "inv e1"
      "view e1 now = (view e now)(seKey s \<mapsto> new_entry (seValue s) (seConsistency s) now ?ttl ver)"
      using put_view [OF Cons.prems(1) f] by blast
    from Cons.IH [OF e1(2) _ d(1) n, of "i + 1"] fr obtain e' where
      e': "restore_entries ?E (\<lambda>_. (now, now)) (i + 1) ss e1 = (None, e')" "inv e'"
      "\<forall>k. map_option seen (view e' now k) = (case restored now ss k of None \<Rightarrow> map_option seen (view e1 now k) | Some x \<Rightarrow> Some x)"
      by (auto simp: e1(1))
    have r: "restore_entries ?E (\<lambda>_. (now, now)) i (s # ss) e = (None, e')"
      using keep e1(1) e'(1) unfolding restore_entries.simps Let_def fst_conv snd_conv by (simp only: if_False KVEngine.simps option.simps prod.simps)
    have "map_option seen (view e' now k) = (case restored now (s # ss) k of None \<Rightarrow> map_option seen (view e now k) | Some x \<Rightarrow> Some x)" for k
      using e'(3) False absent ttl(2) [OF False] by (cases "k = seKey s") (simp_all add: split e1(3) split: option.splits)
    then show ?thesis using r e'(2) by blast
  qed
qed

text \<open>\<^verbatim>\<open>Apply\<close>: a set writes the entry, a delete removes the key and forgives an absent one.\<close>

lemma apply_set:
  assumes "inv e" and "command_ok c" and "cOp c = CommandSet"
    and "fits_put e now (cKey c) (cValue c) (cConsistency c) (ttl_duration (cTTLSeconds c))"
  shows "\<exists>e' ver. sm_Apply \<lparr>eGet = get, ePut = put, eDelete = del, eScan = scan\<rparr> now (EncodeCommand c) e = (None, e') \<and> inv e'
    \<and> view e' now = (view e now)(cKey c \<mapsto> new_entry (cValue c) (cConsistency c) now (ttl_duration (cTTLSeconds c)) ver)"
  using put_view [OF assms(1,4)] by (auto simp: sm_Apply_def decode_encode_command [OF assms(2)] assms(3))

lemma apply_delete:
  assumes "inv e" and "command_ok c" and "cOp c = CommandDelete" and "fits_del e now"
  shows "\<exists>e'. sm_Apply \<lparr>eGet = get, ePut = put, eDelete = del, eScan = scan\<rparr> now (EncodeCommand c) e = (None, e') \<and> inv e'
    \<and> view e' now = (view e now)(cKey c := None)"
proof -
  have o: "cOp c \<noteq> CommandSet" by (simp add: assms(3) CommandSet_def CommandDelete_def)
  show ?thesis
  proof (cases "view e now (cKey c)")
    case None
    then have "(view e now)(cKey c := None) = view e now" by auto
    then show ?thesis using del_absent [OF assms(1) None] assms(1) o
      by (simp add: sm_Apply_def decode_encode_command [OF assms(2)] assms(3))
  next
    case (Some x)
    then show ?thesis using del_present [OF assms(1,4) Some] o
      by (auto simp: sm_Apply_def decode_encode_command [OF assms(2)] assms(3))
  qed
qed

end

section \<open>Runs of commands\<close>

text \<open>What a client can see of an engine: value, consistency and expiry of every live key.\<close>

definition alive :: "time \<Rightarrow> (string \<rightharpoonup> seen) \<Rightarrow> (string \<rightharpoonup> seen)" where
  "alive t m = (\<lambda>k. case m k of
       None \<Rightarrow> None
     | Some s \<Rightarrow> (case snd (snd s) of None \<Rightarrow> Some s | Some x \<Rightarrow> if t > x then None else Some s))"

definition cmd_effect :: "time \<Rightarrow> Command \<Rightarrow> (string \<rightharpoonup> seen) \<Rightarrow> (string \<rightharpoonup> seen)" where
  "cmd_effect t c m =
     (if cOp c = CommandSet then m(cKey c \<mapsto> (cValue c, cConsistency c, expires_at t (ttl_duration (cTTLSeconds c))))
      else m(cKey c := None))"

definition effects :: "(time \<times> Command) list \<Rightarrow> (string \<rightharpoonup> seen) \<Rightarrow> (string \<rightharpoonup> seen)" where
  "effects tcs m = fold (\<lambda>(t, c). cmd_effect t c) tcs m"

fun sm_run :: "'e KVEngine \<Rightarrow> (time \<times> Command) list \<Rightarrow> 'e \<Rightarrow> sm_error option list \<times> 'e" where
  "sm_run E [] e = ([], e)"
| "sm_run E ((t, c) # tcs) e =
     (case sm_Apply E t (EncodeCommand c) e of (err, e1) \<Rightarrow> case sm_run E tcs e1 of (errs, e2) \<Rightarrow> (err # errs, e2))"

text \<open>Well-formed commands, and the engine's bounds at every one of them.\<close>

definition cmd_wf :: "Command \<Rightarrow> bool" where
  "cmd_wf c \<longleftrightarrow> command_ok c \<and> (cOp c = CommandSet \<or> cOp c = CommandDelete)"

fun sm_fits ::
  "('e \<Rightarrow> time \<Rightarrow> string \<Rightarrow> bytes \<Rightarrow> Consistency \<Rightarrow> int \<Rightarrow> bool) \<Rightarrow> ('e \<Rightarrow> time \<Rightarrow> bool) \<Rightarrow> 'e KVEngine \<Rightarrow> (time \<times> Command) list \<Rightarrow> 'e \<Rightarrow> bool" where
  "sm_fits fp fd E [] e \<longleftrightarrow> True"
| "sm_fits fp fd E ((t, c) # tcs) e \<longleftrightarrow> cmd_wf c
     \<and> (if cOp c = CommandSet then fp e t (cKey c) (cValue c) (cConsistency c) (ttl_duration (cTTLSeconds c)) else fd e t)
     \<and> sm_fits fp fd E tcs (snd (sm_Apply E t (EncodeCommand c) e))"

lemma alive_idem: "t \<le> t' \<Longrightarrow> alive t' (alive t m) = alive t' m"
  by (auto simp: alive_def fun_eq_iff split: option.splits)

lemma alive_effect: "t \<le> t' \<Longrightarrow> alive t' (cmd_effect t c (alive t m)) = alive t' (cmd_effect t c m)"
  by (auto simp: alive_def cmd_effect_def fun_eq_iff split: option.splits)

lemma alive_effects: "sorted (t # map fst tcs) \<Longrightarrow> \<forall>u \<in> fst ` set tcs. u \<le> t' \<Longrightarrow> t \<le> t' \<Longrightarrow>
  alive t' (effects tcs (alive t m)) = alive t' (effects tcs m)"
proof (induction tcs arbitrary: t m)
  case Nil
  then show ?case by (simp add: effects_def alive_idem)
next
  case (Cons tc tcs)
  obtain u c where tc: "tc = (u, c)" by (cases tc)
  have s: "t \<le> u" "sorted (u # map fst tcs)" "u \<le> t'" "\<forall>u \<in> fst ` set tcs. u \<le> t'" using Cons.prems by (auto simp: tc)
  have "alive t' (effects (tc # tcs) (alive t m)) = alive t' (effects tcs (cmd_effect u c (alive t m)))" by (simp add: effects_def tc)
  also have "\<dots> = alive t' (effects tcs (alive u (cmd_effect u c (alive t m))))" using Cons.IH [OF s(2,4,3)] by simp
  also have "alive u (cmd_effect u c (alive t m)) = alive u (cmd_effect u c m)"
    using s(1) by (auto simp: alive_def cmd_effect_def fun_eq_iff split: option.splits)
  also have "alive t' (effects tcs (alive u (cmd_effect u c m))) = alive t' (effects tcs (cmd_effect u c m))"
    using Cons.IH [OF s(2,4,3)] by simp
  finally show ?case by (simp add: effects_def tc)
qed

context kv_engine
begin

lemma seen_aging:
  assumes "inv e" and "t \<le> t'"
  shows "map_option seen \<circ> view e t' = alive t' (map_option seen \<circ> view e t)"
proof
  fix k
  show "(map_option seen \<circ> view e t') k = alive t' (map_option seen \<circ> view e t) k"
    using view_SomeD [OF assms(1), of t k] view_aging [OF assms]
    by (cases "view e t k") (auto simp: live_def alive_def seen_def Expired_def split: option.splits)
qed

lemma apply_effect:
  assumes "inv e" and "cmd_wf c"
    and "if cOp c = CommandSet then fits_put e t (cKey c) (cValue c) (cConsistency c) (ttl_duration (cTTLSeconds c)) else fits_del e t"
  shows "\<exists>e'. sm_Apply \<lparr>eGet = get, ePut = put, eDelete = del, eScan = scan\<rparr> t (EncodeCommand c) e = (None, e') \<and> inv e'
    \<and> map_option seen \<circ> view e' t = cmd_effect t c (map_option seen \<circ> view e t)"
proof (cases "cOp c = CommandSet")
  case True
  have "command_ok c" using assms(2) by (simp add: cmd_wf_def)
  from apply_set [OF assms(1) this True, of t] assms(3) True obtain e' ver where
    "sm_Apply \<lparr>eGet = get, ePut = put, eDelete = del, eScan = scan\<rparr> t (EncodeCommand c) e = (None, e')" "inv e'"
    "view e' t = (view e t)(cKey c \<mapsto> new_entry (cValue c) (cConsistency c) t (ttl_duration (cTTLSeconds c)) ver)" by auto
  then show ?thesis using True by (intro exI [of _ e']) (auto simp: cmd_effect_def fun_eq_iff seen_def new_entry_def)
next
  case False
  have "command_ok c" "cOp c = CommandDelete" using assms(2) False by (simp_all add: cmd_wf_def)
  from apply_delete [OF assms(1) this, of t] assms(3) False obtain e' where
    "sm_Apply \<lparr>eGet = get, ePut = put, eDelete = del, eScan = scan\<rparr> t (EncodeCommand c) e = (None, e')" "inv e'"
    "view e' t = (view e t)(cKey c := None)" by auto
  then show ?thesis using False by (intro exI [of _ e']) (auto simp: cmd_effect_def fun_eq_iff)
qed

lemma run_effects:
  assumes "inv e" and "sm_fits fits_put fits_del \<lparr>eGet = get, ePut = put, eDelete = del, eScan = scan\<rparr> tcs e"
    and "sorted (t0 # map fst tcs)" and "\<forall>u \<in> fst ` set tcs. u \<le> t" and "t0 \<le> t"
  shows "\<exists>e'. sm_run \<lparr>eGet = get, ePut = put, eDelete = del, eScan = scan\<rparr> tcs e = (replicate (length tcs) None, e') \<and> inv e'
    \<and> map_option seen \<circ> view e' t = alive t (effects tcs (map_option seen \<circ> view e t0))"
  using assms
proof (induction tcs arbitrary: e t0)
  case Nil
  then show ?case using seen_aging [of e t0 t] by (simp add: effects_def comp_def)
next
  case (Cons tc tcs)
  let ?E = "\<lparr>eGet = get, ePut = put, eDelete = del, eScan = scan\<rparr>"
  obtain u c where tc: "tc = (u, c)" by (cases tc)
  have s: "t0 \<le> u" "sorted (u # map fst tcs)" "u \<le> t" "\<forall>u \<in> fst ` set tcs. u \<le> t" using Cons.prems(3,4) by (auto simp: tc)
  obtain e1 where e1: "sm_Apply ?E u (EncodeCommand c) e = (None, e1)" "inv e1"
    "map_option seen \<circ> view e1 u = cmd_effect u c (map_option seen \<circ> view e u)"
    using apply_effect [OF Cons.prems(1), of c u] Cons.prems(2) by (auto simp: tc)
  have "sm_fits fits_put fits_del ?E tcs e1" using Cons.prems(2) e1(1) by (simp add: tc)
  from Cons.IH [OF e1(2) this s(2,4,3)] obtain e' where e': "sm_run ?E tcs e1 = (replicate (length tcs) None, e')" "inv e'"
    "map_option seen \<circ> view e' t = alive t (effects tcs (map_option seen \<circ> view e1 u))" by blast
  let ?m = "map_option seen \<circ> view e t0"
  have "alive t (effects tcs (map_option seen \<circ> view e1 u)) = alive t (effects tcs (cmd_effect u c (alive u ?m)))"
    unfolding e1(3) seen_aging [OF Cons.prems(1) s(1)] ..
  also have "\<dots> = alive t (effects ((u, c) # tcs) (alive u ?m))" by (simp add: effects_def)
  also have "\<dots> = alive t (effects ((u, c) # tcs) ?m)" using alive_effects [of u "(u, c) # tcs" t ?m] s by simp
  finally show ?case using e1(1) e' by (simp add: tc comp_def)
qed

end

end
