(* ===== verification/State_Props.thy ===== *)
theory State_Props
  imports State_Machine Lsm_Props Raft_Props
begin

text \<open>
  The state machine over the LSM engine: snapshots, replay, and the way of a committed command
  from the Raft log into the engine.
\<close>

section \<open>The state machine of a node\<close>

definition lsm_ops :: "Engine KVEngine" where
  "lsm_ops = \<lparr>eGet = lsm_Get, ePut = lsm_Put, eDelete = lsm_Delete, eScan = lsm_Scan\<rparr>"

lemmas lsm_run_effects = lsm.run_effects [folded lsm_ops_def]
lemmas lsm_apply_effect = lsm.apply_effect [folded lsm_ops_def]
lemmas lsm_restore_view = lsm.restore_view [folded lsm_ops_def]

text \<open>
  The state machine that \<^verbatim>\<open>cmd/node\<close> gives to the Raft node.  Its state is the engine with the number of
  clock readings made so far; \<open>clock\<close> is the sequence of the readings.
\<close>

definition RaftStateMachine :: "'e KVEngine \<Rightarrow> (nat \<Rightarrow> time) \<Rightarrow> ('e \<times> nat) StateMachine" where
  "RaftStateMachine E clock =
     \<lparr>Apply = (\<lambda>(e, i) command. case sm_Apply E (clock i) command e of (err, e') \<Rightarrow> (err = None, (e', i + 1))),
      Snapshot = (\<lambda>(e, i). sm_Snapshot E (clock i) e),
      Restore = (\<lambda>(e, i) data.
        let n = (case decode_entries data of None \<Rightarrow> 0 | Some ss \<Rightarrow> length ss)
        in case sm_Restore E (\<lambda>j. (clock (i + 2 * j), clock (i + 2 * j + 1))) data e of
             (err, e') \<Rightarrow> (err = None, (e', i + 2 * n)))\<rparr>"

section \<open>Snapshots\<close>

text \<open>The entries of a snapshot: what is live, with times that RFC 3339 and 64 bits can hold.\<close>

definition snapshot_ok :: "time \<Rightarrow> (string \<rightharpoonup> Entry) \<Rightarrow> bool" where
  "snapshot_ok now m \<longleftrightarrow> (\<forall>k e. m k = Some e \<longrightarrow> ascii k \<and> ascii (Consistency e)
     \<and> (case ExpiresAt e of None \<Rightarrow> True | Some x \<Rightarrow> x \<noteq> zero_time \<and> \<bar>x - now\<bar> < 2 ^ 63))"

lemma snapshot_entries_set:
  "set (snapshot_entries m) = (\<lambda>(k, e). \<lparr>seKey = k, seValue = Value e, seConsistency = Consistency e, seExpiresAt = ExpiresAt e\<rparr>) ` set m"
  by (simp add: snapshot_entries_def)

lemma snapshot_entries_distinct: "distinct (map fst m) \<Longrightarrow> distinct (map seKey (snapshot_entries m))"
proof -
  assume "distinct (map fst m)"
  then have "distinct (map seKey (map (\<lambda>(k, e). \<lparr>seKey = k, seValue = Value e, seConsistency = Consistency e, seExpiresAt = ExpiresAt e\<rparr>) m))"
    by (simp add: comp_def case_prod_beta)
  then show ?thesis unfolding snapshot_entries_def distinct_map [of seKey] by (simp only: distinct_sort set_sort simp_thms)
qed

lemma snapshot_lookup:
  assumes "distinct (map fst m)"
  shows "map_of (map (\<lambda>s. (seKey s, s)) (snapshot_entries m)) k =
    map_option (\<lambda>e. \<lparr>seKey = k, seValue = Value e, seConsistency = Consistency e, seExpiresAt = ExpiresAt e\<rparr>) (map_of m k)"
proof -
  let ?l = "map (\<lambda>s. (seKey s, s)) (snapshot_entries m)"
  have d: "distinct (map fst ?l)" using snapshot_entries_distinct [OF assms] by (simp add: comp_def)
  show ?thesis
  proof (cases "map_of m k")
    case None
    then have "k \<notin> fst ` set m" by (simp add: map_of_eq_None_iff)
    then have "map_of ?l k = None" by (force simp: map_of_eq_None_iff snapshot_entries_set)
    then show ?thesis using None by simp
  next
    case (Some e)
    then have "(k, \<lparr>seKey = k, seValue = Value e, seConsistency = Consistency e, seExpiresAt = ExpiresAt e\<rparr>) \<in> set ?l"
      using map_of_SomeD [OF Some] by (force simp: snapshot_entries_set)
    then show ?thesis using Some d by simp
  qed
qed

lemma snapshot_entries_ok:
  assumes "distinct (map fst m)" and "snapshot_ok now (map_of m)"
  shows "list_all entry_wf (snapshot_entries m)" "list_all (expiry_near now) (snapshot_entries m)"
proof -
  have "entry_wf s \<and> expiry_near now s" if mem: "s \<in> set (snapshot_entries m)" for s
  proof -
    obtain k e where "(k, e) \<in> set m" and s: "s = \<lparr>seKey = k, seValue = Value e, seConsistency = Consistency e, seExpiresAt = ExpiresAt e\<rparr>"
      using mem by (auto simp: snapshot_entries_set)
    then have "map_of m k = Some e" using assms(1) by simp
    then show ?thesis using assms(2) unfolding snapshot_ok_def s
      by (auto simp: entry_wf_def expiry_near_def split: option.splits)
  qed
  then show "list_all entry_wf (snapshot_entries m)" "list_all (expiry_near now) (snapshot_entries m)" by (simp_all add: list_all_iff)
qed


section \<open>From the Raft log to the engine\<close>

lemma apply_commands_run:
  assumes "map eCommand es = map EncodeCommand cmds"
  shows "apply_commands (RaftStateMachine E clock) es (e, i) =
    (snd (sm_run E (zip (map clock [i..<i + length cmds]) cmds) e), i + length cmds)"
  using assms
proof (induction cmds arbitrary: es e i)
  case Nil
  then show ?case by (simp add: apply_commands_def)
next
  case (Cons c cmds)
  obtain x es' where es: "es = x # es'" "eCommand x = EncodeCommand c" "map eCommand es' = map EncodeCommand cmds"
    using Cons.prems by auto
  have u: "[i..<i + length (c # cmds)] = i # [i + 1..<i + 1 + length cmds]" by (subst upt_conv_Cons) simp_all
  obtain err e1 where a: "sm_Apply E (clock i) (EncodeCommand c) e = (err, e1)" by (cases "sm_Apply E (clock i) (EncodeCommand c) e")
  have "apply_commands (RaftStateMachine E clock) es (e, i) = apply_commands (RaftStateMachine E clock) es' (e1, i + 1)"
    by (simp add: apply_commands_def es(1,2) RaftStateMachine_def a)
  also have "\<dots> = (snd (sm_run E (zip (map clock [i + 1..<i + 1 + length cmds]) cmds) e1), i + 1 + length cmds)"
    by (rule Cons.IH [OF es(3)])
  finally show ?case unfolding u by (simp add: a case_prod_beta)
qed

text \<open>
  C28: Applying the committed entries of a Raft node whose state machine is the LSM engine: the apply
  loop ends without panic with \<^verbatim>\<open>lastApplied\<close> at the commit index, every command succeeds, and from
  then on the engine shows exactly the effects of the committed commands, in log order, on what
  it showed before.
\<close>

theorem committed_commands_reach_engine:
  assumes "log_ok n" and "commit_ok n" and "stateMachine n = (e, i)" and "lsm_inv e"
    and "map eCommand (pending_entries n) = map EncodeCommand cmds" and "mono clock"
    and "sm_fits lsm_fits_put lsm_fits_del lsm_ops (zip (map clock [i..<i + length cmds]) cmds) e"
    and "clock (i + length cmds) \<le> t"
  shows "\<exists>n' e'. applyPending S (RaftStateMachine lsm_ops clock) n = Some n' \<and> lastApplied n' = commitIndex n
    \<and> stateMachine n' = (e', i + length cmds) \<and> lsm_inv e'
    \<and> map_option seen \<circ> lsm_view e' t =
        alive t (effects (zip (map clock [i..<i + length cmds]) cmds) (map_option seen \<circ> lsm_view e (clock i)))"
proof -
  let ?M = "RaftStateMachine lsm_ops clock" and ?tcs = "zip (map clock [i..<i + length cmds]) cmds"
  let ?n1 = "n\<lparr>applyNotify := False, lastApplied := commitIndex n, stateMachine := apply_commands ?M (pending_entries n) (stateMachine n)\<rparr>"
  have ok0: "log_ok (n\<lparr>applyNotify := False\<rparr>)" "commit_ok (n\<lparr>applyNotify := False\<rparr>)" using assms(1,2) by (auto simp: log_ok_def commit_ok_def)
  have all: "apply_all ?M (n\<lparr>applyNotify := False\<rparr>) = Some ?n1" using apply_all_ok [OF ok0] by (simp add: pending_entries_def)
  have ok1: "log_ok ?n1" "commit_ok ?n1" using assms(1,2) by (auto simp: log_ok_def commit_ok_def)
  obtain n' where n': "applyPending S ?M n = Some n'" "lastApplied n' = commitIndex n"
    "stateMachine n' = (snd (sm_run lsm_ops ?tcs e), i + length cmds)"
    using maybeSnapshot_ok [OF ok1, of S ?M] apply_commands_run [OF assms(5), of lsm_ops clock e i] assms(3)
    by (auto simp: applyPending_def all)
  have le: "clock j \<le> clock k" if "j \<le> k" for j k using assms(6) that by (rule monoD)
  have "sorted_wrt (\<lambda>x y. clock x \<le> clock y) [i..<i + length cmds]" by (rule sorted_wrt_mono_rel [OF _ sorted_upt]) (rule le)
  then have s1: "sorted (clock i # map fst ?tcs)" by (simp add: sorted_map le)
  have "u \<le> t" if u: "u \<in> set (map clock [i..<i + length cmds])" for u
  proof -
    obtain j where "u = clock j" "j \<le> i + length cmds" using u by auto
    then show ?thesis using le [of j "i + length cmds"] assms(8) by simp
  qed
  then have s2: "\<forall>u \<in> fst ` set ?tcs. u \<le> t" by (auto dest: set_zip_leftD)
  have s3: "clock i \<le> t" using le [of i "i + length cmds"] assms(8) by simp
  note s = s1 s2 s3
  from lsm_run_effects [OF assms(4,7) s] obtain e' where
    "sm_run lsm_ops ?tcs e = (replicate (length ?tcs) None, e')" "lsm_inv e'"
    "map_option seen \<circ> lsm_view e' t = alive t (effects ?tcs (map_option seen \<circ> lsm_view e (clock i)))"
    by blast
  then show ?thesis using n' by (intro exI [of _ n'] exI [of _ e']) simp
qed

section \<open>Replay\<close>

text \<open>The last command for a key decides, whenever no command has a time to live.\<close>

definition last_write :: "Command \<Rightarrow> string \<times> seen option" where
  "last_write c = (cKey c, if cOp c = CommandSet then Some (cValue c, cConsistency c, None) else None)"

lemma effects_last:
  assumes "list_all (\<lambda>c. cTTLSeconds c = 0) cmds" and "length ts = length cmds"
  shows "effects (zip ts cmds) m k = (case map_of (rev (map last_write cmds)) k of None \<Rightarrow> m k | Some r \<Rightarrow> r)"
  using assms
proof (induction cmds arbitrary: ts m)
  case Nil
  then show ?case by (simp add: effects_def)
next
  case (Cons c cmds)
  obtain t ts' where ts: "ts = t # ts'" "length ts' = length cmds" using Cons.prems(2) by (cases ts) auto
  have ttl: "expires_at t (ttl_duration (cTTLSeconds c)) = None" using Cons.prems(1) by (simp add: expires_at_def ttl_duration_def s64_def)
  have "effects (zip ts (c # cmds)) m k = effects (zip ts' cmds) (cmd_effect t c m) k" by (simp add: ts(1) effects_def)
  also have "\<dots> = (case map_of (rev (map last_write cmds)) k of None \<Rightarrow> cmd_effect t c m k | Some r \<Rightarrow> r)"
    using Cons.IH [of ts'] Cons.prems(1) ts(2) by simp
  finally show ?case
    by (cases "map_of (rev (map last_write cmds)) k") (simp_all add: map_add_def cmd_effect_def last_write_def [of c] ttl)
qed

text \<open>
  C30: Replaying the log after a restart is harmless as long as no command has a time to live: an
  engine to which the commands have been applied shows the same keys, values and consistency
  levels after they have been applied a second time, deletes of absent keys included.
\<close>

theorem replay_idempotent:
  assumes "lsm_inv e" and "list_all (\<lambda>c. cTTLSeconds c = 0) cmds" and "length ts = length cmds" and "length ts' = length cmds"
    and "sorted (t0 # ts @ t1 # ts')" and "\<forall>u \<in> set (t1 # ts'). u \<le> t"
    and "sm_fits lsm_fits_put lsm_fits_del lsm_ops (zip ts cmds) e"
    and "sm_fits lsm_fits_put lsm_fits_del lsm_ops (zip ts' cmds) (snd (sm_run lsm_ops (zip ts cmds) e))"
  shows "fst (sm_run lsm_ops (zip ts' cmds) (snd (sm_run lsm_ops (zip ts cmds) e))) = replicate (length cmds) None
    \<and> map_option seen \<circ> lsm_view (snd (sm_run lsm_ops (zip ts' cmds) (snd (sm_run lsm_ops (zip ts cmds) e)))) t
      = map_option seen \<circ> lsm_view (snd (sm_run lsm_ops (zip ts cmds) e)) t"
proof -
  let ?e1 = "snd (sm_run lsm_ops (zip ts cmds) e)" and ?m = "map_option seen \<circ> lsm_view e t0"
  let ?e2 = "snd (sm_run lsm_ops (zip ts' cmds) ?e1)"
  have f: "map fst (zip ts cmds) = ts" "map fst (zip ts' cmds) = ts'" using assms(3,4) by simp_all
  have fs: "fst ` set (zip ts cmds) = set ts" "fst ` set (zip ts' cmds) = set ts'" using arg_cong [OF f(1), of set] arg_cong [OF f(2), of set] by simp_all
  have s: "sorted (t0 # ts)" "sorted (t1 # ts')" "\<forall>u \<in> set ts. u \<le> t1" "t0 \<le> t1" "t1 \<le> t" "\<forall>u \<in> set ts'. u \<le> t"
    using assms(5,6) by (auto simp: sorted_append)
  have one: "lsm_inv ?e1 \<and> map_option seen \<circ> lsm_view ?e1 t1 = alive t1 (effects (zip ts cmds) ?m)"
    using lsm_run_effects [OF assms(1,7), of t0 t1, unfolded f fs] s(1,3,4) by auto
  then have i1: "lsm_inv ?e1" and v1: "map_option seen \<circ> lsm_view ?e1 t1 = alive t1 (effects (zip ts cmds) ?m)" by blast+
  obtain e2 where e2: "sm_run lsm_ops (zip ts' cmds) ?e1 = (replicate (length (zip ts' cmds)) None, e2)"
    "map_option seen \<circ> lsm_view e2 t = alive t (effects (zip ts' cmds) (map_option seen \<circ> lsm_view ?e1 t1))"
    using lsm_run_effects [OF i1 assms(8), of t1 t, unfolded f fs] s(2,5,6) by auto
  have G: "effects (zip ts' cmds) (effects (zip ts cmds) ?m) = effects (zip ts cmds) ?m"
    using effects_last [OF assms(2,3)] effects_last [OF assms(2,4)] by (auto simp: fun_eq_iff split: option.splits)
  have "alive t (effects (zip ts' cmds) (alive t1 (effects (zip ts cmds) ?m))) = alive t (effects (zip ts' cmds) (effects (zip ts cmds) ?m))"
    by (rule alive_effects) (use s f fs in simp_all)
  then have "map_option seen \<circ> lsm_view e2 t = alive t (effects (zip ts cmds) ?m)" by (simp only: e2(2) v1 G)
  also have "\<dots> = alive t (map_option seen \<circ> lsm_view ?e1 t1)" unfolding v1 by (rule alive_idem [symmetric]) (rule s(5))
  also have "\<dots> = map_option seen \<circ> lsm_view ?e1 t" by (rule lsm.seen_aging [OF i1 s(5), symmetric])
  finally show ?thesis using e2(1) assms(4) by simp
qed

text \<open>
  C31: A command with a time to live starts its time again when the log is replayed: a key that was
  set with a time to live and has expired is readable again, with its old value, after the same
  log entry has been applied a second time, as it is after every restart of a node.
\<close>

theorem replay_resurrects_expired_key:
  assumes "lsm_inv e" and "command_ok c" and "cOp c = CommandSet" and "0 < ttl_duration (cTTLSeconds c)"
    and "lsm_fits_put e t (cKey c) (cValue c) (cConsistency c) (ttl_duration (cTTLSeconds c))"
    and "t + ttl_duration (cTTLSeconds c) < t'"
    and "sm_Apply lsm_ops t (EncodeCommand c) e = (r, e1)"
    and "lsm_fits_put e1 t' (cKey c) (cValue c) (cConsistency c) (ttl_duration (cTTLSeconds c))"
  shows "lsm_Get e1 t' (cKey c) = Inl ErrKeyNotFound
    \<and> (\<exists>e2 en. sm_Apply lsm_ops t' (EncodeCommand c) e1 = (None, e2) \<and> lsm_Get e2 t' (cKey c) = Inr en \<and> Value en = cValue c)"
proof -
  let ?ttl = "ttl_duration (cTTLSeconds c)"
  obtain ver where e1: "lsm_inv e1" "lsm_view e1 t = (lsm_view e t)(cKey c \<mapsto> new_entry (cValue c) (cConsistency c) t ?ttl ver)"
    using lsm.apply_set [OF assms(1-3,5), folded lsm_ops_def] assms(7) by auto
  have "t \<le> t'" using assms(4,6) by simp
  from lsm.view_aging [OF e1(1) this] have "lsm_view e1 t' (cKey c) = None"
    using assms(4,6) by (simp add: e1(2) live_def Expired_new_entry)
  then have "lsm_Get e1 t' (cKey c) = Inl ErrKeyNotFound" by (simp add: lsm.get_view [OF e1(1)])
  moreover obtain e2 ver2 where e2: "sm_Apply lsm_ops t' (EncodeCommand c) e1 = (None, e2)" "lsm_inv e2"
    "lsm_view e2 t' = (lsm_view e1 t')(cKey c \<mapsto> new_entry (cValue c) (cConsistency c) t' ?ttl ver2)"
    using lsm.apply_set [OF e1(1) assms(2,3,8), folded lsm_ops_def] by auto
  then have "lsm_Get e2 t' (cKey c) = Inr (new_entry (cValue c) (cConsistency c) t' ?ttl ver2)" by (simp add: lsm.get_view [OF e2(2)])
  moreover have "Value (new_entry (cValue c) (cConsistency c) t' ?ttl ver2) = cValue c" by (simp add: new_entry_def)
  ultimately show ?thesis using e2(1) by blast
qed

text \<open>
  C32: \<^verbatim>\<open>Restore\<close> does not replace the state of the engine: a key that the engine has and the snapshot has
  not, such as one deleted before the snapshot was taken, is still readable after the restore.
\<close>

theorem restore_keeps_deleted_key:
  assumes "lsm_inv e" and "decode_entries data = Some ss" and "distinct (map seKey ss)" and "list_all (expiry_near now) ss"
    and "fits_restore lsm_fits_put lsm_ops (\<lambda>_. (now, now)) 0 ss e"
    and "k \<notin> seKey ` set ss" and "lsm_Get e now k = Inr en"
  shows "\<exists>e' en'. sm_Restore lsm_ops (\<lambda>_. (now, now)) data e = (None, e') \<and> lsm_Get e' now k = Inr en' \<and> Value en' = Value en"
proof -
  have v: "lsm_view e now k = Some en" using assms(7) by (auto simp: lsm.get_view [OF assms(1)] split: option.splits)
  have "map_of (map (\<lambda>s. (seKey s, s)) ss) k = None" using assms(6) by (simp add: map_of_eq_None_iff image_image)
  then have r: "restored now ss k = None" by (simp add: restored_def)
  obtain e' where e': "restore_entries lsm_ops (\<lambda>_. (now, now)) 0 ss e = (None, e')" "lsm_inv e'"
    "\<forall>k. map_option seen (lsm_view e' now k) = (case restored now ss k of None \<Rightarrow> map_option seen (lsm_view e now k) | Some x \<Rightarrow> Some x)"
    using lsm_restore_view [OF assms(1,5,3,4)] by blast
  from e'(3) r v have "map_option seen (lsm_view e' now k) = Some (seen en)" by simp
  then obtain en' where "lsm_view e' now k = Some en'" "seen en' = seen en" by auto
  then show ?thesis using e'(1,2) assms(2)
    by (intro exI [of _ e'] exI [of _ en']) (simp add: sm_Restore_def lsm.get_view seen_def)
qed

section \<open>Sample runs\<close>

definition sample_cmd :: "int \<Rightarrow> Command" where
  "sample_cmd ttl = \<lparr>cOp = 1, cKey = ''a'', cValue = [7], cConsistency = ''STRONG'', cTTLSeconds = ttl\<rparr>"

lemma sample_put:
  obtains e1 where "lsm_Put sample_engine t ''a'' [7] ''STRONG'' ttl = (None, e1)" "sstableSeq e1 = 0" "lsm_bytes e1 < 100"
proof -
  let ?op = "put_op sample_engine t ''a'' [7] ''STRONG'' ttl"
  have f: "faults (edisk sample_engine) = []" "read_file wal_path (edisk sample_engine) = Some []"
    by (simp_all add: sample_engine_def read_wal_only)
  obtain d2 where d2: "AppendBatch [op_rec ?op] (edisk sample_engine) = (True, d2)"
    using AppendBatch_ok [OF f, of "[op_rec ?op]"] by auto
  define e1 where "e1 = applyToMemtable ''a'' (op_entry ?op) (sample_engine\<lparr>nextSeq := u64 (nextSeq sample_engine + 1), opCh := [], edisk := d2\<rparr>)"
  have m: "memtable e1 = [(''a'', op_entry ?op)]" "sstables e1 = []" "sstableSeq e1 = 0" "eopts e1 = sample_opts" "memtableSize e1 < 4194304"
    by (simp_all add: e1_def applyToMemtable_def Let_def entrySize_def put_op_def Put_enqueue_def sample_engine_def)
  have "lsm_Put sample_engine t ''a'' [7] ''STRONG'' ttl = (None, e1)"
  proof -
    have o: "opCh sample_engine = []" by (simp add: sample_engine_def)
    have a: "applyOps [?op] (sample_engine\<lparr>nextSeq := u64 (nextSeq sample_engine + 1), opCh := [], edisk := d2\<rparr>) = e1"
      by (simp add: applyOps_def e1_def put_op_key)
    show ?thesis using d2 m(4,5) a
      by (simp add: lsm_Put_def Put_enqueue_eq opLoop_round_def processBatch_def Let_def o maybeFlushLocked_def sample_opts_def)
  qed
  moreover have "lsm_bytes e1 < 100"
    by (simp add: lsm_bytes_def m mt_bytes_def length_encodeEntry toSSTableEntry_def put_op_def Put_enqueue_def Let_def)
  ultimately show ?thesis using that m(3) by blast
qed

lemma sample_cmd_ok: "in_s64 ttl \<Longrightarrow> command_ok (sample_cmd ttl)"
  by (simp add: command_ok_def sample_cmd_def code_def)

lemma sample_cmd_simps:
  "cKey (sample_cmd ttl) = ''a''" "cValue (sample_cmd ttl) = [7]" "cConsistency (sample_cmd ttl) = ''STRONG''" "cTTLSeconds (sample_cmd ttl) = ttl"
  "cOp (sample_cmd ttl) = CommandSet"
  by (simp_all add: sample_cmd_def CommandSet_def)

lemma sample_duration: "ttl_duration 0 = 0" "ttl_duration 1 = 1000000000"
  by (simp_all add: ttl_duration_def s64_def)

lemma sample_fits:
  assumes "sstableSeq e = 0" and "lsm_bytes e < 100" and "0 \<le> t" and "t < 10000000000" and "0 \<le> ttl" and "ttl < 10000000000"
  shows "lsm_fits_put e t ''a'' [7] ''STRONG'' ttl"
  using assms by (simp add: lsm_fits_put_def fits_batch_def in_s64_def)

lemma sample_apply:
  assumes "in_s64 ttl"
  obtains e1 where "sm_Apply lsm_ops t (EncodeCommand (sample_cmd ttl)) sample_engine = (None, e1)" "sstableSeq e1 = 0" "lsm_bytes e1 < 100"
proof -
  obtain e1 where "lsm_Put sample_engine t ''a'' [7] ''STRONG'' (ttl_duration ttl) = (None, e1)" "sstableSeq e1 = 0" "lsm_bytes e1 < 100"
    by (rule sample_put)
  then show ?thesis
    by (intro that [of e1]) (simp_all add: sm_Apply_def decode_encode_command [OF sample_cmd_ok [OF assms]] lsm_ops_def sample_cmd_simps)
qed

theorem replay_resurrects_expired_key_witness:
  "\<exists>e1 e2 en. sm_Apply lsm_ops 5 (EncodeCommand (sample_cmd 1)) sample_engine = (None, e1) \<and> lsm_Get e1 2000000000 ''a'' = Inl ErrKeyNotFound
    \<and> sm_Apply lsm_ops 2000000000 (EncodeCommand (sample_cmd 1)) e1 = (None, e2) \<and> lsm_Get e2 2000000000 ''a'' = Inr en \<and> Value en = [7]"
proof -
  have i: "in_s64 1" by (simp add: in_s64_def)
  obtain e1 where e1: "sm_Apply lsm_ops 5 (EncodeCommand (sample_cmd 1)) sample_engine = (None, e1)" "sstableSeq e1 = 0" "lsm_bytes e1 < 100"
    by (rule sample_apply [OF i])
  note k = sample_cmd_simps [of 1]
  have f: "lsm_fits_put sample_engine 5 ''a'' [7] ''STRONG'' 1000000000" "lsm_fits_put e1 2000000000 ''a'' [7] ''STRONG'' 1000000000"
    using e1 by (simp_all add: sample_fits sample_bytes)
  from replay_resurrects_expired_key [OF sample_inv sample_cmd_ok [OF i] k(5) _ _ _ e1(1), unfolded k sample_duration, OF _ f(1) _ f(2)] e1(1)
  show ?thesis by auto
qed

theorem restore_keeps_deleted_key_witness:
  "\<exists>e1 e' en. sm_Apply lsm_ops 5 (EncodeCommand (sample_cmd 0)) sample_engine = (None, e1)
    \<and> sm_Restore lsm_ops (\<lambda>_. (6, 6)) (str_bytes ''[]'') e1 = (None, e') \<and> lsm_Get e' 6 ''a'' = Inr en \<and> Value en = [7]"
proof -
  have i: "in_s64 0" by (simp add: in_s64_def)
  obtain e1 where e1: "sm_Apply lsm_ops 5 (EncodeCommand (sample_cmd 0)) sample_engine = (None, e1)" by (rule sample_apply [OF i])
  note k = sample_cmd_simps [of 0]
  have f: "lsm_fits_put sample_engine 5 ''a'' [7] ''STRONG'' 0" by (simp add: sample_fits sample_bytes)
  obtain ver where v: "lsm_inv e1" "lsm_view e1 5 = (lsm_view sample_engine 5)(''a'' \<mapsto> new_entry [7] ''STRONG'' 5 0 ver)"
    using lsm.apply_set [OF sample_inv sample_cmd_ok [OF i] k(5), folded lsm_ops_def, unfolded k sample_duration, OF f] e1 by auto
  have "lsm_view e1 6 = live 6 (lsm_view e1 5)" by (rule lsm.view_aging [OF v(1)]) simp
  then have g: "lsm_Get e1 6 ''a'' = Inr (new_entry [7] ''STRONG'' 5 0 ver)"
    by (simp add: lsm.get_view [OF v(1)] v(2) live_def Expired_new_entry) (simp add: new_entry_def)
  have d: "decode_entries (str_bytes ''[]'') = Some []"
    using json_parse_print [of "JArr []"] by (simp add: decode_entries_def)
  from restore_keeps_deleted_key [OF v(1) d, where now = 6 and k = "''a''", OF _ _ _ _ g] e1 show ?thesis by (auto simp: new_entry_def)
qed

theorem replay_idempotent_witness:
  "fst (sm_run lsm_ops (zip [7] [sample_cmd 0]) (snd (sm_run lsm_ops (zip [5] [sample_cmd 0]) sample_engine))) = [None]
    \<and> map_option seen \<circ> lsm_view (snd (sm_run lsm_ops (zip [7] [sample_cmd 0]) (snd (sm_run lsm_ops (zip [5] [sample_cmd 0]) sample_engine)))) 8
      = map_option seen \<circ> lsm_view (snd (sm_run lsm_ops (zip [5] [sample_cmd 0]) sample_engine)) 8"
proof -
  have i: "in_s64 0" by (simp add: in_s64_def)
  obtain e1 where e1: "sm_Apply lsm_ops 5 (EncodeCommand (sample_cmd 0)) sample_engine = (None, e1)" "sstableSeq e1 = 0" "lsm_bytes e1 < 100"
    by (rule sample_apply [OF i])
  have w: "cmd_wf (sample_cmd 0)" using sample_cmd_ok [OF i] by (simp add: cmd_wf_def sample_cmd_simps)
  have f: "sm_fits lsm_fits_put lsm_fits_del lsm_ops (zip [5] [sample_cmd 0]) sample_engine"
    "sm_fits lsm_fits_put lsm_fits_del lsm_ops (zip [7] [sample_cmd 0]) e1"
    using e1(2,3) by (simp_all add: w sample_cmd_simps sample_duration sample_fits sample_bytes)
  have s: "snd (sm_run lsm_ops (zip [5] [sample_cmd 0]) sample_engine) = e1" by (simp add: e1(1))
  show ?thesis using replay_idempotent [OF sample_inv _ _ _ _ _ f(1), where ts' = "[7]" and t = 8 and ?t0.0 = 0 and ?t1.0 = 6] f(2) s by (simp add: sample_cmd_simps)
qed

definition sample_kv_node :: "(unit, Engine \<times> nat) Node" where
  "sample_kv_node = \<lparr>nodeID = ''a'', peers = [''b'', ''c''], storage = (), stateMachine = (sample_engine, 0), opts = DefaultOptions,
     currentTerm = 3, votedFor = '''', log = [\<lparr>eTerm = 1, eIndex = 1, eCommand = EncodeCommand (sample_cmd 0)\<rparr>], logBaseIndex = 0,
     logBaseTerm = 0, state = Follower, commitIndex = 1, lastApplied = 0, leaderID = '''', nextIndex = [], matchIndex = [],
     electionResetAt = 0, electionTimeout = 0, lastHeartbeatSent = None, applyNotify = False,
     replicateCh = [], proposeCh = [], votes = 0\<rparr>"

theorem committed_commands_reach_engine_witness:
  "\<exists>n' e'. applyPending sample_storage (RaftStateMachine lsm_ops (\<lambda>i. 5 + int i)) sample_kv_node = Some n' \<and> stateMachine n' = (e', 1)
    \<and> map_option seen (lsm_view e' 9 ''a'') = Some ([7], ''STRONG'', None)"
proof -
  have i: "in_s64 0" by (simp add: in_s64_def)
  have w: "cmd_wf (sample_cmd 0)" using sample_cmd_ok [OF i] by (simp add: cmd_wf_def sample_cmd_simps)
  have ok: "log_ok sample_kv_node" "commit_ok sample_kv_node" by (simp_all add: log_ok_def commit_ok_def sample_kv_node_def)
  have f: "sm_fits lsm_fits_put lsm_fits_del lsm_ops (zip (map (\<lambda>i. 5 + int i) [0..<0 + length [sample_cmd 0]]) [sample_cmd 0]) sample_engine"
    by (simp add: w sample_cmd_simps sample_duration sample_fits sample_bytes)
  obtain n' e' where "applyPending sample_storage (RaftStateMachine lsm_ops (\<lambda>i. 5 + int i)) sample_kv_node = Some n'" "stateMachine n' = (e', 1)"
    and v: "map_option seen \<circ> lsm_view e' 9 = alive 9 (effects [(5, sample_cmd 0)] (map_option seen \<circ> lsm_view sample_engine 5))"
    using committed_commands_reach_engine [OF ok, of sample_engine 0 "[sample_cmd 0]" "\<lambda>i. 5 + int i" 9 sample_storage] f
    by (auto simp: sample_kv_node_def sample_inv pending_entries_def mono_def)
  moreover have "map_option seen (lsm_view e' 9 ''a'') = Some ([7], ''STRONG'', None)"
    using fun_cong [OF v, of "''a''"] by (simp add: effects_def cmd_effect_def sample_cmd_simps sample_duration alive_def expires_at_def)
  ultimately show ?thesis by blast
qed

lemma print_zero_time: obtains x where "print_time zero_time = Some x"
proof -
  have d: "zero_time div ns_per_s div 86400 + 719162 = 0" by (simp add: zero_time_def ns_per_s_def)
  have y: "fst (year_day 0) = 1" by (simp add: year_day_def)
  have "\<not> (fst (year_day 0) < 0 \<or> 9999 < fst (year_day 0))" unfolding y by simp
  then have "\<exists>x. print_time zero_time = Some x" unfolding print_time_def Let_def case_prod_beta d by (simp only: if_False) blast
  then show ?thesis using that by blast
qed


end
