(* ===== verification/Rpc.thy ===== *)
theory Rpc
  imports Raft_Props Complex_Main
begin

text \<open>
  Package \<^verbatim>\<open>internal/raft/rpc\<close>: the faults that the admin interface injects (\<^verbatim>\<open>faults.go\<close>), the
  client side (\<^verbatim>\<open>client.go\<close>) and the server side (\<^verbatim>\<open>server.go\<close>) of the Raft RPCs.  gRPC itself is not
  part of the repository: the dialling of an address and the call of a remote method are
  parameters.  \<^verbatim>\<open>rand.Float64()\<close> is the argument \<open>roll\<close>, a drop rate is an exact rational.
\<close>

section \<open>Injected faults\<close>

record Faults =
  partitioned :: bool
  latency :: int
  dropRate :: rat

definition NewFaults :: Faults where
  "NewFaults = \<lparr>partitioned = False, latency = 0, dropRate = 0\<rparr>"

definition SetPartitioned :: "bool \<Rightarrow> Faults \<Rightarrow> Faults" where
  "SetPartitioned p f = f\<lparr>partitioned := p\<rparr>"

definition SetLatency :: "int \<Rightarrow> Faults \<Rightarrow> Faults" where
  "SetLatency d f = f\<lparr>latency := d\<rparr>"

definition SetDropRate :: "rat \<Rightarrow> Faults \<Rightarrow> Faults" where
  "SetDropRate rate f =
     (let r1 = (if rate < 0 then 0 else rate); r2 = (if r1 > 1 then 1 else r1) in f\<lparr>dropRate := r2\<rparr>)"

definition Reset :: "Faults \<Rightarrow> Faults" where
  "Reset f = f\<lparr>partitioned := False, latency := 0, dropRate := 0\<rparr>"

record FaultStatus =
  stPartitioned :: bool
  stLatencyMS :: int
  stDropRate :: rat
  stLatency :: int

definition faults_Status :: "Faults \<Rightarrow> FaultStatus" where
  "faults_Status f = \<lparr>stPartitioned = partitioned f, stLatencyMS = sgn (latency f) * (\<bar>latency f\<bar> div 1000000),
     stDropRate = dropRate f, stLatency = latency f\<rparr>"

text \<open>Whether the caller proceeds, and how long it slept before.\<close>

definition faults_apply :: "rat \<Rightarrow> Faults \<Rightarrow> bool \<times> int" where
  "faults_apply roll f =
     (let status = faults_Status f
      in if stPartitioned status then (False, 0)
         else
           let slept = (if stLatency status > 0 then stLatency status else 0)
           in (\<not> (stDropRate status > 0 \<and> roll < stDropRate status), slept))"

definition blocked :: "rat \<Rightarrow> Faults option \<Rightarrow> bool" where
  "blocked roll faults = (case faults of None \<Rightarrow> False | Some f \<Rightarrow> \<not> fst (faults_apply roll f))"

section \<open>Protocol messages (raftpb)\<close>

record LogEntryPb =
  pbTerm :: nat
  pbIndex :: nat
  pbCommand :: bytes

record RequestVoteRequest =
  qvTerm :: nat
  qvCandidateId :: string
  qvLastLogIndex :: nat
  qvLastLogTerm :: nat

record RequestVoteResponse =
  svTerm :: nat
  svVoteGranted :: bool

record AppendEntriesRequest =
  qaTerm :: nat
  qaLeaderId :: string
  qaPrevLogIndex :: nat
  qaPrevLogTerm :: nat
  qaEntries :: "LogEntryPb list"
  qaLeaderCommit :: nat

record AppendEntriesResponse =
  saTerm :: nat
  saSuccess :: bool
  saConflictIndex :: nat

record InstallSnapshotRequest =
  qsTerm :: nat
  qsLeaderId :: string
  qsLastIncludedIndex :: nat
  qsLastIncludedTerm :: nat
  qsData :: bytes

record InstallSnapshotResponse =
  ssTerm :: nat

section \<open>The client side\<close>

datatype rpc_error = ErrFaultInjected | NoAddress string | DialFailed string | CallFailed

record Transport =
  addrs :: "(string \<times> string) list"
  conns :: "(string \<times> string) list"   \<comment> \<open>peer to the address its connection was dialled at\<close>

definition NewTransport :: "(string \<times> string) list \<Rightarrow> Transport" where
  "NewTransport as = \<lparr>addrs = as, conns = []\<rparr>"

definition clientFor :: "(string \<Rightarrow> bool) \<Rightarrow> string \<Rightarrow> Transport \<Rightarrow> (rpc_error + string) \<times> Transport" where
  "clientFor dial peer t =
     (case map_of (conns t) peer of
        Some conn \<Rightarrow> (Inr conn, t)
      | None \<Rightarrow>
         (case map_of (addrs t) peer of
            None \<Rightarrow> (Inl (NoAddress peer), t)
          | Some addr \<Rightarrow>
              if \<not> dial addr then (Inl (DialFailed peer), t)
              else (Inr addr, t\<lparr>conns := AList.update peer addr (conns t)\<rparr>)))"

definition SendRequestVote ::
  "(string \<Rightarrow> bool) \<Rightarrow> (string \<Rightarrow> RequestVoteRequest \<Rightarrow> RequestVoteResponse option) \<Rightarrow> rat \<Rightarrow> Faults option \<Rightarrow>
   string \<Rightarrow> RequestVoteArgs \<Rightarrow> Transport \<Rightarrow> (rpc_error + RequestVoteReply) \<times> Transport" where
  "SendRequestVote dial call roll faults peer args t =
     (if blocked roll faults then (Inl ErrFaultInjected, t)
      else case clientFor dial peer t of
        (Inl err, t1) \<Rightarrow> (Inl err, t1)
      | (Inr client, t1) \<Rightarrow>
         (case call client \<lparr>qvTerm = rvTerm args, qvCandidateId = rvCandidateID args,
             qvLastLogIndex = rvLastLogIndex args, qvLastLogTerm = rvLastLogTerm args\<rparr> of
            None \<Rightarrow> (Inl CallFailed, t1)
          | Some resp \<Rightarrow> (Inr \<lparr>vrTerm = svTerm resp, vrVoteGranted = svVoteGranted resp\<rparr>, t1)))"

definition SendAppendEntries ::
  "(string \<Rightarrow> bool) \<Rightarrow> (string \<Rightarrow> AppendEntriesRequest \<Rightarrow> AppendEntriesResponse option) \<Rightarrow> rat \<Rightarrow> Faults option \<Rightarrow>
   string \<Rightarrow> AppendEntriesArgs \<Rightarrow> Transport \<Rightarrow> (rpc_error + AppendEntriesReply) \<times> Transport" where
  "SendAppendEntries dial call roll faults peer args t =
     (if blocked roll faults then (Inl ErrFaultInjected, t)
      else case clientFor dial peer t of
        (Inl err, t1) \<Rightarrow> (Inl err, t1)
      | (Inr client, t1) \<Rightarrow>
         let entries = map (\<lambda>e. \<lparr>pbTerm = eTerm e, pbIndex = eIndex e, pbCommand = eCommand e\<rparr>) (aeEntries args)
         in (case call client \<lparr>qaTerm = aeTerm args, qaLeaderId = aeLeaderID args, qaPrevLogIndex = aePrevLogIndex args,
                qaPrevLogTerm = aePrevLogTerm args, qaEntries = entries, qaLeaderCommit = aeLeaderCommit args\<rparr> of
               None \<Rightarrow> (Inl CallFailed, t1)
             | Some resp \<Rightarrow> (Inr \<lparr>arTerm = saTerm resp, arSuccess = saSuccess resp, arConflictIndex = saConflictIndex resp\<rparr>, t1)))"

definition SendInstallSnapshot ::
  "(string \<Rightarrow> bool) \<Rightarrow> (string \<Rightarrow> InstallSnapshotRequest \<Rightarrow> InstallSnapshotResponse option) \<Rightarrow> rat \<Rightarrow> Faults option \<Rightarrow>
   string \<Rightarrow> InstallSnapshotArgs \<Rightarrow> Transport \<Rightarrow> (rpc_error + InstallSnapshotReply) \<times> Transport" where
  "SendInstallSnapshot dial call roll faults peer args t =
     (if blocked roll faults then (Inl ErrFaultInjected, t)
      else case clientFor dial peer t of
        (Inl err, t1) \<Rightarrow> (Inl err, t1)
      | (Inr client, t1) \<Rightarrow>
         (case call client \<lparr>qsTerm = isTerm args, qsLeaderId = isLeaderID args, qsLastIncludedIndex = isLastIncludedIndex args,
             qsLastIncludedTerm = isLastIncludedTerm args, qsData = isData args\<rparr> of
            None \<Rightarrow> (Inl CallFailed, t1)
          | Some resp \<Rightarrow> (Inr \<lparr>irTerm = ssTerm resp\<rparr>, t1)))"

section \<open>The server side\<close>

text \<open>\<open>None\<close> as a result is the status \<^verbatim>\<open>Unavailable\<close>; a panic of the handler is \<open>None\<close> as a whole.\<close>

definition Server_RequestVote ::
  "'st Storage \<Rightarrow> time \<Rightarrow> int \<Rightarrow> rat \<Rightarrow> Faults option \<Rightarrow> RequestVoteRequest \<Rightarrow> ('st, 'sm) Node \<Rightarrow>
   RequestVoteResponse option \<times> ('st, 'sm) Node" where
  "Server_RequestVote S now rnd roll faults req n =
     (if blocked roll faults then (None, n)
      else case HandleRequestVote S now rnd \<lparr>rvTerm = qvTerm req, rvCandidateID = qvCandidateId req,
               rvLastLogIndex = qvLastLogIndex req, rvLastLogTerm = qvLastLogTerm req\<rparr> n of
        (reply, n1) \<Rightarrow> (Some \<lparr>svTerm = vrTerm reply, svVoteGranted = vrVoteGranted reply\<rparr>, n1))"

definition Server_AppendEntries ::
  "'st Storage \<Rightarrow> time \<Rightarrow> int \<Rightarrow> rat \<Rightarrow> Faults option \<Rightarrow> AppendEntriesRequest \<Rightarrow> ('st, 'sm) Node \<Rightarrow>
   (AppendEntriesResponse option \<times> ('st, 'sm) Node) option" where
  "Server_AppendEntries S now rnd roll faults req n =
     (if blocked roll faults then Some (None, n)
      else
        let entries = map (\<lambda>e. \<lparr>eTerm = pbTerm e, eIndex = pbIndex e, eCommand = pbCommand e\<rparr>) (qaEntries req)
        in case HandleAppendEntries S now rnd \<lparr>aeTerm = qaTerm req, aeLeaderID = qaLeaderId req,
                  aePrevLogIndex = qaPrevLogIndex req, aePrevLogTerm = qaPrevLogTerm req, aeEntries = entries,
                  aeLeaderCommit = qaLeaderCommit req\<rparr> n of
             None \<Rightarrow> None
           | Some (reply, n1) \<Rightarrow>
               Some (Some \<lparr>saTerm = arTerm reply, saSuccess = arSuccess reply, saConflictIndex = arConflictIndex reply\<rparr>, n1))"

definition Server_InstallSnapshot ::
  "'st Storage \<Rightarrow> 'sm StateMachine \<Rightarrow> time \<Rightarrow> int \<Rightarrow> rat \<Rightarrow> Faults option \<Rightarrow> InstallSnapshotRequest \<Rightarrow> ('st, 'sm) Node \<Rightarrow>
   InstallSnapshotResponse option \<times> ('st, 'sm) Node" where
  "Server_InstallSnapshot S M now rnd roll faults req n =
     (if blocked roll faults then (None, n)
      else case HandleInstallSnapshot S M now rnd \<lparr>isTerm = qsTerm req, isLeaderID = qsLeaderId req,
               isLastIncludedIndex = qsLastIncludedIndex req, isLastIncludedTerm = qsLastIncludedTerm req, isData = qsData req\<rparr> n of
        (reply, n1) \<Rightarrow> (Some \<lparr>ssTerm = irTerm reply\<rparr>, n1))"

section \<open>A call through both sides\<close>

lemma clientFor_known:
  assumes "map_of (addrs t) peer = Some a" and "dial a"
  obtains client t1 where "clientFor dial peer t = (Inr client, t1)"
  using assms by (cases "map_of (conns t) peer") (auto simp: clientFor_def)

text \<open>Taking a record apart and building it again.\<close>

lemma record_eta:
  "\<lparr>rvTerm = rvTerm v, rvCandidateID = rvCandidateID v, rvLastLogIndex = rvLastLogIndex v, rvLastLogTerm = rvLastLogTerm v\<rparr> = v"
  "\<lparr>vrTerm = vrTerm r, vrVoteGranted = vrVoteGranted r\<rparr> = r"
  "\<lparr>aeTerm = aeTerm a, aeLeaderID = aeLeaderID a, aePrevLogIndex = aePrevLogIndex a, aePrevLogTerm = aePrevLogTerm a,
    aeEntries = aeEntries a, aeLeaderCommit = aeLeaderCommit a\<rparr> = a"
  "\<lparr>arTerm = arTerm b, arSuccess = arSuccess b, arConflictIndex = arConflictIndex b\<rparr> = b"
  "\<lparr>isTerm = isTerm s, isLeaderID = isLeaderID s, isLastIncludedIndex = isLastIncludedIndex s,
    isLastIncludedTerm = isLastIncludedTerm s, isData = isData s\<rparr> = s"
  "\<lparr>irTerm = irTerm q\<rparr> = q" "\<lparr>eTerm = eTerm e, eIndex = eIndex e, eCommand = eCommand e\<rparr> = e"
  by simp_all

text \<open>
  A request from the transport \<open>t\<close> to a server on the node \<open>n\<close>: the reply the sender gets and the node
  afterwards.  The receiver is reached only if the sender does not block the request.
\<close>

definition call_RequestVote where
  "call_RequestVote dial S now rnd rollC rollS fC fS peer args t n =
     (fst (SendRequestVote dial (\<lambda>_ req. fst (Server_RequestVote S now rnd rollS fS req n)) rollC fC peer args t),
      if blocked rollC fC then n
      else snd (Server_RequestVote S now rnd rollS fS \<lparr>qvTerm = rvTerm args, qvCandidateId = rvCandidateID args,
             qvLastLogIndex = rvLastLogIndex args, qvLastLogTerm = rvLastLogTerm args\<rparr> n))"

definition call_AppendEntries where
  "call_AppendEntries dial S now rnd rollC rollS fC fS peer args t n =
     (let entries = map (\<lambda>e. \<lparr>pbTerm = eTerm e, pbIndex = eIndex e, pbCommand = eCommand e\<rparr>) (aeEntries args)
      in (fst (SendAppendEntries dial (\<lambda>_ req. Option.bind (Server_AppendEntries S now rnd rollS fS req n) fst) rollC fC peer args t),
          if blocked rollC fC then Some n
          else map_option snd (Server_AppendEntries S now rnd rollS fS \<lparr>qaTerm = aeTerm args, qaLeaderId = aeLeaderID args,
             qaPrevLogIndex = aePrevLogIndex args, qaPrevLogTerm = aePrevLogTerm args, qaEntries = entries,
             qaLeaderCommit = aeLeaderCommit args\<rparr> n)))"

definition call_InstallSnapshot where
  "call_InstallSnapshot dial S M now rnd rollC rollS fC fS peer args t n =
     (fst (SendInstallSnapshot dial (\<lambda>_ req. fst (Server_InstallSnapshot S M now rnd rollS fS req n)) rollC fC peer args t),
      if blocked rollC fC then n
      else snd (Server_InstallSnapshot S M now rnd rollS fS \<lparr>qsTerm = isTerm args, qsLeaderId = isLeaderID args,
             qsLastIncludedIndex = isLastIncludedIndex args, qsLastIncludedTerm = isLastIncludedTerm args, qsData = isData args\<rparr> n))"

lemma rpc_vote:
  assumes "map_of (addrs t) peer = Some a" and "dial a"
  shows "call_RequestVote dial S now rnd rollC rollS fC fS peer args t n =
    (if blocked rollC fC then (Inl ErrFaultInjected, n) else if blocked rollS fS then (Inl CallFailed, n)
     else case HandleRequestVote S now rnd args n of (reply, n') \<Rightarrow> (Inr reply, n'))"
proof -
  obtain client t1 where c: "clientFor dial peer t = (Inr client, t1)" by (rule clientFor_known [where dial = dial, OF assms])
  show ?thesis by (simp add: call_RequestVote_def SendRequestVote_def Server_RequestVote_def c case_prod_beta record_eta)
qed

lemma rpc_append:
  assumes "map_of (addrs t) peer = Some a" and "dial a"
  shows "call_AppendEntries dial S now rnd rollC rollS fC fS peer args t n =
    (if blocked rollC fC then (Inl ErrFaultInjected, Some n) else if blocked rollS fS then (Inl CallFailed, Some n)
     else case HandleAppendEntries S now rnd args n of None \<Rightarrow> (Inl CallFailed, None) | Some (reply, n') \<Rightarrow> (Inr reply, Some n'))"
proof -
  obtain client t1 where c: "clientFor dial peer t = (Inr client, t1)" by (rule clientFor_known [where dial = dial, OF assms])
  have "map ((\<lambda>e. \<lparr>eTerm = pbTerm e, eIndex = pbIndex e, eCommand = pbCommand e\<rparr>) \<circ>
      (\<lambda>e. \<lparr>pbTerm = eTerm e, pbIndex = eIndex e, pbCommand = eCommand e\<rparr>)) (aeEntries args) = aeEntries args"
    by (simp add: comp_def record_eta)
  then show ?thesis
    by (cases "HandleAppendEntries S now rnd args n")
      (auto simp: call_AppendEntries_def SendAppendEntries_def Server_AppendEntries_def c Let_def record_eta)
qed

lemma rpc_snapshot:
  assumes "map_of (addrs t) peer = Some a" and "dial a"
  shows "call_InstallSnapshot dial S M now rnd rollC rollS fC fS peer args t n =
    (if blocked rollC fC then (Inl ErrFaultInjected, n) else if blocked rollS fS then (Inl CallFailed, n)
     else case HandleInstallSnapshot S M now rnd args n of (reply, n') \<Rightarrow> (Inr reply, n'))"
proof -
  obtain client t1 where c: "clientFor dial peer t = (Inr client, t1)" by (rule clientFor_known [where dial = dial, OF assms])
  show ?thesis by (simp add: call_InstallSnapshot_def SendInstallSnapshot_def Server_InstallSnapshot_def c case_prod_beta record_eta)
qed

lemma blocked_partition: "partitioned f \<Longrightarrow> blocked roll (Some f)"
  by (simp add: blocked_def faults_apply_def faults_Status_def)



end
