(* ===== verification/Events.thy ===== *)
theory Events
  imports Prelude Complex_Main
begin

text \<open>
  Package \<^verbatim>\<open>internal/events\<close>: the normalized campus event (\<^verbatim>\<open>event.go\<close>), the pipeline that validates,
  completes and classifies a raw event (\<^verbatim>\<open>normalize.go\<close>), the ingestion of a source (\<^verbatim>\<open>ingest.go\<close>) and the
  simulated source (\<^verbatim>\<open>simulator_source.go\<close>).  The clock, the random bytes of an identifier and the random
  choices of the simulator are arguments; \<^verbatim>\<open>float64\<close> values are exact rationals; \<open>None\<close> is the
  zero time.
\<close>

section \<open>Events\<close>

type_synonym EventType = string
type_synonym Urgency = string

definition TypeAcademic :: EventType where "TypeAcademic = ''ACADEMIC''"
definition TypeAthletics :: EventType where "TypeAthletics = ''ATHLETICS''"
definition TypeStudentOrg :: EventType where "TypeStudentOrg = ''STUDENT_ORG''"
definition TypeCampusEvent :: EventType where "TypeCampusEvent = ''CAMPUS_EVENT''"
definition TypeDining :: EventType where "TypeDining = ''DINING''"
definition TypeTransportation :: EventType where "TypeTransportation = ''TRANSPORTATION''"
definition TypeWeather :: EventType where "TypeWeather = ''WEATHER''"
definition TypeEmergency :: EventType where "TypeEmergency = ''EMERGENCY''"
definition TypeSystem :: EventType where "TypeSystem = ''SYSTEM''"

lemmas type_defs = TypeAcademic_def TypeAthletics_def TypeStudentOrg_def TypeCampusEvent_def TypeDining_def
  TypeTransportation_def TypeWeather_def TypeEmergency_def TypeSystem_def

definition valid_type :: "EventType \<Rightarrow> bool" where
  "valid_type t \<longleftrightarrow> t \<in> {TypeAcademic, TypeAthletics, TypeStudentOrg, TypeCampusEvent,
     TypeDining, TypeTransportation, TypeWeather, TypeEmergency, TypeSystem}"

definition UrgencyNormal :: Urgency where "UrgencyNormal = ''NORMAL''"
definition UrgencyHigh :: Urgency where "UrgencyHigh = ''HIGH''"
definition UrgencyCritical :: Urgency where "UrgencyCritical = ''CRITICAL''"
definition UrgencyScheduledSpike :: Urgency where "UrgencyScheduledSpike = ''SCHEDULED_SPIKE''"

lemmas urgency_defs = UrgencyNormal_def UrgencyHigh_def UrgencyCritical_def UrgencyScheduledSpike_def

record Location =
  lName :: string
  Latitude :: rat
  Longitude :: rat

record Event =
  ID :: string
  EType :: EventType
  Title :: string
  Description :: string
  Location :: Location
  StartTime :: "time option"
  EndTime :: "time option"
  ExpectedAttendance :: int
  ExpectedTrafficMultiplier :: rat
  Urgency :: Urgency
  Audience :: "string list"
  Source :: string
  CreatedAt :: "time option"
  Confidence :: rat

section \<open>Normalization\<close>

datatype invalid_event = TitleRequired | UnknownType EventType | StartRequired | EndBeforeStart | NegativeAttendance

definition validate :: "Event \<Rightarrow> invalid_event option" where
  "validate e =
     (if Title e = '''' then Some TitleRequired
      else if \<not> valid_type (EType e) then Some (UnknownType (EType e))
      else case StartTime e of
        None \<Rightarrow> Some StartRequired
      | Some s \<Rightarrow>
          if (case EndTime e of None \<Rightarrow> False | Some t \<Rightarrow> t < s) then Some EndBeforeStart
          else if ExpectedAttendance e < 0 then Some NegativeAttendance
          else None)"

definition classify :: "Event \<Rightarrow> Event" where
  "classify e =
     (if Urgency e \<noteq> '''' then e
      else if EType e = TypeEmergency \<or> EType e = TypeWeather then e\<lparr>Urgency := UrgencyCritical\<rparr>
      else if EType e = TypeAthletics then
        (if ExpectedAttendance e \<ge> 5000 then e\<lparr>Urgency := UrgencyHigh\<rparr> else e\<lparr>Urgency := UrgencyNormal\<rparr>)
      else if EType e = TypeCampusEvent then
        (if ExpectedAttendance e \<ge> 2000 then e\<lparr>Urgency := UrgencyHigh\<rparr> else e\<lparr>Urgency := UrgencyNormal\<rparr>)
      else e\<lparr>Urgency := UrgencyNormal\<rparr>)"

definition estimateTraffic :: "Event \<Rightarrow> Event" where
  "estimateTraffic e =
     (if ExpectedTrafficMultiplier e > 0 then e
      else if Urgency e = UrgencyCritical then e\<lparr>ExpectedTrafficMultiplier := 20\<rparr>
      else if ExpectedAttendance e > 0 then
        let m = 1 + of_int (ExpectedAttendance e) / 1000
        in e\<lparr>ExpectedTrafficMultiplier := (if m > 15 then 15 else m)\<rparr>
      else e\<lparr>ExpectedTrafficMultiplier := 1\<rparr>)"

definition confidenceFor :: "Event \<Rightarrow> rat" where
  "confidenceFor e = (if Source e = ''SIMULATOR'' then 1 else 7 / 10)"

definition hex_digit :: "nat \<Rightarrow> char" where
  "hex_digit d = ''0123456789abcdef'' ! d"

definition generateID :: "bytes \<Rightarrow> string" where
  "generateID rnd = ''evt_'' @ concat (map (\<lambda>b. [hex_digit (unat b div 16), hex_digit (unat b mod 16)]) rnd)"

definition Normalize :: "time \<Rightarrow> bytes \<Rightarrow> Event \<Rightarrow> invalid_event + Event" where
  "Normalize now rnd raw =
     (case validate raw of
        Some err \<Rightarrow> Inl err
      | None \<Rightarrow>
          let e1 = (if ID raw = '''' then raw\<lparr>ID := generateID rnd\<rparr> else raw);
              e2 = (if CreatedAt e1 = None then e1\<lparr>CreatedAt := Some now\<rparr> else e1);
              e3 = estimateTraffic (classify e2)
          in Inr (e3\<lparr>Confidence := confidenceFor e3\<rparr>))"

section \<open>Ingestion\<close>

text \<open>
  An \<^verbatim>\<open>EventSource\<close> is its name and what \<^verbatim>\<open>FetchEvents\<close> returns, \<open>None\<close> for an error.  \<open>env i\<close> are the clock
  reading and the random bytes used for the \<open>i\<close>th event.
\<close>

record EventSource =
  FetchEvents :: "Event list option"
  SourceName :: string

fun normalize_all :: "string \<Rightarrow> (nat \<Rightarrow> time \<times> bytes) \<Rightarrow> nat \<Rightarrow> Event list \<Rightarrow> Event list" where
  "normalize_all name env i [] = []"
| "normalize_all name env i (e # es) =
     (let e1 = (if Source e = '''' then e\<lparr>Source := name\<rparr> else e)
      in case Normalize (fst (env i)) (snd (env i)) e1 of
           Inl _ \<Rightarrow> normalize_all name env (i + 1) es
         | Inr n \<Rightarrow> n # normalize_all name env (i + 1) es)"

definition FetchAndNormalize :: "(nat \<Rightarrow> time \<times> bytes) \<Rightarrow> EventSource \<Rightarrow> Event list option" where
  "FetchAndNormalize env s = map_option (normalize_all (SourceName s) env 0) (FetchEvents s)"

definition no_event :: Event where
  "no_event = \<lparr>ID = '''', EType = '''', Title = '''', Description = '''', Location = \<lparr>lName = '''', Latitude = 0, Longitude = 0\<rparr>,
     StartTime = None, EndTime = None, ExpectedAttendance = 0, ExpectedTrafficMultiplier = 0, Urgency = '''', Audience = [],
     Source = '''', CreatedAt = None, Confidence = 0\<rparr>"

definition simulatorCatalog :: "Event list" where
  "simulatorCatalog =
    [no_event\<lparr>EType := TypeAthletics, Title := ''Purdue Basketball'', Location := \<lparr>lName = ''Mackey Arena'', Latitude = 40434 / 1000, Longitude = - 86918 / 1000\<rparr>,
       ExpectedAttendance := 14000, Audience := [''CAMPUS'']\<rparr>,
     no_event\<lparr>EType := TypeDining, Title := ''Dining Court Extended Hours'', Location := \<lparr>lName = ''Wiley Dining Court'', Latitude = 40425 / 1000, Longitude = - 86916 / 1000\<rparr>,
       ExpectedAttendance := 300, Audience := [''CAMPUS'']\<rparr>,
     no_event\<lparr>EType := TypeStudentOrg, Title := ''Student Org Club Fair'', Location := \<lparr>lName = ''Purdue Memorial Union'', Latitude = 40425 / 1000, Longitude = - 86910 / 1000\<rparr>,
       ExpectedAttendance := 400, Audience := [''CAMPUS'']\<rparr>,
     no_event\<lparr>EType := TypeAcademic, Title := ''Midterm Week Notice'', Location := \<lparr>lName = ''Campus-wide'', Latitude = 0, Longitude = 0\<rparr>, Audience := [''CAMPUS'']\<rparr>,
     no_event\<lparr>EType := TypeTransportation, Title := ''Bus Route Delay'', Location := \<lparr>lName = ''Transit Center'', Latitude = 40428 / 1000, Longitude = - 86914 / 1000\<rparr>,
       Audience := [''CAMPUS'']\<rparr>,
     no_event\<lparr>EType := TypeWeather, Title := ''Severe Weather Advisory'', Location := \<lparr>lName = ''Campus-wide'', Latitude = 0, Longitude = 0\<rparr>, Audience := [''CAMPUS'']\<rparr>,
     no_event\<lparr>EType := TypeEmergency, Title := ''Emergency Alert Drill'', Location := \<lparr>lName = ''Campus-wide'', Latitude = 0, Longitude = 0\<rparr>, Audience := [''CAMPUS'']\<rparr>]"

text \<open>\<open>picks\<close> are the random choices: a template and a number of hours for each event.\<close>

definition simulate :: "time \<Rightarrow> (nat \<times> nat) list \<Rightarrow> Event list" where
  "simulate now picks =
     map (\<lambda>(i, hours). let start = now + int hours * 3600000000000
            in (simulatorCatalog ! i)\<lparr>StartTime := Some start, EndTime := Some (start + 2 * 3600000000000), Source := ''SIMULATOR''\<rparr>) picks"

definition SimulatorSource :: "bool \<Rightarrow> time \<Rightarrow> (nat \<times> nat) list \<Rightarrow> EventSource" where
  "SimulatorSource cancelled now picks =
     \<lparr>FetchEvents = (if cancelled then None else Some (simulate now picks)), SourceName = ''SIMULATOR''\<rparr>"

section \<open>Properties\<close>

text \<open>The type of normalized events.\<close>

definition normalized :: "Event \<Rightarrow> bool" where
  "normalized e \<longleftrightarrow> validate e = None \<and> ID e \<noteq> '''' \<and> CreatedAt e \<noteq> None \<and> Urgency e \<noteq> '''' \<and> 0 < ExpectedTrafficMultiplier e
     \<and> Confidence e = confidenceFor e"

lemma classify_simps [simp]:
  "ID (classify e) = ID e" "EType (classify e) = EType e" "Title (classify e) = Title e" "Description (classify e) = Description e"
  "Location (classify e) = Location e" "StartTime (classify e) = StartTime e" "EndTime (classify e) = EndTime e"
  "ExpectedAttendance (classify e) = ExpectedAttendance e" "ExpectedTrafficMultiplier (classify e) = ExpectedTrafficMultiplier e"
  "Audience (classify e) = Audience e" "Source (classify e) = Source e" "CreatedAt (classify e) = CreatedAt e"
  by (simp_all add: classify_def)

lemma estimate_simps [simp]:
  "ID (estimateTraffic e) = ID e" "EType (estimateTraffic e) = EType e" "Title (estimateTraffic e) = Title e"
  "Description (estimateTraffic e) = Description e" "Location (estimateTraffic e) = Location e"
  "StartTime (estimateTraffic e) = StartTime e" "EndTime (estimateTraffic e) = EndTime e"
  "ExpectedAttendance (estimateTraffic e) = ExpectedAttendance e" "Urgency (estimateTraffic e) = Urgency e"
  "Audience (estimateTraffic e) = Audience e" "Source (estimateTraffic e) = Source e" "CreatedAt (estimateTraffic e) = CreatedAt e"
  by (simp_all add: estimateTraffic_def Let_def)

lemma classify_urgency: "Urgency (classify e) \<noteq> ''''" "Urgency e \<noteq> '''' \<Longrightarrow> classify e = e"
  by (simp_all add: classify_def urgency_defs)

lemma estimate_positive: "0 < ExpectedTrafficMultiplier (estimateTraffic e)" "0 < ExpectedTrafficMultiplier e \<Longrightarrow> estimateTraffic e = e"
  by (simp_all add: estimateTraffic_def Let_def add_pos_nonneg)

lemma validate_cong:
  "Title e = Title e' \<Longrightarrow> EType e = EType e' \<Longrightarrow> StartTime e = StartTime e' \<Longrightarrow> EndTime e = EndTime e' \<Longrightarrow>
   ExpectedAttendance e = ExpectedAttendance e' \<Longrightarrow> validate e = validate e'"
  unfolding validate_def by (simp only:)

lemma estimate_cong:
  "ExpectedTrafficMultiplier e = ExpectedTrafficMultiplier e' \<Longrightarrow> Urgency e = Urgency e' \<Longrightarrow> ExpectedAttendance e = ExpectedAttendance e' \<Longrightarrow>
   ExpectedTrafficMultiplier (estimateTraffic e) = ExpectedTrafficMultiplier (estimateTraffic e')"
  by (simp add: estimateTraffic_def Let_def)

lemma Normalize_normalized: "normalized e \<Longrightarrow> Normalize now rnd e = Inr e"
proof -
  assume n: "normalized e"
  then have "classify e = e" "estimateTraffic e = e" "confidenceFor e = Confidence e"
    by (simp_all add: normalized_def classify_urgency estimate_positive)
  moreover have "e\<lparr>Confidence := Confidence e\<rparr> = e" by simp
  ultimately show ?thesis using n by (auto simp: normalized_def Normalize_def Let_def)
qed


lemma simulated_normalized:
  assumes "i < length simulatorCatalog"
  shows "\<exists>n. Normalize t rnd ((simulatorCatalog ! i)\<lparr>StartTime := Some s, EndTime := Some (s + 2 * 3600000000000), Source := ''SIMULATOR''\<rparr>) = Inr n"
proof -
  have "\<forall>e \<in> set simulatorCatalog. validate (e\<lparr>StartTime := Some s, EndTime := Some (s + 2 * 3600000000000), Source := ''SIMULATOR''\<rparr>) = None"
    by (simp add: simulatorCatalog_def validate_def no_event_def valid_type_def type_defs)
  then show ?thesis using nth_mem [OF assms] by (simp add: Normalize_def Let_def)
qed

lemma ingest_simulator:
  assumes "\<forall>(i, h) \<in> set picks. i < length simulatorCatalog"
  shows "\<exists>es. FetchAndNormalize env (SimulatorSource False now picks) = Some es \<and> length es = length picks"
proof -
  have "length (normalize_all name env j (simulate now picks)) = length picks" for name j using assms
  proof (induction picks arbitrary: j)
    case (Cons p picks)
    obtain i h where p: "p = (i, h)" by (cases p)
    obtain n where "Normalize (fst (env j)) (snd (env j)) ((simulatorCatalog ! i)\<lparr>StartTime := Some (now + int h * 3600000000000),
        EndTime := Some (now + int h * 3600000000000 + 2 * 3600000000000), Source := ''SIMULATOR''\<rparr>) = Inr n"
      using simulated_normalized [of i "fst (env j)" "snd (env j)" "now + int h * 3600000000000"] Cons.prems p by auto
    then show ?case using Cons by (simp add: simulate_def p Let_def)
  qed (simp add: simulate_def)
  then show ?thesis by (simp add: FetchAndNormalize_def SimulatorSource_def)
qed

end
