(* ===== verification/Http.thy ===== *)
theory Http
  imports Json
begin

text \<open>
  What the servers use of \<^verbatim>\<open>net/url\<close>, \<^verbatim>\<open>net/http\<close> and of \<^verbatim>\<open>encoding/json\<close>'s streams: the path of a URL
  and its escaped form, headers, requests and responses, the route patterns of \<^verbatim>\<open>ServeMux\<close>, and the
  first value of a body.  A response is what the handler has written when it returns.  The base URL of a
  request to another process is opaque: only what follows the authority is parsed.
\<close>

section \<open>URLs\<close>

record url =
  Path :: string
  RawPath :: string
  RawQuery :: string

definition alnum :: "char \<Rightarrow> bool" where
  "alnum c \<longleftrightarrow> cont 48 57 c \<or> cont 65 90 c \<or> cont 97 122 c"

text \<open>\<^verbatim>\<open>shouldEscape(c, encodePath)\<close>.\<close>

definition should_escape :: "char \<Rightarrow> bool" where
  "should_escape c \<longleftrightarrow> \<not> (alnum c \<or> c \<in> set ''-_.~$&+,/:;=@'')"

definition upper_hex :: "nat \<Rightarrow> char" where
  "upper_hex d = (if d < 10 then chr (48 + d) else chr (55 + d))"

definition escape_path :: "string \<Rightarrow> string" where
  "escape_path s = concat (map (\<lambda>c. if should_escape c then [CHR ''%'', upper_hex (code c div 16), upper_hex (code c mod 16)] else [c]) s)"

fun unescape_path :: "string \<Rightarrow> string option" where
  "unescape_path [] = Some []"
| "unescape_path (c # r) =
     (if c = CHR ''%'' then
        (case r of
           a # b # r' \<Rightarrow>
             (case (hex_val a, hex_val b) of
                (Some x, Some y) \<Rightarrow> map_option ((#) (chr (x * 16 + y))) (unescape_path r')
              | _ \<Rightarrow> None)
         | _ \<Rightarrow> None)
      else map_option ((#) c) (unescape_path r))"

text \<open>\<^verbatim>\<open>validEncoded(s, encodePath)\<close>.\<close>

definition valid_encoded :: "string \<Rightarrow> bool" where
  "valid_encoded s \<longleftrightarrow> list_all (\<lambda>c. c \<in> set ''!$&()*+,;=:@[]%'' \<or> code c = 39 \<or> \<not> should_escape c) s"

definition EscapedPath :: "url \<Rightarrow> string" where
  "EscapedPath u =
     (if RawPath u \<noteq> '''' \<and> valid_encoded (RawPath u) \<and> unescape_path (RawPath u) = Some (Path u) then RawPath u
      else if Path u = ''*'' then ''*''
      else escape_path (Path u))"

definition ctl_byte :: "char \<Rightarrow> bool" where
  "ctl_byte c \<longleftrightarrow> code c < 32 \<or> code c = 127"

text \<open>The text up to a separator and the text behind it, as \<^verbatim>\<open>strings.Cut\<close>.\<close>

definition cut_at :: "char \<Rightarrow> string \<Rightarrow> string \<times> string" where
  "cut_at c s = (takeWhile (\<lambda>x. x \<noteq> c) s, drop 1 (dropWhile (\<lambda>x. x \<noteq> c) s))"

text \<open>\<^verbatim>\<open>parse\<close> and \<^verbatim>\<open>setPath\<close> on what follows the authority; a query that is only a question mark counts as none.\<close>

definition parse_url :: "string \<Rightarrow> url option" where
  "parse_url s =
     (if list_ex ctl_byte s then None
      else let (p, q) = cut_at (CHR ''?'') s
           in map_option (\<lambda>path. \<lparr>Path = path, RawPath = (if escape_path path = p then '''' else p), RawQuery = q\<rparr>) (unescape_path p))"

text \<open>\<^verbatim>\<open>url.Parse\<close> as the client of a request sees it, which splits off a fragment.\<close>

definition client_url :: "string \<Rightarrow> url option" where
  "client_url s =
     (let (u, frag) = cut_at (CHR ''#'') s
      in if unescape_path frag = None then None else parse_url u)"

definition RequestURI :: "url \<Rightarrow> string" where
  "RequestURI u =
     (let p = EscapedPath u
      in (if p = '''' then ''/'' else p) @ (if RawQuery u = '''' then '''' else CHR ''?'' # RawQuery u))"

section \<open>Messages\<close>

type_synonym header = "(string \<times> string list) list"

definition header_get :: "string \<Rightarrow> header \<Rightarrow> string" where
  "header_get k h = (case map_of h k of Some (v # _) \<Rightarrow> v | _ \<Rightarrow> '''')"

definition header_set :: "string \<Rightarrow> string \<Rightarrow> header \<Rightarrow> header" where
  "header_set k v h = AList.update k [v] h"

definition header_add :: "string \<Rightarrow> string \<Rightarrow> header \<Rightarrow> header" where
  "header_add k v h = AList.update k ((case map_of h k of None \<Rightarrow> [] | Some vs \<Rightarrow> vs) @ [v]) h"

text \<open>A body of \<open>None\<close> is one whose reading fails.\<close>

record HttpRequest =
  rqMethod :: string
  rqURL :: url
  rqHeader :: header
  rqBody :: "bytes option"
  RemoteAddr :: string

record HttpResponse =
  rsStatus :: nat
  rsHeader :: header
  rsBody :: bytes

text \<open>The text \<^verbatim>\<open>http.Error\<close> writes.\<close>

definition http_error :: "header \<Rightarrow> nat \<Rightarrow> string \<Rightarrow> HttpResponse" where
  "http_error w status msg =
     \<lparr>rsStatus = status,
      rsHeader = header_set ''X-Content-Type-Options'' ''nosniff'' (header_set ''Content-Type'' ''text/plain; charset=utf-8'' w),
      rsBody = str_bytes (msg @ [chr 10])\<rparr>"

text \<open>A value written by a JSON encoder, which ends with a newline.\<close>

definition json_body :: "string \<Rightarrow> bytes" where
  "json_body s = str_bytes (s @ [chr 10])"

section \<open>Routes\<close>

datatype segment = Lit string | Wild string

record route =
  rtMethod :: string
  rtPattern :: "segment list"

text \<open>The text of a pattern, as \<^verbatim>\<open>Request.Pattern\<close> has it.\<close>

definition pattern_text :: "route \<Rightarrow> string" where
  "pattern_text rt =
     rtMethod rt @ '' '' @ concat (map (\<lambda>s. case s of Lit l \<Rightarrow> CHR ''/'' # l | Wild n \<Rightarrow> ''/{'' @ n @ ''}'') (rtPattern rt))"

text \<open>The segments of a path after its leading slash.\<close>

fun split_slash :: "string \<Rightarrow> string list" where
  "split_slash [] = [[]]"
| "split_slash (c # r) =
     (if c = CHR ''/'' then [] # split_slash r
      else case split_slash r of [] \<Rightarrow> [[c]] | s # ss \<Rightarrow> (c # s) # ss)"

definition segment_text :: "string \<Rightarrow> string" where
  "segment_text s = (case unescape_path s of None \<Rightarrow> s | Some t \<Rightarrow> t)"

text \<open>A wildcard matches one segment, and never an empty one.\<close>

fun match_path :: "segment list \<Rightarrow> string list \<Rightarrow> string list option" where
  "match_path [] [] = Some []"
| "match_path (Lit l # ps) (s # ss) = (if segment_text s = l then match_path ps ss else None)"
| "match_path (Wild _ # ps) (s # ss) = (if s = [] then None else map_option ((#) (segment_text s)) (match_path ps ss))"
| "match_path _ _ = None"

text \<open>\<^verbatim>\<open>cleanPath\<close>: no empty segments and no dots, and a slash at the end where there was one.  The mux redirects a path it changes.\<close>

fun clean_segments :: "string list \<Rightarrow> string list \<Rightarrow> string list" where
  "clean_segments acc [] = rev acc"
| "clean_segments acc (s # ss) =
     (if s = '''' \<or> s = ''.'' then clean_segments acc ss
      else if s = ''..'' then clean_segments (drop 1 acc) ss
      else clean_segments (s # acc) ss)"

definition cleanPath :: "string \<Rightarrow> string" where
  "cleanPath p0 =
     (let p = (if p0 \<noteq> [] \<and> hd p0 = CHR ''/'' then p0 else CHR ''/'' # p0);
          ss = clean_segments [] (split_slash p)
      in if ss = [] then ''/''
         else concat (map (\<lambda>s. CHR ''/'' # s) ss) @ (if last p = CHR ''/'' then ''/'' else ''''))"

datatype 'h routed = Matched 'h "string list" | Redirected | MethodNotAllowed | NoRoute

definition method_matches :: "string \<Rightarrow> string \<Rightarrow> bool" where
  "method_matches registered m \<longleftrightarrow> registered = m \<or> registered = ''GET'' \<and> m = ''HEAD''"

text \<open>
  \<^verbatim>\<open>ServeMux\<close> prefers literal segments; the tables below have no two patterns that match the same
  method and path, so the first match is the only one.
\<close>

definition route_hits :: "(route \<times> 'h) list \<Rightarrow> string \<Rightarrow> (route \<times> 'h \<times> string list) list" where
  "route_hits table p =
     List.map_filter (\<lambda>(rt, h). map_option (\<lambda>vs. (rt, h, vs)) (match_path (rtPattern rt) (split_slash (tl p)))) table"

text \<open>The choice of the handler, and the pattern of the request, which is empty where none matches.\<close>

definition mux :: "(route \<times> 'h) list \<Rightarrow> HttpRequest \<Rightarrow> 'h routed \<times> string" where
  "mux table r =
     (let p = EscapedPath (rqURL r); hs = route_hits table (cleanPath p);
          found = filter (\<lambda>(rt, _). method_matches (rtMethod rt) (rqMethod r)) hs;
          pat = (case found of [] \<Rightarrow> '''' | (rt, _) # _ \<Rightarrow> pattern_text rt)
      in (if cleanPath p \<noteq> p then Redirected
          else case found of
             (_, h, vs) # _ \<Rightarrow> Matched h vs
           | [] \<Rightarrow> if hs = [] then NoRoute else MethodNotAllowed, pat))"

text \<open>The answers of the mux itself; the page and target of a redirect are left out.\<close>

definition mux_page :: "header \<Rightarrow> 'h routed \<Rightarrow> HttpResponse" where
  "mux_page w d =
     (case d of
        Redirected \<Rightarrow> \<lparr>rsStatus = 301, rsHeader = w, rsBody = []\<rparr>
      | MethodNotAllowed \<Rightarrow> http_error w 405 ''Method Not Allowed''
      | _ \<Rightarrow> http_error w 404 ''404 page not found'')"

section \<open>JSON streams\<close>

text \<open>\<^verbatim>\<open>Decoder.Decode\<close> takes the first value of the body and does not look at what follows.\<close>

definition decode_first :: "bytes option \<Rightarrow> json option" where
  "decode_first body =
     (case body of
        None \<Rightarrow> None
      | Some b \<Rightarrow> map_option fst (parse_value (length b + 1) (bytes_str b)))"

text \<open>A \<^verbatim>\<open>json.RawMessage\<close> keeps the text of a value: the object is read again, with the literal text in place of every member's value.\<close>

definition raw_value :: "nat \<Rightarrow> string \<Rightarrow> (json \<times> string) option" where
  "raw_value f s = map_option (\<lambda>(_, r). (JNum (take (length (skip_ws s) - length r) (skip_ws s)), r)) (parse_value f s)"

definition raw_field :: "string \<Rightarrow> bytes \<Rightarrow> string" where
  "raw_field name b =
     (case skip_ws (bytes_str b) of
        c # r \<Rightarrow>
          if c = CHR ''{'' then
            (case parse_compound (raw_value (length b)) (length b) c r of
               Some (JObj ms, _) \<Rightarrow>
                 (case rev (obj_values name ms) of JNum l # _ \<Rightarrow> l | _ \<Rightarrow> '''')
             | _ \<Rightarrow> '''')
          else ''''
      | [] \<Rightarrow> '''')"

text \<open>\<^verbatim>\<open>compact\<close> with HTML escapes; the flag says that the text is inside a string.\<close>

fun compact :: "bool \<Rightarrow> string \<Rightarrow> string" where
  "compact inside [] = []"
| "compact False (c # r) = (if is_ws c then compact False r else c # compact (c = quote) r)"
| "compact True (c # r) =
     (if c = backslash then (case r of [] \<Rightarrow> [c] | e # r' \<Rightarrow> c # e # compact True r')
      else if c = quote then c # compact False r
      else if code c = 60 \<or> code c = 62 \<or> code c = 38
        then [backslash, CHR ''u'', CHR ''0'', CHR ''0'', hex_char (code c div 16), hex_char (code c mod 16)] @ compact True r
      else if code c = 226 \<and> map code (take 2 r) = [128, 168] then backslash # ''u2028'' @ compact True (drop 2 r)
      else if code c = 226 \<and> map code (take 2 r) = [128, 169] then backslash # ''u2029'' @ compact True (drop 2 r)
      else c # compact True r)"

definition print_raw :: "string \<Rightarrow> string option" where
  "print_raw s = (if s = '''' then Some ''null'' else if json_parse s = None then None else Some (compact False s))"

end
