(* ===== verification/Event_Json.thy ===== *)
theory Event_Json
  imports Events State_Machine Http
begin

text \<open>
  The JSON text of an event (the struct tags of \<^verbatim>\<open>internal/events/event.go\<close>): what \<^verbatim>\<open>Marshal\<close> writes and
  what \<^verbatim>\<open>Unmarshal\<close> reads.  A \<^verbatim>\<open>float64\<close> is an exact rational; it is printed with its decimals up to the
  seventeenth and never with an exponent.
\<close>

section \<open>Numbers\<close>

primrec frac_digits :: "nat \<Rightarrow> rat \<Rightarrow> string" where
  "frac_digits 0 x = []"
| "frac_digits (Suc n) x = (if x = 0 then [] else let d = \<lfloor>10 * x\<rfloor> in chr (48 + nat d) # frac_digits n (10 * x - of_int d))"

definition print_float :: "rat \<Rightarrow> string" where
  "print_float x =
     (let a = \<bar>x\<bar>; ds = frac_digits 17 (a - of_int \<lfloor>a\<rfloor>)
      in (if x < 0 then ''-'' else '''') @ print_nat (nat \<lfloor>a\<rfloor>) @ (if ds = [] then [] else CHR ''.'' # ds))"

definition parse_exp :: "string \<Rightarrow> int" where
  "parse_exp s =
     (case s of
        c # r \<Rightarrow> if c = CHR ''-'' then - int (nat_of_digits r) else if c = CHR ''+'' then int (nat_of_digits r) else int (nat_of_digits s)
      | [] \<Rightarrow> 0)"

text \<open>The value of a number literal; the range of \<^verbatim>\<open>float64\<close> is not checked.\<close>

definition parse_float :: "string \<Rightarrow> rat" where
  "parse_float l =
     (let neg = (l \<noteq> [] \<and> hd l = CHR ''-''); l1 = (if neg then tl l else l);
          (mant, ex) = (if CHR ''e'' \<in> set l1 then cut_at (CHR ''e'') l1 else cut_at (CHR ''E'') l1);
          (ip, fp) = cut_at (CHR ''.'') mant;
          m = of_nat (nat_of_digits (ip @ fp)) / 10 ^ length fp; e = parse_exp ex;
          v = (if e < 0 then m / 10 ^ nat (- e) else m * 10 ^ nat e)
      in if neg then - v else v)"

fun dec_float :: "json \<Rightarrow> rat option" where
  "dec_float (JNum l) = Some (parse_float l)"
| "dec_float _ = None"

section \<open>Events\<close>

definition encode_location :: "Location \<Rightarrow> json" where
  "encode_location l =
     JObj ([(''name'', JStr (lName l))]
       @ (if Latitude l = 0 then [] else [(''latitude'', JNum (print_float (Latitude l)))])
       @ (if Longitude l = 0 then [] else [(''longitude'', JNum (print_float (Longitude l)))]))"

definition encode_event :: "Event \<Rightarrow> json option" where
  "encode_event e =
     (case (print_time (instant (StartTime e)), print_time (instant (EndTime e)), print_time (instant (CreatedAt e))) of
        (Some s, Some t, Some c) \<Rightarrow>
          Some (JObj ([(''id'', JStr (ID e)), (''type'', JStr (EType e)), (''title'', JStr (Title e))]
            @ (if Description e = '''' then [] else [(''description'', JStr (Description e))])
            @ [(''location'', encode_location (Location e)), (''start_time'', JStr s), (''end_time'', JStr t)]
            @ (if ExpectedAttendance e = 0 then [] else [(''expected_attendance'', JNum (print_int (ExpectedAttendance e)))])
            @ (if ExpectedTrafficMultiplier e = 0 then [] else [(''expected_traffic_multiplier'', JNum (print_float (ExpectedTrafficMultiplier e)))])
            @ (if Urgency e = '''' then [] else [(''urgency'', JStr (Urgency e))])
            @ (if Audience e = [] then [] else [(''audience'', JArr (map JStr (Audience e)))])
            @ (if Source e = '''' then [] else [(''source'', JStr (Source e))])
            @ [(''created_at'', JStr c)]
            @ (if Confidence e = 0 then [] else [(''confidence'', JNum (print_float (Confidence e)))])))
      | _ \<Rightarrow> None)"

fun dec_location :: "json \<Rightarrow> Location option" where
  "dec_location (JObj ms) =
     (case (decode_field dec_string '''' ''name'' ms, decode_field dec_float 0 ''latitude'' ms, decode_field dec_float 0 ''longitude'' ms) of
        (Some n, Some la, Some lo) \<Rightarrow> Some \<lparr>lName = n, Latitude = la, Longitude = lo\<rparr>
      | _ \<Rightarrow> None)"
| "dec_location _ = None"

fun dec_strings :: "json \<Rightarrow> string list option" where
  "dec_strings (JArr vs) = collect (\<lambda>v. if v = JNull then Some '''' else dec_string v) vs"
| "dec_strings _ = None"

fun decode_event :: "json \<Rightarrow> Event option" where
  "decode_event (JObj ms) =
     (case (decode_field dec_string '''' ''id'' ms, decode_field dec_string '''' ''type'' ms,
            decode_field dec_string '''' ''title'' ms, decode_field dec_string '''' ''description'' ms) of
        (Some i, Some ty, Some ti, Some de) \<Rightarrow>
     (case (decode_field dec_location (Location no_event) ''location'' ms, decode_field dec_time zero_time ''start_time'' ms,
            decode_field dec_time zero_time ''end_time'' ms, decode_field dec_time zero_time ''created_at'' ms) of
        (Some lo, Some st, Some en, Some cr) \<Rightarrow>
     (case (decode_field dec_int64 0 ''expected_attendance'' ms, decode_field dec_float 0 ''expected_traffic_multiplier'' ms,
            decode_field dec_float 0 ''confidence'' ms) of
        (Some at', Some mu, Some co) \<Rightarrow>
     (case (decode_field dec_string '''' ''urgency'' ms, decode_field dec_strings [] ''audience'' ms,
            decode_field dec_string '''' ''source'' ms) of
        (Some ur, Some au, Some so) \<Rightarrow>
          Some \<lparr>ID = i, EType = ty, Title = ti, Description = de, Location = lo, StartTime = of_instant st,
                EndTime = of_instant en, ExpectedAttendance = at', ExpectedTrafficMultiplier = mu, Urgency = ur,
                Audience = au, Source = so, CreatedAt = of_instant cr, Confidence = co\<rparr>
      | _ \<Rightarrow> None) | _ \<Rightarrow> None) | _ \<Rightarrow> None) | _ \<Rightarrow> None)"
| "decode_event JNull = Some no_event"
| "decode_event _ = None"

end
