(* ===== verification/Metrics.thy ===== *)
theory Metrics
  imports Http Workload
begin

text \<open>
  The metrics of a process (\<^verbatim>\<open>internal/metrics/metrics.go\<close>).  The Prometheus library is not part of the
  program: the model keeps the gauges handed to its registry, with the function that reads each of
  them at scrape time, and the calls made to the two HTTP instruments.  Gauge functions read a
  state of type \<open>'s\<close>, which stands for what the callbacks capture.
\<close>

definition namespace :: string where "namespace = ''boilerpulse''"

record RaftStats =
  msTerm :: nat
  msIsLeader :: bool
  msCommitIndex :: nat
  msLastApplied :: nat
  msLastLogIndex :: nat

record StorageStats =
  msMemtableBytes :: int
  msMemtableEntries :: nat
  msSSTables :: nat

record CacheStats =
  msHits :: int
  msMisses :: int
  msEvictions :: int

record WorkloadStats =
  msMode :: string
  msRPS :: rat

type_synonym labels = "(string \<times> string) list"

record 's gauge_func =
  gSubsystem :: string
  gName :: string
  gHelp :: string
  gLabels :: labels
  gRead :: "'s \<Rightarrow> rat"

record 's Metrics =
  registry :: "'s gauge_func list"
  mlabels :: labels
  httpRequests :: "(string \<times> string \<times> string) list"
  httpDuration :: "((string \<times> string) \<times> rat) list"

definition metrics_New :: "string \<Rightarrow> string \<Rightarrow> 's Metrics" where
  "metrics_New service instance' =
     \<lparr>registry = [], mlabels = [(''service'', service), (''instance'', instance')], httpRequests = [], httpDuration = []\<rparr>"

definition statusText :: "nat \<Rightarrow> string" where
  "statusText status =
     (if status \<ge> 500 then ''5xx'' else if status \<ge> 400 then ''4xx'' else if status \<ge> 300 then ''3xx''
      else if status \<ge> 200 then ''2xx'' else ''1xx'')"

text \<open>\<open>next\<close> answers the request and gives the pattern it matched; \<open>took\<close> is the time it needed.  Every handler writes a status.\<close>

definition Middleware ::
  "('x \<Rightarrow> (HttpResponse \<times> string) \<times> 'x) \<Rightarrow> int \<Rightarrow> HttpRequest \<Rightarrow> 'x \<Rightarrow> 's Metrics \<Rightarrow> HttpResponse \<times> 'x \<times> 's Metrics" where
  "Middleware next took r x m =
     (let ((resp, pattern), x') = next x;
          route = (if pattern = '''' then ''unmatched'' else pattern)
      in (resp, x', m\<lparr>httpRequests := httpRequests m @ [(rqMethod r, route, statusText (rsStatus resp))],
                      httpDuration := httpDuration m @ [((rqMethod r, route), Seconds took)]\<rparr>))"

definition register :: "'s gauge_func \<Rightarrow> 's Metrics \<Rightarrow> 's Metrics" where
  "register g m = m\<lparr>registry := registry m @ [g]\<rparr>"

definition gauge :: "string \<Rightarrow> string \<Rightarrow> string \<Rightarrow> ('s \<Rightarrow> rat) \<Rightarrow> 's Metrics \<Rightarrow> 's Metrics" where
  "gauge subsystem name help fn m =
     register \<lparr>gSubsystem = subsystem, gName = name, gHelp = help, gLabels = mlabels m, gRead = fn\<rparr> m"

definition apply_lag :: "RaftStats \<Rightarrow> rat" where
  "apply_lag s = (if msCommitIndex s < msLastApplied s then 0 else of_nat (msCommitIndex s - msLastApplied s))"

definition RegisterRaftSource :: "('s \<Rightarrow> RaftStats) \<Rightarrow> 's Metrics \<Rightarrow> 's Metrics" where
  "RegisterRaftSource fn m =
     fold (\<lambda>(name, help, f). gauge ''raft'' name help f)
       [(''term'', ''Current Raft term.'', \<lambda>s. of_nat (msTerm (fn s))),
        (''is_leader'', ''1 if this node is the Raft leader, else 0.'', \<lambda>s. if msIsLeader (fn s) then 1 else 0),
        (''commit_index'', ''Highest log index known to be committed.'', \<lambda>s. of_nat (msCommitIndex (fn s))),
        (''last_applied'', ''Highest log index applied to the state machine.'', \<lambda>s. of_nat (msLastApplied (fn s))),
        (''last_log_index'', ''Highest index in the local Raft log.'', \<lambda>s. of_nat (msLastLogIndex (fn s))),
        (''apply_lag'', ''commit_index minus last_applied.'', \<lambda>s. apply_lag (fn s))] m"

definition RegisterStorageSource :: "('s \<Rightarrow> StorageStats) \<Rightarrow> 's Metrics \<Rightarrow> 's Metrics" where
  "RegisterStorageSource fn m =
     fold (\<lambda>(name, help, f). gauge ''storage'' name help f)
       [(''memtable_bytes'', ''Approximate size of the in-memory memtable.'', \<lambda>s. of_int (msMemtableBytes (fn s))),
        (''memtable_entries'', ''Number of entries in the memtable.'', \<lambda>s. of_nat (msMemtableEntries (fn s))),
        (''sstables'', ''Number of on-disk SSTables.'', \<lambda>s. of_nat (msSSTables (fn s)))] m"

definition RegisterCacheSource :: "('s \<Rightarrow> CacheStats) \<Rightarrow> 's Metrics \<Rightarrow> 's Metrics" where
  "RegisterCacheSource fn m =
     fold (\<lambda>(name, help, f). gauge ''cache'' name help f)
       [(''hits_total'', ''Cumulative cache hits.'', \<lambda>s. of_int (msHits (fn s))),
        (''misses_total'', ''Cumulative cache misses.'', \<lambda>s. of_int (msMisses (fn s))),
        (''evictions_total'', ''Cumulative cache evictions.'', \<lambda>s. of_int (msEvictions (fn s)))] m"

definition Modes :: "string list" where
  "Modes = [''NORMAL'', ''ELEVATED'', ''HIGH_TRAFFIC'', ''CRITICAL'']"

text \<open>A later pair wins.\<close>

definition mergeLabels :: "labels \<Rightarrow> labels \<Rightarrow> labels" where
  "mergeLabels base extra = fold (\<lambda>(k, v). AList.update k v) extra base"

definition RegisterWorkloadSource :: "('s \<Rightarrow> WorkloadStats) \<Rightarrow> 's Metrics \<Rightarrow> 's Metrics" where
  "RegisterWorkloadSource fn m =
     fold (\<lambda>mode m. register \<lparr>gSubsystem = ''workload'', gName = ''mode'',
            gHelp = ''1 for the currently active workload mode, 0 for the others.'',
            gLabels = mergeLabels (mlabels m) [(''mode'', mode)],
            gRead = (\<lambda>s. if msMode (fn s) = mode then 1 else 0)\<rparr> m) Modes
       (gauge ''workload'' ''rps'' ''Requests per second observed by the gateway.'' (\<lambda>s. msRPS (fn s)) m)"

section \<open>What a scrape shows\<close>

definition scrape :: "'s Metrics \<Rightarrow> 's \<Rightarrow> ((string \<times> string \<times> labels) \<times> rat) list" where
  "scrape m s = map (\<lambda>g. ((gSubsystem g, gName g, gLabels g), gRead g s)) (registry m)"

text \<open>Of the mode gauges exactly the one of the current mode is 1: the modes the workload engine reports are the modes registered.\<close>

lemma mode_gauges_one_hot:
  assumes "msMode (fn s) \<in> {ModeNormal, ModeElevated, ModeHighTraffic, ModeCritical}"
  shows "filter (\<lambda>((_, name, _), v). name = ''mode'' \<and> v = 1) (scrape (RegisterWorkloadSource fn (metrics_New sv i)) s)
    = [((''workload'', ''mode'', [(''service'', sv), (''instance'', i), (''mode'', msMode (fn s))]), 1)]"
  using assms
  by (auto simp: scrape_def RegisterWorkloadSource_def Modes_def gauge_def register_def metrics_New_def mergeLabels_def
      ModeNormal_def ModeElevated_def ModeHighTraffic_def ModeCritical_def)

text \<open>The route label is a pattern of the route table or the word for no match, whatever keys clients use.\<close>

lemma route_labels_bounded:
  assumes "Middleware (\<lambda>x. ((f x, snd (mux table r)), x)) took r x m = (resp, x', m')"
    and "set (map (\<lambda>(_, route, _). route) (httpRequests m)) \<subseteq> insert ''unmatched'' (set (map (\<lambda>(rt, _). pattern_text rt) table))"
  shows "set (map (\<lambda>(_, route, _). route) (httpRequests m')) \<subseteq> insert ''unmatched'' (set (map (\<lambda>(rt, _). pattern_text rt) table))"
proof -
  have p: "snd (mux table r) = '''' \<or> snd (mux table r) \<in> set (map (\<lambda>(rt, _). pattern_text rt) table)"
  proof -
    let ?hs = "route_hits table (cleanPath (EscapedPath (rqURL r)))"
    have sub: "rt \<in> fst ` set table" if "(rt, y) \<in> set ?hs" for rt y
      using that by (force simp: route_hits_def List.map_filter_def split: option.splits)
    show ?thesis
    proof (cases "filter (\<lambda>(rt, _). method_matches (rtMethod rt) (rqMethod r)) ?hs")
      case Nil
      then show ?thesis by (simp add: mux_def Let_def)
    next
      case (Cons a as)
      obtain rt y where a: "a = (rt, y)" by (cases a)
      have "a \<in> set (filter (\<lambda>(rt, _). method_matches (rtMethod rt) (rqMethod r)) ?hs)" unfolding Cons by simp
      then have "rt \<in> fst ` set table" using sub [of rt y] a by auto
      then show ?thesis using Cons a by (force simp: mux_def Let_def)
    qed
  qed
  have "httpRequests m' = httpRequests m @
      [(rqMethod r, if snd (mux table r) = '''' then ''unmatched'' else snd (mux table r), statusText (rsStatus (f x)))]"
    using assms(1) by (auto simp: Middleware_def Let_def)
  then show ?thesis using p assms(2) by (cases "snd (mux table r) = []") simp_all
qed

end
