(* ===== verification/Api.thy ===== *)
theory Api
  imports Event_Json State_Props Metrics
begin

text \<open>
  The HTTP API of a node (\<^verbatim>\<open>internal/api\<close>) and the adapter of \<^verbatim>\<open>cmd/node\<close> that puts a Raft node behind it.
  A handler takes the headers already set on the response and the state shared by the engine and the
  proposer, so that what a proposal does to the engine before it returns is visible to the server.
  Two texts of the library that only appear in error messages are arguments: the quoting of \<^verbatim>\<open>%q\<close> and
  the text of a JSON error.
\<close>

section \<open>Errors and responses\<close>

definition ErrCodeKeyNotFound :: string where "ErrCodeKeyNotFound = ''KEY_NOT_FOUND''"
definition ErrInvalidRequest :: string where "ErrInvalidRequest = ''INVALID_REQUEST''"
definition ErrInternal :: string where "ErrInternal = ''INTERNAL_ERROR''"
definition ErrLeaderUnavailable :: string where "ErrLeaderUnavailable = ''LEADER_UNAVAILABLE''"
definition ErrQuorumUnavailable :: string where "ErrQuorumUnavailable = ''QUORUM_UNAVAILABLE''"
definition ErrNodeUnavailable :: string where "ErrNodeUnavailable = ''NODE_UNAVAILABLE''"
definition ErrRateLimited :: string where "ErrRateLimited = ''RATE_LIMITED''"
definition ErrUnauthorized :: string where "ErrUnauthorized = ''UNAUTHORIZED''"

text \<open>A body that cannot be encoded is dropped; the status is already sent.\<close>

definition writeJSON :: "header \<Rightarrow> nat \<Rightarrow> string option \<Rightarrow> HttpResponse" where
  "writeJSON w status body =
     \<lparr>rsStatus = status, rsHeader = header_set ''Content-Type'' ''application/json'' w,
      rsBody = (case body of None \<Rightarrow> [] | Some s \<Rightarrow> json_body s)\<rparr>"

definition ErrorBody :: "string \<Rightarrow> string \<Rightarrow> json" where
  "ErrorBody c message = JObj [(''error'', JObj [(''code'', JStr c), (''message'', JStr message)])]"

definition writeError :: "header \<Rightarrow> nat \<Rightarrow> string \<Rightarrow> string \<Rightarrow> HttpResponse" where
  "writeError w status c message = writeJSON w status (Some (json_print (ErrorBody c message)))"

definition noContent :: "header \<Rightarrow> HttpResponse" where
  "noContent w = \<lparr>rsStatus = 204, rsHeader = w, rsBody = []\<rparr>"

record texts =
  Quote :: "string \<Rightarrow> string"
  DecodeErr :: "bytes option \<Rightarrow> string"

section \<open>The server\<close>

record RaftStatus =
  apState :: string
  apTerm :: nat
  apLeaderID :: string
  apIsLeader :: bool

text \<open>\<^verbatim>\<open>Propose\<close> gives the text of its error.\<close>

record 'e Proposer =
  Propose :: "Command \<Rightarrow> 'e \<Rightarrow> string option \<times> 'e"
  ProposerStatus :: "'e \<Rightarrow> RaftStatus"

record 'e Server =
  engine :: "'e KVEngine"
  srvNodeID :: string
  proposer :: "'e Proposer option"
  allowedOrigin :: string

definition NewServer :: "'e KVEngine \<Rightarrow> string \<Rightarrow> 'e Server" where
  "NewServer E nid = \<lparr>engine = E, srvNodeID = nid, proposer = None, allowedOrigin = ''*''\<rparr>"

definition SetProposer :: "'e Proposer \<Rightarrow> 'e Server \<Rightarrow> 'e Server" where
  "SetProposer p s = s\<lparr>proposer := Some p\<rparr>"

definition SetAllowedOrigin :: "string \<Rightarrow> 'e Server \<Rightarrow> 'e Server" where
  "SetAllowedOrigin origin s = s\<lparr>allowedOrigin := (if origin = '''' then ''*'' else origin)\<rparr>"

text \<open>The readings of the clock and the random bytes of a request.\<close>

record reading =
  rdNow :: time
  rdCreated :: time
  rdRandom :: bytes

section \<open>Keys\<close>

record putRequest =
  prValue :: string
  prConsistency :: string
  prTTLSeconds :: int

definition decode_put :: "bytes option \<Rightarrow> putRequest option" where
  "decode_put body =
     (case decode_first body of
        Some (JObj members) \<Rightarrow>
          (case (decode_field dec_string '''' ''consistency'' members, decode_field dec_int64 0 ''ttl_seconds'' members) of
             (Some c, Some t) \<Rightarrow> Some \<lparr>prValue = raw_field ''value'' (the body), prConsistency = c, prTTLSeconds = t\<rparr>
           | _ \<Rightarrow> None)
      | Some JNull \<Rightarrow> Some \<lparr>prValue = '''', prConsistency = '''', prTTLSeconds = 0\<rparr>
      | _ \<Rightarrow> None)"

definition getResponse :: "Entry \<Rightarrow> string option" where
  "getResponse en =
     map_option (\<lambda>v. ''{'' @ print_string ''value'' @ '':'' @ v @ '','' @ print_string ''consistency'' @ '':'' @ print_string (Consistency en) @ ''}'')
       (print_raw (bytes_str (Value en)))"

definition notLeaderMessage :: "texts \<Rightarrow> RaftStatus \<Rightarrow> string" where
  "notLeaderMessage L st =
     (if apLeaderID st \<noteq> '''' then ''this node is not the Raft leader; current leader is '' @ Quote L (apLeaderID st)
      else ''this node is not the Raft leader and no leader is currently known'')"

text \<open>The response of a failed proposal, or \<open>None\<close> when it went through.\<close>

definition writeThroughRaft :: "texts \<Rightarrow> header \<Rightarrow> 'e Proposer \<Rightarrow> Command \<Rightarrow> 'e \<Rightarrow> HttpResponse option \<times> 'e" where
  "writeThroughRaft L w p cmd e =
     (let st = ProposerStatus p e
      in if \<not> apIsLeader st then (Some (writeError w 503 ErrLeaderUnavailable (notLeaderMessage L st)), e)
         else case Propose p cmd e of
             (Some err, e') \<Rightarrow> (Some (writeError w 503 ErrLeaderUnavailable (''failed to commit write: '' @ err)), e')
           | (None, e') \<Rightarrow> (None, e'))"

definition notFound :: "texts \<Rightarrow> header \<Rightarrow> string \<Rightarrow> HttpResponse" where
  "notFound L w key = writeError w 404 ErrCodeKeyNotFound (''key '' @ Quote L key @ '' not found'')"

definition default_consistency :: "string \<Rightarrow> string option" where
  "default_consistency c =
     (if c = '''' then Some ConsistencyEventual
      else if c = ConsistencyStrong \<or> c = ConsistencyEventual \<or> c = ConsistencyCritical then Some c
      else None)"

definition handlePut :: "texts \<Rightarrow> reading \<Rightarrow> 'e Server \<Rightarrow> header \<Rightarrow> string \<Rightarrow> HttpRequest \<Rightarrow> 'e \<Rightarrow> HttpResponse \<times> 'e" where
  "handlePut L rd s w key r e =
     (case decode_put (rqBody r) of
        None \<Rightarrow> (writeError w 400 ErrInvalidRequest (''invalid JSON body: '' @ DecodeErr L (rqBody r)), e)
      | Some req \<Rightarrow>
          if prValue req = '''' then (writeError w 400 ErrInvalidRequest (print_string ''value'' @ '' is required''), e)
          else if prTTLSeconds req < 0 then (writeError w 400 ErrInvalidRequest (print_string ''ttl_seconds'' @ '' must not be negative''), e)
          else case default_consistency (prConsistency req) of
            None \<Rightarrow> (writeError w 400 ErrInvalidRequest (print_string ''consistency'' @ '' must be one of STRONG, EVENTUAL, CRITICAL''), e)
          | Some consistency \<Rightarrow>
             let value = str_bytes (prValue req);
                 cmd = \<lparr>cOp = CommandSet, cKey = key, cValue = value, cConsistency = consistency, cTTLSeconds = prTTLSeconds req\<rparr>
             in case proposer s of
                  Some p \<Rightarrow>
                    (case writeThroughRaft L w p cmd e of
                       (Some resp, e') \<Rightarrow> (resp, e')
                     | (None, e') \<Rightarrow> (noContent w, e'))
                | None \<Rightarrow>
                    (case ePut (engine s) e (rdNow rd) key value consistency (ttl_duration (prTTLSeconds req)) of
                       (Some _, e') \<Rightarrow> (writeError w 500 ErrInternal ''failed to store value'', e')
                     | (None, e') \<Rightarrow> (noContent w, e')))"

definition handleGet :: "texts \<Rightarrow> reading \<Rightarrow> 'e Server \<Rightarrow> header \<Rightarrow> string \<Rightarrow> 'e \<Rightarrow> HttpResponse" where
  "handleGet L rd s w key e =
     (case eGet (engine s) e (rdNow rd) key of
        Inl err \<Rightarrow> if err = ErrKeyNotFound then notFound L w key else writeError w 500 ErrInternal ''failed to read value''
      | Inr en \<Rightarrow> writeJSON w 200 (getResponse en))"

definition handleDelete :: "texts \<Rightarrow> reading \<Rightarrow> 'e Server \<Rightarrow> header \<Rightarrow> string \<Rightarrow> 'e \<Rightarrow> HttpResponse \<times> 'e" where
  "handleDelete L rd s w key e =
     (case proposer s of
        Some p \<Rightarrow>
          (case eGet (engine s) e (rdNow rd) key of
             Inl err \<Rightarrow> (if err = ErrKeyNotFound then notFound L w key else writeError w 500 ErrInternal ''failed to delete value'', e)
           | Inr _ \<Rightarrow>
              (case writeThroughRaft L w p \<lparr>cOp = CommandDelete, cKey = key, cValue = [], cConsistency = '''', cTTLSeconds = 0\<rparr> e of
                 (Some resp, e') \<Rightarrow> (resp, e')
               | (None, e') \<Rightarrow> (noContent w, e')))
      | None \<Rightarrow>
          (case eDelete (engine s) e (rdNow rd) key of
             (Some err, e') \<Rightarrow> (if err = ErrKeyNotFound then notFound L w key else writeError w 500 ErrInternal ''failed to delete value'', e')
           | (None, e') \<Rightarrow> (noContent w, e')))"

section \<open>Events\<close>

definition eventKeyPrefix :: string where "eventKeyPrefix = ''event:''"

definition consistencyForUrgency :: "Urgency \<Rightarrow> Consistency" where
  "consistencyForUrgency u =
     (if u = UrgencyCritical then ConsistencyCritical
      else if u = UrgencyHigh \<or> u = UrgencyScheduledSpike then ConsistencyStrong
      else ConsistencyEventual)"

definition applyWrite :: "texts \<Rightarrow> reading \<Rightarrow> 'e Server \<Rightarrow> header \<Rightarrow> Command \<Rightarrow> 'e \<Rightarrow> HttpResponse option \<times> 'e" where
  "applyWrite L rd s w cmd e =
     (case proposer s of
        Some p \<Rightarrow> writeThroughRaft L w p cmd e
      | None \<Rightarrow>
          if cOp cmd = CommandSet then
            (case ePut (engine s) e (rdNow rd) (cKey cmd) (cValue cmd) (cConsistency cmd) (ttl_duration (cTTLSeconds cmd)) of
               (Some _, e') \<Rightarrow> (Some (writeError w 500 ErrInternal ''failed to store value''), e')
             | (None, e') \<Rightarrow> (None, e'))
          else if cOp cmd = CommandDelete then
            (case eDelete (engine s) e (rdNow rd) (cKey cmd) of
               (Some _, e') \<Rightarrow> (Some (writeError w 500 ErrInternal ''failed to delete value''), e')
             | (None, e') \<Rightarrow> (None, e'))
          else (None, e))"

definition invalid_text :: "texts \<Rightarrow> invalid_event \<Rightarrow> string" where
  "invalid_text L i = ''events: invalid event: '' @
     (case i of
        TitleRequired \<Rightarrow> ''title is required''
      | UnknownType t \<Rightarrow> ''unknown event type '' @ Quote L t
      | StartRequired \<Rightarrow> ''start_time is required''
      | EndBeforeStart \<Rightarrow> ''end_time must not be before start_time''
      | NegativeAttendance \<Rightarrow> ''expected_attendance must not be negative'')"

definition event_command :: "Event \<Rightarrow> string \<Rightarrow> Command" where
  "event_command ev text =
     \<lparr>cOp = CommandSet, cKey = eventKeyPrefix @ ID ev, cValue = str_bytes text,
      cConsistency = consistencyForUrgency (Urgency ev), cTTLSeconds = 0\<rparr>"

definition handlePostEvent :: "texts \<Rightarrow> reading \<Rightarrow> 'e Server \<Rightarrow> header \<Rightarrow> HttpRequest \<Rightarrow> 'e \<Rightarrow> HttpResponse \<times> 'e" where
  "handlePostEvent L rd s w r e =
     (case Option.bind (decode_first (rqBody r)) decode_event of
        None \<Rightarrow> (writeError w 400 ErrInvalidRequest (''invalid JSON body: '' @ DecodeErr L (rqBody r)), e)
      | Some raw \<Rightarrow>
         (case Normalize (rdCreated rd) (rdRandom rd) raw of
            Inl i \<Rightarrow> (writeError w 400 ErrInvalidRequest (invalid_text L i), e)
          | Inr nev \<Rightarrow>
             (case encode_event nev of
                None \<Rightarrow> (writeError w 500 ErrInternal ''failed to encode event'', e)
              | Some j \<Rightarrow>
                 (case applyWrite L rd s w (event_command nev (json_print j)) e of
                    (Some resp, e') \<Rightarrow> (resp, e')
                  | (None, e') \<Rightarrow> (writeJSON w 201 (Some (json_print j)), e')))))"

text \<open>
  The order of a Go map is not specified and \<^verbatim>\<open>sort.Slice\<close> is not stable: events that start at the same time
  come in the order the engine scans them.
\<close>

definition stored_events :: "(string \<times> Entry) list \<Rightarrow> Event list" where
  "stored_events es =
     sort_key (\<lambda>ev. instant (StartTime ev))
       (List.map_filter (\<lambda>(_, en). Option.bind (json_parse (bytes_str (Value en))) decode_event) es)"

definition handleListEvents :: "reading \<Rightarrow> 'e Server \<Rightarrow> header \<Rightarrow> 'e \<Rightarrow> HttpResponse" where
  "handleListEvents rd s w e =
     (case eScan (engine s) e (rdNow rd) eventKeyPrefix of
        Inl _ \<Rightarrow> writeError w 500 ErrInternal ''failed to list events''
      | Inr found \<Rightarrow>
          writeJSON w 200 (map_option (\<lambda>js. json_print (JObj [(''events'', JArr js)])) (collect encode_event (stored_events found))))"

section \<open>Cluster status\<close>

definition clusterNode :: "string \<Rightarrow> string \<Rightarrow> string \<Rightarrow> json" where
  "clusterNode i role status = JObj [(''id'', JStr i), (''role'', JStr role), (''status'', JStr status)]"

definition clusterResponse :: "string \<Rightarrow> nat \<Rightarrow> json list \<Rightarrow> json" where
  "clusterResponse cmode term ns =
     JObj ([(''mode'', JStr cmode)] @ (if term = 0 then [] else [(''term'', JNum (print_nat term))]) @ [(''nodes'', JArr ns)])"

definition cluster_json :: "'e Server \<Rightarrow> 'e \<Rightarrow> json" where
  "cluster_json s e =
     (case proposer s of
        None \<Rightarrow> clusterResponse ''SINGLE_NODE'' 0 [clusterNode (srvNodeID s) ''LEADER'' ''HEALTHY'']
      | Some p \<Rightarrow>
          let st = ProposerStatus p e
          in clusterResponse ''RAFT'' (apTerm st)
               (clusterNode (srvNodeID s) (apState st) ''HEALTHY''
                # (if apLeaderID st \<noteq> '''' \<and> apLeaderID st \<noteq> srvNodeID s then [clusterNode (apLeaderID st) ''LEADER'' ''UNKNOWN''] else [])))"

definition handleCluster :: "'e Server \<Rightarrow> header \<Rightarrow> 'e \<Rightarrow> HttpResponse" where
  "handleCluster s w e = writeJSON w 200 (Some (json_print (cluster_json s e)))"

definition handleHealth :: "header \<Rightarrow> HttpResponse" where
  "handleHealth w = writeJSON w 200 (Some (json_print (JObj [(''status'', JStr ''ok'')])))"

section \<open>Routing\<close>

datatype api_handler = HPut | HGet | HDelete | HListEvents | HPostEvent | HCluster | HHealth | HMetrics

definition kv_pattern :: "segment list" where
  "kv_pattern = [Lit ''v1'', Lit ''kv'', Wild ''key'']"

definition api_routes :: "(route \<times> api_handler) list" where
  "api_routes =
    [(\<lparr>rtMethod = ''PUT'', rtPattern = kv_pattern\<rparr>, HPut),
     (\<lparr>rtMethod = ''GET'', rtPattern = kv_pattern\<rparr>, HGet),
     (\<lparr>rtMethod = ''DELETE'', rtPattern = kv_pattern\<rparr>, HDelete),
     (\<lparr>rtMethod = ''GET'', rtPattern = [Lit ''v1'', Lit ''events'']\<rparr>, HListEvents),
     (\<lparr>rtMethod = ''POST'', rtPattern = [Lit ''v1'', Lit ''events'']\<rparr>, HPostEvent),
     (\<lparr>rtMethod = ''GET'', rtPattern = [Lit ''v1'', Lit ''cluster'']\<rparr>, HCluster),
     (\<lparr>rtMethod = ''GET'', rtPattern = [Lit ''healthz'']\<rparr>, HHealth)]"

text \<open>\<^verbatim>\<open>SetMetrics\<close> adds a route; the page is the work of the Prometheus library.\<close>

definition metrics_route :: "(route \<times> api_handler) list" where
  "metrics_route = [(\<lparr>rtMethod = ''GET'', rtPattern = [Lit ''metrics'']\<rparr>, HMetrics)]"

definition api_handle :: "texts \<Rightarrow> reading \<Rightarrow> bytes \<Rightarrow> 'e Server \<Rightarrow> header \<Rightarrow> HttpRequest \<Rightarrow> api_handler \<Rightarrow> string list \<Rightarrow> 'e \<Rightarrow> HttpResponse \<times> 'e" where
  "api_handle L rd page s w r h vs e =
     (case h of
        HPut \<Rightarrow> handlePut L rd s w (hd vs) r e
      | HGet \<Rightarrow> (handleGet L rd s w (hd vs) e, e)
      | HDelete \<Rightarrow> handleDelete L rd s w (hd vs) e
      | HListEvents \<Rightarrow> (handleListEvents rd s w e, e)
      | HPostEvent \<Rightarrow> handlePostEvent L rd s w r e
      | HCluster \<Rightarrow> (handleCluster s w e, e)
      | HHealth \<Rightarrow> (handleHealth w, e)
      | HMetrics \<Rightarrow> (\<lparr>rsStatus = 200, rsHeader = w, rsBody = page\<rparr>, e))"

definition api_mux :: "texts \<Rightarrow> reading \<Rightarrow> bytes \<Rightarrow> 'e Server \<Rightarrow> (route \<times> api_handler) list \<Rightarrow> header \<Rightarrow> HttpRequest \<Rightarrow> 'e \<Rightarrow> (HttpResponse \<times> string) \<times> 'e" where
  "api_mux L rd page s routes w r e =
     (case mux routes r of
        (Matched h vs, pat) \<Rightarrow> (case api_handle L rd page s w r h vs e of (resp, e') \<Rightarrow> ((resp, pat), e'))
      | (d, pat) \<Rightarrow> ((mux_page w d, pat), e))"

definition api_cors :: "'e Server \<Rightarrow> header" where
  "api_cors s =
     header_set ''Access-Control-Allow-Headers'' ''Content-Type''
       (header_set ''Access-Control-Allow-Methods'' ''GET, POST, PUT, DELETE, OPTIONS''
         (header_set ''Access-Control-Allow-Origin'' (allowedOrigin s) []))"

definition api_ServeHTTP ::
  "texts \<Rightarrow> reading \<Rightarrow> bytes \<Rightarrow> int \<Rightarrow> 'e Server \<Rightarrow> HttpRequest \<Rightarrow> 'e \<times> 's Metrics option \<Rightarrow> HttpResponse \<times> 'e \<times> 's Metrics option" where
  "api_ServeHTTP L rd page took s r x =
     (let w = api_cors s; (e, met) = x
      in if rqMethod r = ''OPTIONS'' then (noContent w, x)
         else case met of
             Some m \<Rightarrow>
               (case Middleware (api_mux L rd page s (api_routes @ metrics_route) w r) took r e m of
                  (resp, e', m') \<Rightarrow> (resp, e', Some m'))
           | None \<Rightarrow> (case api_mux L rd page s api_routes w r e of ((resp, _), e') \<Rightarrow> (resp, e', None)))"

section \<open>The Raft node behind the API\<close>

text \<open>
  \<^verbatim>\<open>raftProposer\<close>: \<open>np\<close> is a call of the \<^verbatim>\<open>Propose\<close> of the node, which blocks until the loops of the node have
  applied the command or given up, and \<open>nst\<close> its status.
\<close>

definition raftProposer :: "(bytes \<Rightarrow> 'e \<Rightarrow> string option \<times> 'e) \<Rightarrow> ('e \<Rightarrow> Status) \<Rightarrow> 'e Proposer" where
  "raftProposer np nst =
     \<lparr>Propose = (\<lambda>cmd e. np (EncodeCommand cmd) e),
      ProposerStatus = (\<lambda>e. let st = nst e in
        \<lparr>apState = State_String (sState st), apTerm = sTerm st, apLeaderID = sLeaderID st, apIsLeader = (sState st = Leader)\<rparr>)\<rparr>"

end
