(* ===== verification/Api_Props.thy ===== *)
theory Api_Props
  imports Api
begin

text \<open>
  What the API promises: a key written over HTTP reads back over HTTP, and with Raft a write reaches the
  state only through a proposal to the leader.
\<close>

section \<open>Routing of keys\<close>

text \<open>Keys that a URL path holds as they are.\<close>

definition plain_key :: "string \<Rightarrow> bool" where
  "plain_key k \<longleftrightarrow> k \<noteq> [] \<and> k \<noteq> ''.'' \<and> k \<noteq> ''..'' \<and> list_all (\<lambda>c. \<not> should_escape c \<and> c \<noteq> CHR ''/'') k"

definition kv_url :: "string \<Rightarrow> url" where
  "kv_url k = \<lparr>Path = ''/v1/kv/'' @ k, RawPath = '''', RawQuery = ''''\<rparr>"

lemma escape_path_append: "escape_path (s @ t) = escape_path s @ escape_path t"
  by (simp add: escape_path_def)

lemma escape_path_plain: "list_all (\<lambda>c. \<not> should_escape c) s \<Longrightarrow> escape_path s = s"
  by (induction s) (auto simp: escape_path_def)

lemma unescape_path_plain: "list_all (\<lambda>c. \<not> should_escape c) s \<Longrightarrow> unescape_path s = Some s"
  by (induction s) (auto simp: should_escape_def alnum_def cont_def code_def)

lemma split_slash_plain: "list_all (\<lambda>c. c \<noteq> CHR ''/'') s \<Longrightarrow> split_slash s = [s]"
  by (induction s) auto

lemma split_slash_slash: "split_slash (CHR ''/'' # r) = [] # split_slash r"
  by simp

lemma kv_path_plain: "escape_path ''/v1/kv/'' = ''/v1/kv/''"
  by (rule escape_path_plain) (simp add: should_escape_def alnum_def cont_def code_def)

text \<open>The text of a path segment that names a key.\<close>

definition key_segment :: "string \<Rightarrow> string \<Rightarrow> bool" where
  "key_segment s k \<longleftrightarrow> s \<noteq> [] \<and> s \<noteq> ''.'' \<and> s \<noteq> ''..'' \<and> CHR ''/'' \<notin> set s \<and> segment_text s = k"

lemma plain_key_segment: "plain_key k \<Longrightarrow> key_segment k k"
  using unescape_path_plain [of k] by (auto simp: key_segment_def plain_key_def list_all_iff segment_text_def)

lemma kv_split: "key_segment s k \<Longrightarrow> split_slash (''v1/kv/'' @ s) = [''v1'', ''kv'', s]"
  using split_slash_plain [of s] by (auto simp: key_segment_def list_all_iff)

lemma kv_escaped: "plain_key k \<Longrightarrow> EscapedPath (kv_url k) = ''/v1/kv/'' @ k"
proof -
  assume "plain_key k"
  then have "list_all (\<lambda>c. \<not> should_escape c) k" by (auto simp: plain_key_def list_all_iff)
  then have "escape_path (''/v1/kv/'' @ k) = ''/v1/kv/'' @ k" unfolding escape_path_append kv_path_plain by (simp add: escape_path_plain)
  then show ?thesis by (simp add: EscapedPath_def kv_url_def)
qed

lemma kv_clean: "key_segment s k \<Longrightarrow> cleanPath (''/v1/kv/'' @ s) = ''/v1/kv/'' @ s"
proof -
  assume k: "key_segment s k"
  then have "last s \<noteq> CHR ''/''" "s \<noteq> []" unfolding key_segment_def by (metis last_in_set)+
  then have l: "last (''/v1/kv/'' @ s) \<noteq> CHR ''/''" by simp
  have "split_slash (''/v1/kv/'' @ s) = [] # split_slash (''v1/kv/'' @ s)" by simp
  then have "clean_segments [] (split_slash (''/v1/kv/'' @ s)) = [''v1'', ''kv'', s]"
    unfolding kv_split [OF k] using k by (simp add: key_segment_def)
  with l show ?thesis by (simp add: cleanPath_def Let_def)
qed

text \<open>The route of a key is found for each of its three methods.\<close>

lemma mux_kv:
  assumes "key_segment s k" "EscapedPath (rqURL r) = ''/v1/kv/'' @ s"
    and "(m, h) \<in> {(''PUT'', HPut), (''GET'', HGet), (''DELETE'', HDelete)}" "rqMethod r = m"
    and "routes = api_routes \<or> routes = api_routes @ metrics_route"
  shows "mux routes r = (Matched h [k], m @ '' /v1/kv/{key}'')"
proof -
  have split: "split_slash (tl (''/v1/kv/'' @ s)) = [''v1'', ''kv'', s]" using kv_split [OF assms(1)] by simp
  have lit: "segment_text ''v1'' = ''v1''" "segment_text ''kv'' = ''kv''"
    by (simp_all add: segment_text_def)
  have k: "s \<noteq> []" "segment_text s = k" using assms(1) by (simp_all add: key_segment_def)
  have paths: "match_path kv_pattern [''v1'', ''kv'', s] = Some [k]" "match_path [Lit ''v1'', Lit ''events''] [''v1'', ''kv'', s] = None"
    "match_path [Lit ''v1'', Lit ''cluster''] [''v1'', ''kv'', s] = None" "match_path [Lit ''healthz''] [''v1'', ''kv'', s] = None"
    "match_path [Lit ''metrics''] [''v1'', ''kv'', s] = None"
    by (simp_all add: kv_pattern_def lit k)
  have "route_hits routes (''/v1/kv/'' @ s) =
      [(\<lparr>rtMethod = ''PUT'', rtPattern = kv_pattern\<rparr>, HPut, [k]), (\<lparr>rtMethod = ''GET'', rtPattern = kv_pattern\<rparr>, HGet, [k]),
       (\<lparr>rtMethod = ''DELETE'', rtPattern = kv_pattern\<rparr>, HDelete, [k])]"
    using assms(5) unfolding route_hits_def split api_routes_def metrics_route_def
    by (elim disjE) (simp_all add: paths)
  moreover have "filter (\<lambda>(rt, _). method_matches (rtMethod rt) (rqMethod r))
      [(\<lparr>rtMethod = ''PUT'', rtPattern = kv_pattern\<rparr>, HPut, [k]), (\<lparr>rtMethod = ''GET'', rtPattern = kv_pattern\<rparr>, HGet, [k]),
       (\<lparr>rtMethod = ''DELETE'', rtPattern = kv_pattern\<rparr>, HDelete, [k])] = [(\<lparr>rtMethod = m, rtPattern = kv_pattern\<rparr>, h, [k])]"
    using assms(3) unfolding assms(4) by (elim insertE emptyE) (simp_all add: method_matches_def)
  moreover have "pattern_text \<lparr>rtMethod = m, rtPattern = kv_pattern\<rparr> = m @ '' /v1/kv/{key}''"
    by (simp add: pattern_text_def kv_pattern_def)
  ultimately show ?thesis
    unfolding mux_def assms(2) kv_clean [OF assms(1)] Let_def by simp
qed

lemma mux_key:
  assumes "plain_key k" "rqURL r = kv_url k"
  shows "rqMethod r = ''PUT'' \<Longrightarrow> mux api_routes r = (Matched HPut [k], ''PUT /v1/kv/{key}'')"
    and "rqMethod r = ''GET'' \<Longrightarrow> mux api_routes r = (Matched HGet [k], ''GET /v1/kv/{key}'')"
    and "rqMethod r = ''DELETE'' \<Longrightarrow> mux api_routes r = (Matched HDelete [k], ''DELETE /v1/kv/{key}'')"
  using mux_kv [OF plain_key_segment [OF assms(1)], of r "''PUT''" HPut api_routes] mux_kv [OF plain_key_segment [OF assms(1)], of r "''GET''" HGet api_routes]
    mux_kv [OF plain_key_segment [OF assms(1)], of r "''DELETE''" HDelete api_routes] kv_escaped [OF assms(1)] by (simp_all add: assms(2))

text \<open>A route answers only requests of its method.\<close>

lemma mux_matched:
  assumes "mux routes r = (Matched h vs, pat)"
  shows "\<exists>rt. (rt, h) \<in> set routes \<and> method_matches (rtMethod rt) (rqMethod r)"
proof -
  let ?hs = "route_hits routes (cleanPath (EscapedPath (rqURL r)))"
  obtain rt rest where "filter (\<lambda>(rt, _). method_matches (rtMethod rt) (rqMethod r)) ?hs = (rt, h, vs) # rest"
    using assms by (auto simp: mux_def Let_def split: if_splits list.splits)
  then have "(rt, h, vs) \<in> set (filter (\<lambda>(rt, _). method_matches (rtMethod rt) (rqMethod r)) ?hs)" by simp
  then show ?thesis by (auto simp: route_hits_def List.map_filter_def)
qed

lemma serve_matched:
  assumes "mux api_routes r = (Matched h vs, pat)" "rqMethod r \<noteq> ''OPTIONS''"
    and "api_handle L rd page s (api_cors s) r h vs e = (resp, e')"
  shows "api_ServeHTTP L rd page took s r (e, None) = (resp, e', None)"
  using assms by (simp add: api_ServeHTTP_def Let_def api_mux_def)

section \<open>Writing and reading a key\<close>

lemma getResponse_new_entry: "getResponse (new_entry v c t ttl ver) = getResponse (new_entry v c t' ttl' ver')"
  by (simp add: getResponse_def new_entry_def)

lemma get_answers:
  assumes "engine s = lsm_ops" "rqMethod g = ''GET''" "rqURL g = kv_url k" "plain_key k" "lsm_Get e (rdNow rd) k = x"
  shows "api_ServeHTTP L rd page took s g (e, None) =
    (case x of Inl err \<Rightarrow> if err = ErrKeyNotFound then notFound L (api_cors s) k else writeError (api_cors s) 500 ErrInternal ''failed to read value''
     | Inr en \<Rightarrow> writeJSON (api_cors s) 200 (getResponse en), e, None)"
  by (rule serve_matched [OF mux_key(2) [OF assms(4,3,2)]])
    (use assms in \<open>auto simp: api_handle_def handleGet_def lsm_ops_def split: sum.splits\<close>)

text \<open>
  C35: On a node without Raft a valid \<^verbatim>\<open>PUT /v1/kv/{key}\<close> is answered 204, and from then on \<^verbatim>\<open>GET /v1/kv/{key}\<close>
  answers 200 with the same JSON value and the consistency level (\<^verbatim>\<open>EVENTUAL\<close> where the request named
  none) until the time to live has passed, then 404; every other key answers as before.
\<close>

theorem api_put_get:
  assumes "lsm_inv e" "engine s = lsm_ops" "proposer s = None" "plain_key k"
    and put: "rqMethod r = ''PUT''" "rqURL r = kv_url k" "decode_put (rqBody r) = Some req" "prValue req \<noteq> ''''" "0 \<le> prTTLSeconds req"
      "default_consistency (prConsistency req) = Some c"
    and fits: "lsm_fits_put e (rdNow rd) k (str_bytes (prValue req)) c (ttl_duration (prTTLSeconds req))"
    and get: "rqMethod g = ''GET''" "rqURL g = kv_url k'" "plain_key k'" "rdNow rd \<le> rdNow rd'"
  defines "ttl \<equiv> ttl_duration (prTTLSeconds req)"
  shows "\<exists>e'. api_ServeHTTP L rd page took s r (e, None) = (noContent (api_cors s), e', None) \<and> lsm_inv e' \<and>
    api_ServeHTTP L rd' page' took' s g (e', None) =
      (if k' \<noteq> k then fst (api_ServeHTTP L rd' page' took' s g (e, None))
       else if 0 < ttl \<and> rdNow rd + ttl < rdNow rd' then notFound L (api_cors s) k
       else writeJSON (api_cors s) 200
         (map_option (\<lambda>v. ''{'' @ print_string ''value'' @ '':'' @ v @ '','' @ print_string ''consistency'' @ '':'' @ print_string c @ ''}'')
            (print_raw (prValue req))),
       e', None)"
proof -
  obtain e' ver where p: "lsm_Put e (rdNow rd) k (str_bytes (prValue req)) c ttl = (None, e')" "lsm_inv e'"
    using lsm.put_view [OF assms(1) fits] by (auto simp: ttl_def)
  have "api_ServeHTTP L rd page took s r (e, None) = (noContent (api_cors s), e', None)"
    by (rule serve_matched [OF mux_key(1) [OF assms(4) put(2,1)]])
      (use assms(2,3) put p(1) in \<open>simp_all add: api_handle_def handlePut_def lsm_ops_def Let_def ttl_def\<close>)
  moreover have "api_ServeHTTP L rd' page' took' s g (e', None) = (fst (api_ServeHTTP L rd' page' took' s g (e, None)), e', None)" if "k' \<noteq> k"
    using lsm.get_after_put_other [OF assms(1) fits p(1) [unfolded ttl_def] get(4) that]
    by (simp add: get_answers [OF assms(2) get(1-3) refl])
  moreover obtain ver' where "lsm_Get e' (rdNow rd') k =
      (if 0 < ttl \<and> rdNow rd + ttl < rdNow rd' then Inl ErrKeyNotFound else Inr (new_entry (str_bytes (prValue req)) c (rdNow rd) ttl ver'))"
    using lsm.get_after_put [OF assms(1) fits p(1) [unfolded ttl_def] get(4)] unfolding ttl_def by blast
  then have "k' = k \<Longrightarrow> ?thesis"
    using calculation p(2) by (auto simp: get_answers [OF assms(2) get(1-3) refl] getResponse_def new_entry_def)
  ultimately show ?thesis using p(2) by auto
qed

definition sample_request :: "string \<Rightarrow> string \<Rightarrow> bytes \<Rightarrow> HttpRequest" where
  "sample_request m k b = \<lparr>rqMethod = m, rqURL = kv_url k, rqHeader = [], rqBody = Some b, RemoteAddr = ''10.0.0.1:5000''\<rparr>"

definition sample_texts :: texts where
  "sample_texts = \<lparr>Quote = print_string, DecodeErr = (\<lambda>_. ''unexpected end of JSON input'')\<rparr>"

definition sample_body :: bytes where
  "sample_body = str_bytes (''{'' @ print_string ''value'' @ '':1}'')"

definition sample_reading :: "time \<Rightarrow> reading" where
  "sample_reading t = \<lparr>rdNow = t, rdCreated = t, rdRandom = []\<rparr>"

lemma sample_body_put: "decode_put (Some sample_body) = Some \<lparr>prValue = ''1'', prConsistency = '''', prTTLSeconds = 0\<rparr>"
  by code_simp

lemma plain_a: "plain_key ''a''" "plain_key ''b''"
  by (simp_all add: plain_key_def should_escape_def alnum_def cont_def code_def)

theorem api_put_get_witness:
  "\<exists>e'. api_ServeHTTP sample_texts (sample_reading 5) [] 0 (NewServer lsm_ops ''n1'') (sample_request ''PUT'' ''a'' sample_body) (sample_engine, None)
      = (noContent (api_cors (NewServer lsm_ops ''n1'')), e', None) \<and> lsm_inv e' \<and>
    api_ServeHTTP sample_texts (sample_reading 6) [] 0 (NewServer lsm_ops ''n1'') (sample_request ''GET'' ''a'' []) (e', None)
      = (writeJSON (api_cors (NewServer lsm_ops ''n1'')) 200 (Some (''{'' @ print_string ''value'' @ '':1,'' @ print_string ''consistency'' @ '':'' @ print_string ''EVENTUAL'' @ ''}'')), e', None)"
proof -
  have p: "print_raw ''1'' = Some ''1''" by code_simp
  have f: "lsm_fits_put sample_engine 5 ''a'' (str_bytes ''1'') ConsistencyEventual (ttl_duration 0)"
    by (simp add: lsm_fits_put_def fits_batch_def sample_bytes ConsistencyEventual_def in_s64_def ttl_duration_def s64_def)
  show ?thesis
    using api_put_get [OF sample_inv, where s = "NewServer lsm_ops ''n1''" and r = "sample_request ''PUT'' ''a'' sample_body"
        and g = "sample_request ''GET'' ''a'' []" and rd = "sample_reading 5" and rd' = "sample_reading 6" and k = "''a''" and k' = "''a''"
        and c = ConsistencyEventual and req = "\<lparr>prValue = ''1'', prConsistency = '''', prTTLSeconds = 0\<rparr>"
        and L = sample_texts and page = "[]" and took = 0 and page' = "[]" and took' = 0] f
    by (simp add: NewServer_def sample_request_def sample_body_put sample_reading_def plain_a default_consistency_def p ttl_duration_def s64_def)
      (simp add: ConsistencyEventual_def)
qed

section \<open>Writing through Raft\<close>

text \<open>What a write handler may do to the state: nothing, with a refusal, or one proposal by the leader whose outcome it reports.\<close>

definition through_raft :: "'e Proposer \<Rightarrow> 'e \<Rightarrow> HttpResponse \<Rightarrow> 'e \<Rightarrow> bool" where
  "through_raft p e resp e' \<longleftrightarrow>
     (e' = e \<and> rsStatus resp \<ge> 300)
     \<or> (\<exists>cmd err. apIsLeader (ProposerStatus p e) \<and> Propose p cmd e = (err, e') \<and> (rsStatus resp < 300 \<longleftrightarrow> err = None))"

lemma status_simps [simp]:
  "rsStatus (writeJSON w n b) = n" "rsStatus (writeError w n c msg) = n" "rsStatus (noContent w) = 204" "rsStatus (notFound L w k) = 404"
  "rsStatus (http_error w n msg) = n"
  by (simp_all add: writeJSON_def writeError_def noContent_def notFound_def http_error_def)

lemma writeThroughRaft_cases:
  assumes "writeThroughRaft L w p cmd e = (x, e')"
  shows "case x of Some resp \<Rightarrow> through_raft p e resp e' | None \<Rightarrow> apIsLeader (ProposerStatus p e) \<and> Propose p cmd e = (None, e')"
proof (cases "apIsLeader (ProposerStatus p e)")
  case False
  then show ?thesis using assms by (auto simp: writeThroughRaft_def Let_def through_raft_def)
next
  case True
  obtain err e1 where pr: "Propose p cmd e = (err, e1)" by fastforce
  show ?thesis
  proof (cases err)
    case (Some msg)
    then have "e1 = e'" "\<exists>resp. x = Some resp \<and> rsStatus resp = 503"
      using assms True pr by (auto simp: writeThroughRaft_def Let_def)
    then show ?thesis using True pr Some unfolding through_raft_def by fastforce
  qed (use assms True pr in \<open>auto simp: writeThroughRaft_def Let_def\<close>)
qed

lemma accepted_through_raft:
  "apIsLeader (ProposerStatus p e) \<Longrightarrow> Propose p cmd e = (None, e') \<Longrightarrow> rsStatus resp < 300 \<Longrightarrow> through_raft p e resp e'"
  unfolding through_raft_def by blast

lemma refused_through_raft: "rsStatus resp \<ge> 300 \<Longrightarrow> through_raft p e resp e"
  by (simp add: through_raft_def)

lemma write_handlers_through_raft:
  assumes "proposer s = Some p"
  shows "handlePut L rd s w k r e = (resp, e') \<Longrightarrow> through_raft p e resp e'"
    and "handleDelete L rd s w k e = (resp, e') \<Longrightarrow> through_raft p e resp e'"
    and "handlePostEvent L rd s w r e = (resp, e') \<Longrightarrow> through_raft p e resp e'"
proof -
  show "handlePut L rd s w k r e = (resp, e') \<Longrightarrow> through_raft p e resp e'"
    by (auto simp: handlePut_def assms Let_def intro: refused_through_raft accepted_through_raft
        dest!: writeThroughRaft_cases split: option.splits if_splits prod.splits)
  show "handleDelete L rd s w k e = (resp, e') \<Longrightarrow> through_raft p e resp e'"
    by (auto simp: handleDelete_def assms intro: refused_through_raft accepted_through_raft
        dest!: writeThroughRaft_cases split: option.splits if_splits prod.splits sum.splits)
  show "handlePostEvent L rd s w r e = (resp, e') \<Longrightarrow> through_raft p e resp e'"
    by (auto simp: handlePostEvent_def applyWrite_def assms intro: refused_through_raft accepted_through_raft
        dest!: writeThroughRaft_cases split: option.splits if_splits prod.splits sum.splits)
qed

lemma mux_page_status: "(\<And>h vs. d \<noteq> Matched h vs) \<Longrightarrow> rsStatus (mux_page w d) \<ge> 300"
  by (cases d) (auto simp: mux_page_def)

lemma api_mux_through_raft:
  assumes "proposer s = Some p" "routes = api_routes \<or> routes = api_routes @ metrics_route"
    and "api_mux L rd page s routes w r e = ((resp, pat), e')"
  shows "if rqMethod r \<in> {''PUT'', ''DELETE'', ''POST''} then through_raft p e resp e' else e' = e"
proof (cases "\<exists>h vs. fst (mux routes r) = Matched h vs")
  case False
  then have "e' = e" "resp = mux_page w (fst (mux routes r))"
    using assms(3) by (auto simp: api_mux_def split: prod.splits routed.splits)
  then show ?thesis using refused_through_raft [of resp p e] mux_page_status [of "fst (mux routes r)" w] False by auto
next
  case True
  then obtain h vs where m: "mux routes r = (Matched h vs, pat)" and a: "api_handle L rd page s w r h vs e = (resp, e')"
    using assms(3) by (auto simp: api_mux_def split: prod.splits)
  obtain rt where rt: "(rt, h) \<in> set routes" "method_matches (rtMethod rt) (rqMethod r)" using mux_matched [OF m] by blast
  have reads: "h \<noteq> HPut \<and> h \<noteq> HDelete \<and> h \<noteq> HPostEvent \<Longrightarrow> rtMethod rt = ''GET''"
    and writes: "h = HPut \<or> h = HDelete \<or> h = HPostEvent \<Longrightarrow> rtMethod rt \<in> {''PUT'', ''DELETE'', ''POST''}"
    using rt(1) assms(2) by (auto simp: api_routes_def metrics_route_def)
  show ?thesis
  proof (cases "h = HPut \<or> h = HDelete \<or> h = HPostEvent")
    case True
    then have "through_raft p e resp e'" using a write_handlers_through_raft [OF assms(1)] by (auto simp: api_handle_def)
    moreover have "rqMethod r \<in> {''PUT'', ''DELETE'', ''POST''}" using writes [OF True] rt(2) by (auto simp: method_matches_def)
    ultimately show ?thesis by simp
  next
    case False
    then have "e' = e" using a by (cases h) (auto simp: api_handle_def)
    moreover have "rqMethod r \<notin> {''PUT'', ''DELETE'', ''POST''}" using reads False rt(2) by (auto simp: method_matches_def)
    ultimately show ?thesis by simp
  qed
qed

text \<open>
  C36: On a node with Raft no request writes to the engine directly.  A \<^verbatim>\<open>PUT\<close>, \<^verbatim>\<open>DELETE\<close> or \<^verbatim>\<open>POST\<close> changes
  the state only by one proposal, made while the node is the leader, and answers with success exactly
  when the proposal committed; a node that is not the leader refuses it.  No other method changes the state.
\<close>

theorem raft_writes_only_by_proposal:
  assumes "proposer s = Some p" and "api_ServeHTTP L rd page took s r (e, met) = (resp, e', met')"
  shows "if rqMethod r \<in> {''PUT'', ''DELETE'', ''POST''} then through_raft p e resp e' else e' = e"
proof (cases "rqMethod r = ''OPTIONS''")
  case True
  then show ?thesis using assms(2) by (simp add: api_ServeHTTP_def Let_def)
next
  case False
  then obtain routes pat where "routes = api_routes \<or> routes = api_routes @ metrics_route"
    "api_mux L rd page s routes (api_cors s) r e = ((resp, pat), e')"
    using assms(2) by (auto simp: api_ServeHTTP_def Let_def Middleware_def split: option.splits prod.splits)
  then show ?thesis by (rule api_mux_through_raft [OF assms(1)])
qed

text \<open>A follower that knows of no leader.\<close>

definition sample_proposer :: "Engine Proposer" where
  "sample_proposer = raftProposer (\<lambda>cmd e. case sm_Apply lsm_ops 5 cmd e of (err, e') \<Rightarrow> (if err = None then None else Some ''apply'', e'))
     (\<lambda>_. \<lparr>sID = ''n1'', sState = Follower, sTerm = 1, sLeaderID = '''', sCommitIndex = 0, sLastApplied = 0, sLastLogIndex = 0\<rparr>)"

theorem raft_writes_only_by_proposal_witness:
  "let x = api_ServeHTTP sample_texts (sample_reading 5) [] 0 (SetProposer sample_proposer (NewServer lsm_ops ''n1''))
         (sample_request ''PUT'' ''a'' sample_body) (sample_engine, None :: unit Metrics option)
   in rsStatus (fst x) \<ge> 300 \<and> fst (snd x) = sample_engine"
proof -
  let ?s = "SetProposer sample_proposer (NewServer lsm_ops ''n1'')"
  obtain resp e' met' where x: "api_ServeHTTP sample_texts (sample_reading 5) [] 0 ?s
      (sample_request ''PUT'' ''a'' sample_body) (sample_engine, None :: unit Metrics option) = (resp, e', met')" by (rule prod_cases3)
  have "proposer ?s = Some sample_proposer" by (simp add: SetProposer_def)
  from raft_writes_only_by_proposal [OF this x] have "through_raft sample_proposer sample_engine resp e'" by (simp add: sample_request_def)
  then show ?thesis unfolding x by (auto simp: through_raft_def sample_proposer_def raftProposer_def Let_def)
qed

end
