(* ===== verification/Prediction.thy ===== *)
theory Prediction
  imports Event_Json
begin

text \<open>
  The traffic prediction (\<^verbatim>\<open>internal/prediction\<close>): features of an event, the synthetic training set, linear
  regression by gradient descent, and the prediction.  A \<^verbatim>\<open>float64\<close> is an exact rational; the square
  root, which has no exact value, is an argument, and so are the draws of the random generator.  Times
  are in UTC.  An index out of range is not possible: the lemmas below show that all vectors have
  the same length.
\<close>

section \<open>Features\<close>

definition eventTypes :: "EventType list" where
  "eventTypes = [TypeAcademic, TypeAthletics, TypeStudentOrg, TypeCampusEvent, TypeDining, TypeTransportation,
     TypeWeather, TypeEmergency, TypeSystem]"

record Features =
  fType :: EventType
  fExpectedAttendance :: int
  fUrgency :: Urgency
  fStartTime :: time
  fDurationMinutes :: rat

definition FeaturesFromEvent :: "Event \<Rightarrow> Features" where
  "FeaturesFromEvent e =
     (let start = instant (StartTime e);
          duration = of_int (time_until start (instant (EndTime e))) / 60000000000
      in \<lparr>fType = EType e, fExpectedAttendance = ExpectedAttendance e, fUrgency = Urgency e, fStartTime = start,
          fDurationMinutes = (if duration \<le> 0 then 60 else duration)\<rparr>)"

definition urgencyScore :: "Urgency \<Rightarrow> rat" where
  "urgencyScore u =
     (if u = UrgencyCritical then 3 else if u = UrgencyScheduledSpike then 2 else if u = UrgencyHigh then 1 else 0)"

definition numFeatures :: nat where
  "numFeatures = 1 + length eventTypes + 5"

definition Hour :: "time \<Rightarrow> int" where
  "Hour t = t div 3600000000000 mod 24"

text \<open>Sunday is 0; the first of January 1970 was a Thursday.\<close>

definition Weekday :: "time \<Rightarrow> int" where
  "Weekday t = (t div 86400000000000 + 4) mod 7"

definition vector :: "Features \<Rightarrow> rat list" where
  "vector f =
     [1] @ map (\<lambda>t. if fType f = t then 1 else 0) eventTypes
     @ [of_int (fExpectedAttendance f) / 1000, urgencyScore (fUrgency f), of_int (Hour (fStartTime f)) / 24,
        of_int (Weekday (fStartTime f)) / 7, fDurationMinutes f / 60]"

section \<open>The training set\<close>

record Sample =
  smFeatures :: Features
  smPeakRPS :: rat

text \<open>The draws of one sample: the type, the attendance below a bound, hour, day, duration and noise.\<close>

record draws =
  dType :: nat
  dAttendance :: "nat \<Rightarrow> nat"
  dHour :: nat
  dDay :: nat
  dDuration :: nat
  dNorm :: rat

text \<open>Midnight of the fifth of January 2026.\<close>

definition jan5 :: time where "jan5 = 1767571200000000000"

definition randomFeatures :: "draws \<Rightarrow> Features" where
  "randomFeatures d =
     (let typ = eventTypes ! dType d;
          attendance = int (dAttendance d
            (if typ = TypeAthletics \<or> typ = TypeCampusEvent then 15000
             else if typ = TypeStudentOrg \<or> typ = TypeDining then 500 else 50));
          urgency = (if typ = TypeEmergency \<or> typ = TypeWeather then UrgencyCritical
                     else if typ = TypeAthletics \<or> typ = TypeCampusEvent
                       then (if attendance \<ge> 5000 then UrgencyHigh else UrgencyNormal)
                     else UrgencyNormal)
      in \<lparr>fType = typ, fExpectedAttendance = attendance, fUrgency = urgency,
          fStartTime = jan5 + int (dDay d) * 86400000000000 + int (dHour d) * 3600000000000,
          fDurationMinutes = of_nat (30 + dDuration d)\<rparr>)"

definition urgencyMultiplier :: "Urgency \<Rightarrow> rat" where
  "urgencyMultiplier u =
     (if u = UrgencyCritical then 30 else if u = UrgencyScheduledSpike then 8 else if u = UrgencyHigh then 4 else 1)"

definition groundTruthRPS :: "Features \<Rightarrow> rat" where
  "groundTruthRPS f =
     (let base = (500 + of_int (fExpectedAttendance f)) * urgencyMultiplier (fUrgency f);
          hour = Hour (fStartTime f)
      in if hour \<ge> 17 \<and> hour \<le> 21 then base * (13 / 10) else base)"

definition GenerateSyntheticDataset :: "draws list \<Rightarrow> Sample list" where
  "GenerateSyntheticDataset ds =
     map (\<lambda>d. let f = randomFeatures d; truth = groundTruthRPS f; noisy = truth + dNorm d * truth * (1 / 10)
          in \<lparr>smFeatures = f, smPeakRPS = (if noisy < 1 then 1 else noisy)\<rparr>) ds"

section \<open>The model\<close>

record Model =
  weights :: "rat list"
  means :: "rat list"
  stds :: "rat list"
  trained :: bool

definition NewModel :: Model where
  "NewModel = \<lparr>weights = [], means = [], stds = [], trained = False\<rparr>"

definition dot :: "rat list \<Rightarrow> rat list \<Rightarrow> rat" where
  "dot a b = (\<Sum>i \<leftarrow> [0..<length a]. a ! i * b ! i)"

definition standardizeParams :: "(rat \<Rightarrow> rat) \<Rightarrow> rat list list \<Rightarrow> nat \<Rightarrow> rat list \<times> rat list" where
  "standardizeParams sqrtf x n =
     (let mean = map (\<lambda>j. (\<Sum>row \<leftarrow> x. row ! j) / of_nat (length x)) [0..<n];
          std = map (\<lambda>j. let s = sqrtf ((\<Sum>row \<leftarrow> x. (row ! j - mean ! j) * (row ! j - mean ! j)) / of_nat (length x))
                     in if s = 0 then 1 else s) [0..<n]
      in (mean[0 := 0], std[0 := 1]))"

definition standardize_row :: "rat list \<Rightarrow> rat list \<Rightarrow> rat list \<Rightarrow> rat list" where
  "standardize_row mean std row = map (\<lambda>j. (row ! j - mean ! j) / std ! j) [0..<length row]"

definition standardize :: "rat list list \<Rightarrow> rat list \<Rightarrow> rat list \<Rightarrow> rat list list" where
  "standardize x mean std = map (standardize_row mean std) x"

text \<open>One pass over the rows adds each row's share to the gradient.\<close>

definition gradient :: "rat list list \<Rightarrow> rat list \<Rightarrow> rat list \<Rightarrow> nat \<Rightarrow> rat list" where
  "gradient x y w n =
     foldl (\<lambda>grad i. let row = x ! i; err = dot w row - y ! i
        in map (\<lambda>j. if j < length row then grad ! j + err * row ! j else grad ! j) [0..<n]) (replicate n 0) [0..<length x]"

definition descent_step :: "rat list list \<Rightarrow> rat list \<Rightarrow> nat \<Rightarrow> rat \<Rightarrow> rat list \<Rightarrow> rat list" where
  "descent_step x y n lr w =
     (let grad = gradient x y w n in map (\<lambda>j. w ! j - lr * grad ! j / of_nat (length x)) [0..<n])"

definition gradientDescent :: "rat list list \<Rightarrow> rat list \<Rightarrow> nat \<Rightarrow> nat \<Rightarrow> rat \<Rightarrow> rat list" where
  "gradientDescent x y n iterations lr = (descent_step x y n lr ^^ iterations) (replicate n 0)"

definition Train :: "(rat \<Rightarrow> rat) \<Rightarrow> Sample list \<Rightarrow> Model \<Rightarrow> Model" where
  "Train sqrtf samples m =
     (if samples = [] then m
      else let x = map (vector \<circ> smFeatures) samples; y = map smPeakRPS samples;
               (mean, std) = standardizeParams sqrtf x numFeatures;
               xs = standardize x mean std
           in \<lparr>weights = gradientDescent xs y numFeatures 2000 (5 / 100), means = mean, stds = std, trained = True\<rparr>)"

record Output =
  PredictedRPS :: rat
  oConfidence :: rat
  PeakTime :: "time option"
  RecommendedNodes :: int

definition RPSPerNode :: rat where "RPSPerNode = 2000"

definition peakTimeFor :: "Features \<Rightarrow> time" where
  "peakTimeFor f = fStartTime f + s64 (s64 \<lfloor>fDurationMinutes f / 4\<rfloor> * 60000000000)"

definition predictionConfidence :: "Features \<Rightarrow> rat" where
  "predictionConfidence f =
     (if fUrgency f = UrgencyCritical then 1 / 2 else if fExpectedAttendance f > 0 then 85 / 100 else 6 / 10)"

definition Predict :: "Model \<Rightarrow> Features \<Rightarrow> Output" where
  "Predict m f =
     (if \<not> trained m then \<lparr>PredictedRPS = 0, oConfidence = 0, PeakTime = None, RecommendedNodes = 0\<rparr>
      else let vs = standardize_row (means m) (stds m) (vector f);
               raw = dot (weights m) vs;
               predicted = (if raw < 0 then 0 else raw);
               nodes = \<lceil>predicted / RPSPerNode\<rceil>
           in \<lparr>PredictedRPS = predicted, oConfidence = predictionConfidence f, PeakTime = of_instant (peakTimeFor f),
               RecommendedNodes = (if nodes < 1 then 1 else nodes)\<rparr>)"

section \<open>Properties\<close>

text \<open>The shape of a trained model: one weight, mean and deviation for each feature, and no division by zero.\<close>

definition model_wf :: "Model \<Rightarrow> bool" where
  "model_wf m \<longleftrightarrow> length (weights m) = numFeatures \<and> length (means m) = numFeatures \<and> length (stds m) = numFeatures
     \<and> 0 \<notin> set (stds m)"

lemma length_vector: "length (vector f) = numFeatures"
  by (simp add: vector_def numFeatures_def)

lemma length_descent: "length ((descent_step x y n lr ^^ k) (replicate n 0)) = n"
  by (cases k) (simp_all add: descent_step_def Let_def)

lemma standardizeParams_wf:
  assumes "standardizeParams sqrtf x n = (mean, std)"
  shows "length mean = n" "length std = n" "0 \<notin> set std"
proof -
  let ?s = "\<lambda>j. sqrtf ((\<Sum>row \<leftarrow> x. (row ! j - map (\<lambda>j. (\<Sum>row \<leftarrow> x. row ! j) / of_nat (length x)) [0..<n] ! j)
      * (row ! j - map (\<lambda>j. (\<Sum>row \<leftarrow> x. row ! j) / of_nat (length x)) [0..<n] ! j)) / of_nat (length x))"
  have "std = (map (\<lambda>j. if ?s j = 0 then 1 else ?s j) [0..<n])[0 := 1]" using assms by (simp add: standardizeParams_def Let_def)
  then have "set std \<subseteq> insert 1 ((\<lambda>j. if ?s j = 0 then 1 else ?s j) ` {0..<n})"
    using set_update_subset_insert by fastforce
  moreover have "0 \<notin> insert 1 ((\<lambda>j. if ?s j = 0 then 1 else ?s j) ` {0..<n})" by auto
  ultimately show "0 \<notin> set std" by blast
qed (use assms in \<open>auto simp: standardizeParams_def Let_def\<close>)

text \<open>\<^verbatim>\<open>Train\<close> gives a model of that shape, so \<^verbatim>\<open>Predict\<close> neither runs out of range nor divides by zero.\<close>

lemma Train_wf:
  assumes "samples \<noteq> []"
  shows "trained (Train sqrtf samples m)" and "model_wf (Train sqrtf samples m)"
proof -
  obtain mean std where "standardizeParams sqrtf (map (vector \<circ> smFeatures) samples) numFeatures = (mean, std)" by fastforce
  with assms show "trained (Train sqrtf samples m)" and "model_wf (Train sqrtf samples m)"
    using standardizeParams_wf [of sqrtf "map (vector \<circ> smFeatures) samples" numFeatures mean std]
    by (simp_all add: Train_def Let_def model_wf_def gradientDescent_def length_descent)
qed

text \<open>The bias column is not standardized: it stays 1.\<close>

lemma bias_column:
  assumes "standardizeParams sqrtf x numFeatures = (mean, std)"
  shows "hd (standardize_row mean std (vector f)) = 1"
proof -
  have "mean ! 0 = 0" "std ! 0 = 1" using assms by (auto simp: standardizeParams_def Let_def numFeatures_def)
  moreover have "[0..<length (vector f)] = 0 # [1..<length (vector f)]" by (simp add: upt_conv_Cons length_vector numFeatures_def)
  moreover have "vector f ! 0 = 1" by (simp add: vector_def)
  ultimately show ?thesis unfolding standardize_row_def by simp
qed

text \<open>
  The recommended number of nodes is the least number, at least one, whose capacity covers the
  predicted rate, which is never negative.
\<close>

lemma predict_capacity:
  fixes m :: Model and f :: Features
  assumes "trained m"
  defines "out \<equiv> Predict m f"
  shows "0 \<le> PredictedRPS out" and "1 \<le> RecommendedNodes out"
    and "PredictedRPS out \<le> of_int (RecommendedNodes out) * RPSPerNode"
    and "1 \<le> n \<Longrightarrow> PredictedRPS out \<le> of_int n * RPSPerNode \<Longrightarrow> RecommendedNodes out \<le> n"
proof -
  define q where "q = PredictedRPS out"
  have nodes: "RecommendedNodes out = (if \<lceil>q / 2000\<rceil> < 1 then 1 else \<lceil>q / 2000\<rceil>)"
    using assms(1) by (simp add: q_def out_def Predict_def Let_def RPSPerNode_def)
  show q0: "0 \<le> PredictedRPS out" using assms(1) by (simp add: out_def Predict_def Let_def)
  show "1 \<le> RecommendedNodes out" unfolding nodes by simp
  have "q / 2000 \<le> of_int \<lceil>q / 2000\<rceil>" by (rule le_of_int_ceiling)
  moreover have "\<lceil>q / 2000\<rceil> \<le> RecommendedNodes out" unfolding nodes by simp
  ultimately have "q / 2000 \<le> of_int (RecommendedNodes out)" by (meson of_int_le_iff order_trans)
  then show "PredictedRPS out \<le> of_int (RecommendedNodes out) * RPSPerNode" by (simp add: RPSPerNode_def q_def)
  show "RecommendedNodes out \<le> n" if n: "1 \<le> n" "PredictedRPS out \<le> of_int n * RPSPerNode"
  proof -
    have "q / 2000 \<le> of_int n" using n(2) by (simp add: q_def RPSPerNode_def)
    then have "\<lceil>q / 2000\<rceil> \<le> n" by (simp add: ceiling_le_iff)
    then show ?thesis using n(1) unfolding nodes by simp
  qed
qed

end
