(* ===== verification/Gateway.thy ===== *)
theory Gateway
  imports Api_Props Prediction Lru Rate_Limit
begin

text \<open>
  The gateway (\<^verbatim>\<open>internal/gateway\<close>): leader discovery, routing of writes and reads, the read cache, the
  admin proxy and the status pages.  The other processes are behind \<^verbatim>\<open>httpClient.Do\<close>, an argument of type
  \<open>'w http\<close> over their state \<open>'w\<close>: it gets a base URL, the method, the request URI, the headers and the
  body, and gives the response or fails.  A handler that panics (only a read after \<open>2 ^ 63\<close> others) has
  no response.
\<close>

section \<open>State\<close>

record gwNode =
  gnID :: string
  gnAddr :: string
  gnAdminAddr :: string

record gwOptions =
  LeaderRefreshInterval :: int
  RequestTimeout :: int
  RateLimit :: RateLimitOptions
  goWorkload :: Thresholds
  CacheCapacity :: int
  CriticalHoldDuration :: int
  PredictionTrainingSamples :: int
  AdminToken :: string
  AllowedOrigin :: string

definition gw_DefaultOptions :: gwOptions where
  "gw_DefaultOptions = \<lparr>LeaderRefreshInterval = 500000000, RequestTimeout = 2000000000, RateLimit = DefaultRateLimitOptions,
     goWorkload = DefaultThresholds, CacheCapacity = 1000, CriticalHoldDuration = 300000000000,
     PredictionTrainingSamples = 2000, AdminToken = '''', AllowedOrigin = ''*''\<rparr>"

record nodeStatus =
  nsReachable :: bool
  nsRole :: string
  nsTerm :: nat

record Gateway =
  gNodes :: "gwNode list"
  gOpts :: gwOptions
  gLimiter :: RateLimiter
  gCache :: LRU
  gWorkload :: WorkloadEngine
  gPredictor :: Model
  gLeaderID :: string
  gLeaderAddr :: string
  gNodeStatus :: "(string \<times> nodeStatus) list"
  gReadCounter :: nat

text \<open>The draws of the synthetic data set are as many as the options ask for.\<close>

definition gw_New :: "(rat \<Rightarrow> rat) \<Rightarrow> draws list \<Rightarrow> gwNode list \<Rightarrow> gwOptions \<Rightarrow> Gateway" where
  "gw_New sqrtf ds ns opts0 =
     (let opts = (if AllowedOrigin opts0 = '''' then opts0\<lparr>AllowedOrigin := ''*''\<rparr> else opts0)
      in \<lparr>gNodes = ns, gOpts = opts, gLimiter = NewRateLimiter (RateLimit opts), gCache = NewLRU (CacheCapacity opts),
          gWorkload = NewEngine (goWorkload opts),
          gPredictor = (if PredictionTrainingSamples opts > 0
                        then Train sqrtf (GenerateSyntheticDataset (take (nat (PredictionTrainingSamples opts)) ds)) NewModel else NewModel),
          gLeaderID = '''', gLeaderAddr = '''', gNodeStatus = [], gReadCounter = 0\<rparr>)"

type_synonym 'w http = "string \<Rightarrow> string \<Rightarrow> string \<Rightarrow> header \<Rightarrow> bytes \<Rightarrow> 'w \<Rightarrow> HttpResponse option \<times> 'w"

text \<open>\<^verbatim>\<open>http.NewRequest\<close> and \<^verbatim>\<open>Do\<close>: a target that does not parse is not sent.\<close>

definition http_do :: "'w http \<Rightarrow> string \<Rightarrow> string \<Rightarrow> string \<Rightarrow> header \<Rightarrow> bytes \<Rightarrow> 'w \<Rightarrow> HttpResponse option \<times> 'w" where
  "http_do http m addr target hdr body w =
     (case client_url target of
        None \<Rightarrow> (None, w)
      | Some u \<Rightarrow> http addr m (RequestURI u) hdr body w)"

section \<open>Leader discovery\<close>

text \<open>The terms and the pairs of ID and role of a poll.\<close>

fun dec_poll_node :: "json \<Rightarrow> (string \<times> string) option" where
  "dec_poll_node (JObj members) =
     (case (decode_field dec_string '''' ''id'' members, decode_field dec_string '''' ''role'' members, decode_field dec_string '''' ''status'' members) of
        (Some i, Some r, Some _) \<Rightarrow> Some (i, r)
      | _ \<Rightarrow> None)"
| "dec_poll_node JNull = Some ('''', '''')"
| "dec_poll_node _ = None"

fun dec_poll_nodes :: "json \<Rightarrow> (string \<times> string) list option" where
  "dec_poll_nodes (JArr vs) = collect dec_poll_node vs"
| "dec_poll_nodes _ = None"

definition clusterPollResponse :: "bytes \<Rightarrow> (nat \<times> (string \<times> string) list) option" where
  "clusterPollResponse b =
     (case decode_first (Some b) of
        Some (JObj members) \<Rightarrow>
          (case (decode_field dec_string '''' ''mode'' members, decode_field (dec_uint 64) 0 ''term'' members,
                 decode_field dec_poll_nodes [] ''nodes'' members) of
             (Some _, Some t, Some ns) \<Rightarrow> Some (t, ns)
           | _ \<Rightarrow> None)
      | Some JNull \<Rightarrow> Some (0, [])
      | _ \<Rightarrow> None)"

definition unreachable :: nodeStatus where
  "unreachable = \<lparr>nsReachable = False, nsRole = '''', nsTerm = 0\<rparr>"

definition poll_status :: "string \<Rightarrow> HttpResponse option \<Rightarrow> nodeStatus \<times> bool" where
  "poll_status i resp =
     (case resp of
        None \<Rightarrow> (unreachable, False)
      | Some rs \<Rightarrow>
          if rsStatus rs \<noteq> 200 then (unreachable, False)
          else case clusterPollResponse (rsBody rs) of
            None \<Rightarrow> (unreachable, False)
          | Some (t, ns) \<Rightarrow>
             (case map_of ns i of
                Some role \<Rightarrow> (\<lparr>nsReachable = True, nsRole = role, nsTerm = t\<rparr>, True)
              | None \<Rightarrow> (\<lparr>nsReachable = True, nsRole = '''', nsTerm = 0\<rparr>, True)))"

definition pollNode :: "'w http \<Rightarrow> gwNode \<Rightarrow> 'w \<Rightarrow> (nodeStatus \<times> bool) \<times> 'w" where
  "pollNode http n w = (case http_do http ''GET'' (gnAddr n) ''/v1/cluster'' [] [] w of (resp, w') \<Rightarrow> (poll_status (gnID n) resp, w'))"

text \<open>The loop of \<^verbatim>\<open>refresh\<close> with the statuses, the best term and the best leader so far.\<close>

fun refresh_loop ::
  "'w http \<Rightarrow> gwNode list \<Rightarrow> (string \<times> nodeStatus) list \<times> nat \<times> string \<Rightarrow> 'w \<Rightarrow> ((string \<times> nodeStatus) list \<times> nat \<times> string) \<times> 'w" where
  "refresh_loop http [] acc w = (acc, w)"
| "refresh_loop http (n # ns) (statuses, bestTerm, bestLeader) w =
     (case pollNode http n w of
        ((st, ok), w') \<Rightarrow>
          let sts = AList.update (gnID n) st statuses
          in if ok \<and> nsRole st = ''LEADER'' \<and> nsTerm st \<ge> bestTerm
             then refresh_loop http ns (sts, nsTerm st, gnID n) w'
             else refresh_loop http ns (sts, bestTerm, bestLeader) w')"

definition addrFor :: "gwNode list \<Rightarrow> string \<Rightarrow> string" where
  "addrFor ns i = (case find (\<lambda>n. gnID n = i) ns of None \<Rightarrow> '''' | Some n \<Rightarrow> gnAddr n)"

definition refresh :: "'w http \<Rightarrow> Gateway \<Rightarrow> 'w \<Rightarrow> Gateway \<times> 'w" where
  "refresh http g w =
     (case refresh_loop http (gNodes g) ([], 0, '''') w of
        ((sts, _, best), w') \<Rightarrow>
          let g1 = g\<lparr>gNodeStatus := sts\<rparr>
          in (if best \<noteq> '''' then g1\<lparr>gLeaderID := best, gLeaderAddr := addrFor (gNodes g) best\<rparr> else g1, w'))"

definition currentLeader :: "Gateway \<Rightarrow> string option" where
  "currentLeader g = (if gLeaderID g \<noteq> '''' then Some (gLeaderAddr g) else None)"

section \<open>Proxying\<close>

definition kvKeyPrefix :: string where "kvKeyPrefix = ''/v1/kv/''"

definition kvKeyFromPath :: "string \<Rightarrow> string" where
  "kvKeyFromPath p = (if prefix kvKeyPrefix p then drop (length kvKeyPrefix) p else '''')"

definition proxy_target :: "url \<Rightarrow> string" where
  "proxy_target u = Path u @ (if RawQuery u \<noteq> '''' then CHR ''?'' # RawQuery u else '''')"

text \<open>The response, where the request was delivered and the node did not answer 503.\<close>

definition proxyRequest :: "'w http \<Rightarrow> HttpRequest \<Rightarrow> bytes \<Rightarrow> string \<Rightarrow> 'w \<Rightarrow> HttpResponse option \<times> 'w" where
  "proxyRequest http r body addr w =
     (case http_do http (rqMethod r) addr (proxy_target (rqURL r)) (rqHeader r) body w of
        (Some rs, w') \<Rightarrow> (if rsStatus rs = 503 then None else Some rs, w')
      | (None, w') \<Rightarrow> (None, w'))"

definition writeProxiedResponse :: "header \<Rightarrow> HttpResponse \<Rightarrow> HttpResponse" where
  "writeProxiedResponse h rs =
     rs\<lparr>rsHeader := fold (\<lambda>(k, vs) h. if prefix ''Access-Control-'' k then h else fold (header_add k) vs h) (rsHeader rs) h\<rparr>"

fun field_text :: "string \<Rightarrow> json \<Rightarrow> string option" where
  "field_text name (JObj members) = decode_field dec_string '''' name members"
| "field_text name JNull = Some ''''"
| "field_text name _ = None"

definition isCacheableConsistency :: "bytes \<Rightarrow> bool" where
  "isCacheableConsistency body =
     (case Option.bind (json_parse (bytes_str body)) (field_text ''consistency'') of
        None \<Rightarrow> False
      | Some c \<Rightarrow> c \<noteq> ''CRITICAL'')"

definition maybeSignalCriticalFromEventResponse :: "time \<Rightarrow> bytes \<Rightarrow> Gateway \<Rightarrow> Gateway" where
  "maybeSignalCriticalFromEventResponse now body g =
     (if Option.bind (json_parse (bytes_str body)) (field_text ''urgency'') = Some ''CRITICAL''
      then g\<lparr>gWorkload := SignalCritical now (CriticalHoldDuration (gOpts g)) (gWorkload g)\<rparr>
      else g)"

text \<open>The readings of the clock of a request.\<close>

record gw_clock =
  atCreated :: time
  atAllow :: time
  atRecord :: readings
  atSignal :: time
  atStatus :: time
  atHotKeys :: time

text \<open>After the response was relayed.\<close>

definition after_write :: "gw_clock \<Rightarrow> HttpRequest \<Rightarrow> HttpResponse \<Rightarrow> Gateway \<Rightarrow> Gateway" where
  "after_write c r rs g =
     (let g1 = (if prefix kvKeyPrefix (Path (rqURL r)) then g\<lparr>gCache := lru_Delete (gCache g) (Path (rqURL r))\<rparr> else g)
      in if Path (rqURL r) = ''/v1/events'' \<and> rsStatus rs = 201
         then maybeSignalCriticalFromEventResponse (atSignal c) (rsBody rs) g1 else g1)"

definition quorumError :: "header \<Rightarrow> string \<Rightarrow> HttpResponse" where
  "quorumError h msg = writeError h 503 ErrQuorumUnavailable msg"

definition retry_write :: "'w http \<Rightarrow> gw_clock \<Rightarrow> header \<Rightarrow> HttpRequest \<Rightarrow> bytes \<Rightarrow> Gateway \<Rightarrow> 'w \<Rightarrow> HttpResponse \<times> Gateway \<times> 'w" where
  "retry_write http c h r body g0 w0 =
     (let (g, w) = refresh http g0 w0
      in case currentLeader g of
           None \<Rightarrow> (quorumError h ''no leader is currently known after refresh; the cluster may be electing one'', g, w)
         | Some addr \<Rightarrow>
            (case proxyRequest http r body addr w of
               (Some rs, w') \<Rightarrow> (writeProxiedResponse h rs, after_write c r rs g, w')
             | (None, w') \<Rightarrow> (quorumError h ''leader unreachable after refresh'', g, w')))"

definition handleWrite :: "'w http \<Rightarrow> gw_clock \<Rightarrow> header \<Rightarrow> HttpRequest \<Rightarrow> Gateway \<Rightarrow> 'w \<Rightarrow> HttpResponse \<times> Gateway \<times> 'w" where
  "handleWrite http c h r g0 w0 =
     (case rqBody r of
        None \<Rightarrow> (writeError h 400 ErrInvalidRequest ''failed to read request body'', g0, w0)
      | Some body \<Rightarrow>
          let g1 = g0\<lparr>gWorkload := RecordRequest (atRecord c) (kvKeyFromPath (Path (rqURL r))) (gWorkload g0)\<rparr>;
              (g, w) = (if currentLeader g1 = None then refresh http g1 w0 else (g1, w0))
          in case currentLeader g of
               None \<Rightarrow> (quorumError h ''no leader is currently known; the cluster may be electing one'', g, w)
             | Some addr \<Rightarrow>
                (case proxyRequest http r body addr w of
                   (Some rs, w') \<Rightarrow> (writeProxiedResponse h rs, after_write c r rs g, w')
                 | (None, w') \<Rightarrow> retry_write http c h r body g w'))"

text \<open>\<^verbatim>\<open>int(counter) % n\<close>: the conversion wraps and the remainder has the sign of the dividend.\<close>

definition read_start :: "nat \<Rightarrow> nat \<Rightarrow> int" where
  "read_start counter n =
     (let s = s64 (int counter) in if s < 0 then - ((- s) mod int n) else s mod int n)"

fun try_nodes :: "'w http \<Rightarrow> HttpRequest \<Rightarrow> string list \<Rightarrow> 'w \<Rightarrow> HttpResponse option \<times> 'w" where
  "try_nodes http r [] w = (None, w)"
| "try_nodes http r (addr # as) w =
     (case proxyRequest http r [] addr w of
        (Some rs, w') \<Rightarrow> (Some rs, w')
      | (None, w') \<Rightarrow> try_nodes http r as w')"

definition read_order :: "gwNode list \<Rightarrow> nat \<Rightarrow> string list" where
  "read_order ns start = map (\<lambda>i. gnAddr (ns ! ((start + i) mod length ns))) [0..<length ns]"

definition read_nodes :: "'w http \<Rightarrow> header \<Rightarrow> HttpRequest \<Rightarrow> bool \<Rightarrow> Gateway \<Rightarrow> 'w \<Rightarrow> HttpResponse option \<times> Gateway \<times> 'w" where
  "read_nodes http h r cacheable g w =
     (let n = length (gNodes g); counter = u64 (gReadCounter g + 1); g1 = g\<lparr>gReadCounter := counter\<rparr>; start = read_start counter n
      in if n = 0 then (Some (writeError h 503 ErrNodeUnavailable ''no nodes configured''), g, w)
         else if start < 0 then (None, g1, w)
         else case try_nodes http r (read_order (gNodes g) (nat start)) w of
             (None, w') \<Rightarrow> (Some (writeError h 503 ErrNodeUnavailable ''no configured node responded''), g1, w')
           | (Some rs, w') \<Rightarrow>
               (Some (writeProxiedResponse h rs),
                if cacheable \<and> rsStatus rs = 200 \<and> isCacheableConsistency (rsBody rs)
                then g1\<lparr>gCache := lru_Set (gCache g1) (Path (rqURL r)) (rsBody rs)\<rparr> else g1, w'))"

definition handleRead :: "'w http \<Rightarrow> gw_clock \<Rightarrow> header \<Rightarrow> HttpRequest \<Rightarrow> Gateway \<Rightarrow> 'w \<Rightarrow> HttpResponse option \<times> Gateway \<times> 'w" where
  "handleRead http c h r g0 w =
     (let path = Path (rqURL r);
          g = g0\<lparr>gWorkload := RecordRequest (atRecord c) (kvKeyFromPath path) (gWorkload g0)\<rparr>;
          cacheable = prefix kvKeyPrefix path
      in if \<not> cacheable then read_nodes http h r False g w
         else case lru_Get (gCache g) path of
             (Some body, cache') \<Rightarrow>
               (Some \<lparr>rsStatus = 200, rsHeader = header_set ''X-Cache'' ''HIT'' (header_set ''Content-Type'' ''application/json'' h), rsBody = body\<rparr>,
                g\<lparr>gCache := cache'\<rparr>, w)
           | (None, cache') \<Rightarrow> read_nodes http h r True (g\<lparr>gCache := cache'\<rparr>) w)"

section \<open>Cluster and workload status\<close>

definition clusterNodeView :: "gwNode \<Rightarrow> nodeStatus \<Rightarrow> json" where
  "clusterNodeView n st =
     JObj ([(''id'', JStr (gnID n)), (''addr'', JStr (gnAddr n)), (''reachable'', JBool (nsReachable st))]
       @ (if nsRole st = '''' then [] else [(''role'', JStr (nsRole st))])
       @ (if nsTerm st = 0 then [] else [(''term'', JNum (print_nat (nsTerm st)))]))"

text \<open>A nil slice prints as \<^verbatim>\<open>null\<close>.\<close>

definition clusterView :: "Gateway \<Rightarrow> json" where
  "clusterView g =
     JObj ([(''mode'', JStr ''RAFT_GATEWAY'')]
       @ (if gLeaderID g = '''' then [] else [(''leader_id'', JStr (gLeaderID g))])
       @ [(''nodes'', if gNodes g = [] then JNull
            else JArr (map (\<lambda>n. clusterNodeView n (case map_of (gNodeStatus g) (gnID n) of None \<Rightarrow> unreachable | Some st \<Rightarrow> st)) (gNodes g)))])"

definition gw_handleCluster :: "header \<Rightarrow> Gateway \<Rightarrow> HttpResponse" where
  "gw_handleCluster h g = writeJSON h 200 (Some (json_print (clusterView g)))"

definition hotKeyView :: "KeyStat \<Rightarrow> json" where
  "hotKeyView k = JObj [(''key'', JStr (Key k)), (''count'', JNum (print_int (Count k)))]"

definition workloadResponse :: "WorkloadStatus \<Rightarrow> LRU \<Rightarrow> json" where
  "workloadResponse st c =
     JObj ([(''mode'', JStr (wsMode st)), (''rps'', JNum (print_float (wsRPS st)))]
       @ (if wsHotKeys st = [] then [] else [(''hot_keys'', JArr (map hotKeyView (wsHotKeys st)))])
       @ [(''cache'', JObj [(''hits'', JNum (print_int (Hits (lru_Stats c)))), (''misses'', JNum (print_int (Misses (lru_Stats c)))),
            (''evictions'', JNum (print_int (Evictions (lru_Stats c)))), (''hit_rate'', JNum (print_float (HitRate c)))])])"

definition handleWorkload :: "gw_clock \<Rightarrow> header \<Rightarrow> Gateway \<Rightarrow> HttpResponse \<times> Gateway" where
  "handleWorkload c h g =
     (case workload_Status (atStatus c) (atHotKeys c) (gWorkload g) of
        (st, wl) \<Rightarrow> (writeJSON h 200 (Some (json_print (workloadResponse st (gCache g)))), g\<lparr>gWorkload := wl\<rparr>))"

section \<open>The prediction handler\<close>

definition encode_output :: "Output \<Rightarrow> string option" where
  "encode_output out =
     map_option (\<lambda>t. json_print (JObj [(''predicted_rps'', JNum (print_float (PredictedRPS out))), (''confidence'', JNum (print_float (oConfidence out))),
        (''peak_time'', JStr t), (''recommended_nodes'', JNum (print_int (RecommendedNodes out)))]))
       (print_time (instant (PeakTime out)))"

definition handlePredict :: "texts \<Rightarrow> header \<Rightarrow> HttpRequest \<Rightarrow> Gateway \<Rightarrow> HttpResponse" where
  "handlePredict L h r g =
     (if \<not> trained (gPredictor g) then writeError h 503 ErrInternal ''prediction model is not available''
      else case Option.bind (decode_first (rqBody r)) decode_event of
        None \<Rightarrow> writeError h 400 ErrInvalidRequest (''invalid JSON body: '' @ DecodeErr L (rqBody r))
      | Some ev \<Rightarrow>
          if StartTime ev = None then writeError h 400 ErrInvalidRequest (print_string ''start_time'' @ '' is required'')
          else writeJSON h 200 (encode_output (Predict (gPredictor g) (FeaturesFromEvent ev))))"

section \<open>The admin proxy\<close>

text \<open>The texts of a failed call and of a status line.\<close>

record client_texts =
  CallErr :: string
  StatusLine :: "nat \<Rightarrow> string"

definition adminNode :: "Gateway \<Rightarrow> string \<Rightarrow> gwNode option" where
  "adminNode g i = find (\<lambda>n. gnID n = i) (gNodes g)"

definition proxyAdmin :: "'w http \<Rightarrow> client_texts \<Rightarrow> header \<Rightarrow> HttpRequest \<Rightarrow> string \<Rightarrow> string \<Rightarrow> Gateway \<Rightarrow> 'w \<Rightarrow> HttpResponse \<times> 'w" where
  "proxyAdmin http K h r nid path g w =
     (case adminNode g nid of
        None \<Rightarrow> (writeError h 404 ErrNodeUnavailable (''unknown node id: '' @ nid), w)
      | Some n \<Rightarrow>
          if gnAdminAddr n = '''' then (writeError h 503 ErrNodeUnavailable (''node '' @ gnID n @ '' has no admin_addr configured''), w)
          else case rqBody r of
            None \<Rightarrow> (writeError h 400 ErrInvalidRequest (''reading request body: '' @ CallErr K), w)
          | Some b \<Rightarrow>
             (case http_do http (rqMethod r) (gnAdminAddr n) path
                     (header_set ''Authorization'' (''Bearer '' @ AdminToken (gOpts g)) (header_set ''Content-Type'' ''application/json'' [])) b w of
                (None, w') \<Rightarrow> (writeError h 503 ErrNodeUnavailable (''node '' @ gnID n @ '' admin server unreachable: '' @ CallErr K), w')
              | (Some rs, w') \<Rightarrow>
                  (\<lparr>rsStatus = rsStatus rs, rsHeader = header_set ''Content-Type'' ''application/json'' h, rsBody = rsBody rs\<rparr>, w')))"

text \<open>The raw status of a node, or the text of an error.\<close>

definition pollAdminStatus :: "'w http \<Rightarrow> client_texts \<Rightarrow> Gateway \<Rightarrow> gwNode \<Rightarrow> 'w \<Rightarrow> (string \<times> (string + bytes)) \<times> 'w" where
  "pollAdminStatus http K g n w =
     (if gnAdminAddr n = '''' then ((gnID n, Inl ''no admin_addr configured''), w)
      else case http_do http ''GET'' (gnAdminAddr n) ''/status'' (header_set ''Authorization'' (''Bearer '' @ AdminToken (gOpts g)) []) [] w of
          (None, w') \<Rightarrow> ((gnID n, Inl (CallErr K)), w')
        | (Some rs, w') \<Rightarrow>
            ((gnID n, if rsStatus rs \<noteq> 200 then Inl (''admin server returned '' @ StatusLine K (rsStatus rs)) else Inr (rsBody rs)), w'))"

text \<open>The polls run in parallel; here one after the other, in the order of the nodes.\<close>

fun poll_all :: "'w http \<Rightarrow> client_texts \<Rightarrow> Gateway \<Rightarrow> gwNode list \<Rightarrow> 'w \<Rightarrow> (string \<times> (string + bytes)) list \<times> 'w" where
  "poll_all http K g [] w = ([], w)"
| "poll_all http K g (n # ns) w =
     (case pollAdminStatus http K g n w of (x, w') \<Rightarrow> (case poll_all http K g ns w' of (xs, w'') \<Rightarrow> (x # xs, w'')))"

definition status_text :: "string + bytes \<Rightarrow> string option" where
  "status_text s = (case s of Inl err \<Rightarrow> Some (json_print (JObj [(''error'', JStr err)])) | Inr b \<Rightarrow> print_raw (bytes_str b))"

definition handleAdminStatusAll :: "'w http \<Rightarrow> client_texts \<Rightarrow> header \<Rightarrow> Gateway \<Rightarrow> 'w \<Rightarrow> HttpResponse \<times> 'w" where
  "handleAdminStatusAll http K h g w =
     (case poll_all http K g (gNodes g) w of
        (results, w') \<Rightarrow>
          let view = sort_key fst (fold (\<lambda>(i, s). AList.update i s) results [])
          in (writeJSON h 200 (map_option (\<lambda>vs. ''{'' @ comma_sep (map (\<lambda>(i, v). print_string i @ '':'' @ v) vs) @ ''}'')
                (collect (\<lambda>(i, s). map_option (Pair i) (status_text s)) view)), w'))"

definition authenticatedAdmin :: "Gateway \<Rightarrow> header \<Rightarrow> HttpRequest \<Rightarrow> HttpResponse option" where
  "authenticatedAdmin g h r =
     (if AdminToken (gOpts g) = ''''
      then Some (writeError h 503 ErrNodeUnavailable ''admin routes are disabled: no admin token configured on the gateway'')
      else if header_get ''Authorization'' (rqHeader r) \<noteq> ''Bearer '' @ AdminToken (gOpts g)
      then Some (writeError h 401 ErrUnauthorized ''missing or invalid admin token'')
      else None)"

section \<open>Routing\<close>

datatype gw_handler = GWrite | GRead | GCluster | GWorkload | GPredict | GHealth | GAdminStatusAll | GAdmin string | GMetrics

definition gw_routes :: "(route \<times> gw_handler) list" where
  "gw_routes =
    [(\<lparr>rtMethod = ''PUT'', rtPattern = kv_pattern\<rparr>, GWrite),
     (\<lparr>rtMethod = ''DELETE'', rtPattern = kv_pattern\<rparr>, GWrite),
     (\<lparr>rtMethod = ''GET'', rtPattern = kv_pattern\<rparr>, GRead),
     (\<lparr>rtMethod = ''POST'', rtPattern = [Lit ''v1'', Lit ''events'']\<rparr>, GWrite),
     (\<lparr>rtMethod = ''GET'', rtPattern = [Lit ''v1'', Lit ''events'']\<rparr>, GRead),
     (\<lparr>rtMethod = ''GET'', rtPattern = [Lit ''v1'', Lit ''cluster'']\<rparr>, GCluster),
     (\<lparr>rtMethod = ''GET'', rtPattern = [Lit ''v1'', Lit ''workload'']\<rparr>, GWorkload),
     (\<lparr>rtMethod = ''POST'', rtPattern = [Lit ''v1'', Lit ''predict'']\<rparr>, GPredict),
     (\<lparr>rtMethod = ''GET'', rtPattern = [Lit ''healthz'']\<rparr>, GHealth),
     (\<lparr>rtMethod = ''GET'', rtPattern = [Lit ''v1'', Lit ''admin'', Lit ''status'']\<rparr>, GAdminStatusAll),
     (\<lparr>rtMethod = ''GET'', rtPattern = [Lit ''v1'', Lit ''admin'', Wild ''nodeID'', Lit ''status'']\<rparr>, GAdmin ''/status''),
     (\<lparr>rtMethod = ''POST'', rtPattern = [Lit ''v1'', Lit ''admin'', Wild ''nodeID'', Lit ''kill'']\<rparr>, GAdmin ''/kill''),
     (\<lparr>rtMethod = ''POST'', rtPattern = [Lit ''v1'', Lit ''admin'', Wild ''nodeID'', Lit ''fault'']\<rparr>, GAdmin ''/fault''),
     (\<lparr>rtMethod = ''POST'', rtPattern = [Lit ''v1'', Lit ''admin'', Wild ''nodeID'', Lit ''restore'']\<rparr>, GAdmin ''/restore'')]"

definition rate_limited :: "gw_handler \<Rightarrow> bool" where
  "rate_limited hd' = (hd' \<notin> {GCluster, GWorkload, GHealth, GMetrics})"

text \<open>What the library texts and the metrics page are for one request.\<close>

record gw_env =
  geTexts :: texts
  geClient :: client_texts
  gePage :: bytes
  geClock :: gw_clock

definition gw_handle ::
  "'w http \<Rightarrow> gw_env \<Rightarrow> header \<Rightarrow> HttpRequest \<Rightarrow> gw_handler \<Rightarrow> string list \<Rightarrow> Gateway \<Rightarrow> 'w \<Rightarrow> HttpResponse option \<times> Gateway \<times> 'w" where
  "gw_handle http E h r hd' vs g w =
     (case hd' of
        GWrite \<Rightarrow> (case handleWrite http (geClock E) h r g w of (resp, g', w') \<Rightarrow> (Some resp, g', w'))
      | GRead \<Rightarrow> handleRead http (geClock E) h r g w
      | GCluster \<Rightarrow> (Some (gw_handleCluster h g), g, w)
      | GWorkload \<Rightarrow> (case handleWorkload (geClock E) h g of (resp, g') \<Rightarrow> (Some resp, g', w))
      | GPredict \<Rightarrow> (Some (handlePredict (geTexts E) h r g), g, w)
      | GHealth \<Rightarrow> (Some (handleHealth h), g, w)
      | GMetrics \<Rightarrow> (Some \<lparr>rsStatus = 200, rsHeader = h, rsBody = gePage E\<rparr>, g, w)
      | GAdminStatusAll \<Rightarrow>
          (case authenticatedAdmin g h r of
             Some resp \<Rightarrow> (Some resp, g, w)
           | None \<Rightarrow> (case handleAdminStatusAll http (geClient E) h g w of (resp, w') \<Rightarrow> (Some resp, g, w')))
      | GAdmin path \<Rightarrow>
          (case authenticatedAdmin g h r of
             Some resp \<Rightarrow> (Some resp, g, w)
           | None \<Rightarrow> (case proxyAdmin http (geClient E) h r (hd vs) path g w of (resp, w') \<Rightarrow> (Some resp, g, w'))))"

definition rateLimited :: "gw_env \<Rightarrow> header \<Rightarrow> HttpRequest \<Rightarrow> (Gateway \<Rightarrow> HttpResponse option \<times> Gateway \<times> 'w) \<Rightarrow> Gateway \<Rightarrow> 'w \<Rightarrow> HttpResponse option \<times> Gateway \<times> 'w" where
  "rateLimited E h r next g w =
     (case Allow (atCreated (geClock E)) (atAllow (geClock E)) (clientKey (RemoteAddr r)) (gLimiter g) of
        (ok, rl) \<Rightarrow>
          if ok then next (g\<lparr>gLimiter := rl\<rparr>)
          else (Some (writeError h 429 ErrRateLimited ''rate limit exceeded, try again shortly''), g\<lparr>gLimiter := rl\<rparr>, w))"

definition gw_mux ::
  "'w http \<Rightarrow> gw_env \<Rightarrow> (route \<times> gw_handler) list \<Rightarrow> header \<Rightarrow> HttpRequest \<Rightarrow> Gateway \<Rightarrow> 'w \<Rightarrow> (HttpResponse option \<times> string) \<times> Gateway \<times> 'w" where
  "gw_mux http E routes h r g w =
     (case mux routes r of
        (Matched hd' vs, pat) \<Rightarrow>
          (case (if rate_limited hd' then rateLimited E h r (\<lambda>g. gw_handle http E h r hd' vs g w) g w else gw_handle http E h r hd' vs g w) of
             (resp, x) \<Rightarrow> ((resp, pat), x))
      | (d, pat) \<Rightarrow> ((Some (mux_page h d), pat), g, w))"

definition gw_cors :: "Gateway \<Rightarrow> header" where
  "gw_cors g =
     header_set ''Access-Control-Allow-Headers'' ''Content-Type, Authorization''
       (header_set ''Access-Control-Allow-Methods'' ''GET, POST, PUT, DELETE, OPTIONS''
         (header_set ''Access-Control-Allow-Origin'' (AllowedOrigin (gOpts g)) []))"

definition gw_metrics_route :: "(route \<times> gw_handler) list" where
  "gw_metrics_route = [(\<lparr>rtMethod = ''GET'', rtPattern = [Lit ''metrics'']\<rparr>, GMetrics)]"

definition gw_ServeHTTP ::
  "'w http \<Rightarrow> gw_env \<Rightarrow> int \<Rightarrow> HttpRequest \<Rightarrow> Gateway \<times> 'w \<times> 's Metrics option \<Rightarrow> HttpResponse option \<times> Gateway \<times> 'w \<times> 's Metrics option" where
  "gw_ServeHTTP http E took r x =
     (case x of (g, w, met) \<Rightarrow>
        if rqMethod r = ''OPTIONS'' then (Some (noContent (gw_cors g)), x)
        else
          (case gw_mux http E (gw_routes @ (case met of None \<Rightarrow> [] | Some _ \<Rightarrow> gw_metrics_route)) (gw_cors g) r g w of
             ((None, _), g', w') \<Rightarrow> (None, g', w', met)
           | ((Some resp, pat), g', w') \<Rightarrow>
               (case met of
                  None \<Rightarrow> (Some resp, g', w', None)
                | Some m \<Rightarrow> (case Middleware (\<lambda>_. ((resp, pat), ())) took r () m of (resp', _, m') \<Rightarrow> (Some resp', g', w', Some m')))))"

text \<open>The sources that \<^verbatim>\<open>SetMetrics\<close> registers; reading the rate prunes the window at the time of the scrape.\<close>

definition gw_SetMetrics :: "(Gateway \<Rightarrow> time) \<Rightarrow> Gateway Metrics \<Rightarrow> Gateway Metrics" where
  "gw_SetMetrics now m =
     RegisterWorkloadSource (\<lambda>g. \<lparr>msMode = mode (gWorkload g), msRPS = fst (monitor_RPS (now g) (requests (gWorkload g)))\<rparr>)
       (RegisterCacheSource (\<lambda>g. let st = lru_Stats (gCache g) in \<lparr>msHits = Hits st, msMisses = Misses st, msEvictions = Evictions st\<rparr>) m)"

text \<open>\<^verbatim>\<open>Start\<close> and every tick of \<^verbatim>\<open>run\<close> refresh the view of the cluster.\<close>

definition gw_Start :: "'w http \<Rightarrow> Gateway \<Rightarrow> 'w \<Rightarrow> Gateway \<times> 'w" where
  "gw_Start http g w = refresh http g w"

end
