(* ===== verification/Gateway_Props.thy ===== *)
theory Gateway_Props
  imports Gateway
begin

text \<open>
  What the gateway promises and what it does not: critical values are never served from the cache, the
  leader it follows is the one of the highest term it has heard of, but a key whose URL form is escaped
  reaches the node as another key, and a new version of an event leaves the old one in the cache.
\<close>

section \<open>The cache\<close>

definition cache_ok :: "Gateway \<Rightarrow> bool" where
  "cache_ok g \<longleftrightarrow> lru_inv (gCache g) \<and> (\<forall>p b. cached (gCache g) p = Some b \<longrightarrow> isCacheableConsistency b)"

lemma refresh_cache: "refresh http g w = (g', w') \<Longrightarrow> gCache g' = gCache g"
  by (auto simp: refresh_def Let_def split: prod.splits if_splits)

lemma signal_cache [simp]: "gCache (maybeSignalCriticalFromEventResponse t b g) = gCache g"
  by (simp add: maybeSignalCriticalFromEventResponse_def)

lemma after_write_cache:
  "gCache (after_write c r rs g) = (if prefix kvKeyPrefix (Path (rqURL r)) then lru_Delete (gCache g) (Path (rqURL r)) else gCache g)"
  by (simp add: after_write_def Let_def)

text \<open>A write touches the cache only to drop the path it writes.\<close>

lemma handleWrite_cache:
  assumes "handleWrite http c h r g w = (resp, g', w')"
  shows "gCache g' = gCache g \<or> prefix kvKeyPrefix (Path (rqURL r)) \<and> gCache g' = lru_Delete (gCache g) (Path (rqURL r))"
proof -
  have retry: "gCache g2 = gCache g1 \<or> prefix kvKeyPrefix (Path (rqURL r)) \<and> gCache g2 = lru_Delete (gCache g1) (Path (rqURL r))"
    if "retry_write http c h r b g1 w1 = (resp, g2, w2)" for b g1 w1 g2 w2
    using that by (auto simp: retry_write_def Let_def after_write_cache dest!: refresh_cache split: prod.splits option.splits if_splits)
  show ?thesis using assms
    by (auto simp: handleWrite_def Let_def after_write_cache dest!: refresh_cache retry split: prod.splits option.splits if_splits)
qed

lemma cache_ok_delete: "cache_ok g \<Longrightarrow> gCache g' = lru_Delete (gCache g) k \<Longrightarrow> cache_ok g'"
  unfolding cache_ok_def by (metis lru.del_SomeD lru.del_view)

lemma cache_ok_set: "cache_ok g \<Longrightarrow> isCacheableConsistency b \<Longrightarrow> gCache g' = lru_Set (gCache g) k b \<Longrightarrow> cache_ok g'"
  unfolding cache_ok_def by (metis lru.put_SomeD lru.put_view)

lemma cache_ok_get: "cache_ok g \<Longrightarrow> lru_Get (gCache g) k = (x, gCache g') \<Longrightarrow> cache_ok g'"
  unfolding cache_ok_def by (metis lru.get_view snd_conv)

lemma cache_ok_same: "cache_ok g \<Longrightarrow> gCache g' = gCache g \<Longrightarrow> cache_ok g'"
  unfolding cache_ok_def by metis

lemma read_nodes_cache:
  assumes "cache_ok g" "read_nodes http h r cacheable g w = (resp, g', w')"
  shows "cache_ok g'"
proof -
  have "gCache g' = gCache g \<or> (\<exists>b. isCacheableConsistency b \<and> gCache g' = lru_Set (gCache g) (Path (rqURL r)) b)"
    using assms(2) by (auto simp: read_nodes_def Let_def split: prod.splits option.splits if_splits)
  then show ?thesis using assms(1) cache_ok_set cache_ok_same by blast
qed

lemma handleRead_cache:
  assumes "cache_ok g" "handleRead http c h r g w = (resp, g', w')"
  shows "cache_ok g'"
proof -
  let ?g = "g\<lparr>gWorkload := RecordRequest (atRecord c) (kvKeyFromPath (Path (rqURL r))) (gWorkload g)\<rparr>"
  have g: "cache_ok ?g" using cache_ok_same [OF assms(1), of ?g] by simp
  show ?thesis
  proof (cases "prefix kvKeyPrefix (Path (rqURL r))")
    case False
    then show ?thesis using assms(2) read_nodes_cache [OF g] by (auto simp: handleRead_def Let_def)
  next
    case True
    obtain x cache' where x: "lru_Get (gCache ?g) (Path (rqURL r)) = (x, cache')" by fastforce
    have g': "cache_ok (?g\<lparr>gCache := cache'\<rparr>)" using cache_ok_get [OF g, of _ x] x by simp
    show ?thesis
      using assms(2) True x g' read_nodes_cache [OF g'] by (cases x) (auto simp: handleRead_def Let_def)
  qed
qed

lemma gw_handle_cache:
  assumes "cache_ok g" "gw_handle http E h r hd' vs g w = (resp, g', w')"
  shows "cache_ok g'"
proof (cases hd')
  case GWrite
  then obtain resp' where "handleWrite http (geClock E) h r g w = (resp', g', w')"
    using assms(2) by (auto simp: gw_handle_def split: prod.splits)
  from handleWrite_cache [OF this] show ?thesis using assms(1) cache_ok_same cache_ok_delete by blast
next
  case GRead
  then show ?thesis using assms handleRead_cache by (auto simp: gw_handle_def)
next
  case GWorkload
  then have "gCache g' = gCache g" using assms(2) by (auto simp: gw_handle_def handleWorkload_def split: prod.splits)
  then show ?thesis using assms(1) cache_ok_same by blast
qed (use assms in \<open>auto simp: gw_handle_def split: option.splits prod.splits\<close>)

lemma gw_mux_cache:
  assumes "cache_ok g" "gw_mux http E routes h r g w = (resp, g', w')"
  shows "cache_ok g'"
proof (cases "\<exists>hd' vs. fst (mux routes r) = Matched hd' vs")
  case False
  then show ?thesis using assms by (auto simp: gw_mux_def split: prod.splits routed.splits)
next
  case True
  then obtain hd' vs pat where m: "mux routes r = (Matched hd' vs, pat)" by (metis prod.collapse)
  have lim: "cache_ok (g\<lparr>gLimiter := rl\<rparr>)" for rl using cache_ok_same [OF assms(1)] by simp
  show ?thesis using assms m gw_handle_cache [OF assms(1)] gw_handle_cache [OF lim] lim
    by (auto simp: gw_mux_def rateLimited_def split: prod.splits if_splits)
qed

lemma gw_ServeHTTP_cache:
  assumes "cache_ok g" "gw_ServeHTTP http E took r (g, w, met) = (resp, g', w', met')"
  shows "cache_ok g'"
  using assms gw_mux_cache [OF assms(1)]
  by (auto simp: gw_ServeHTTP_def split: prod.splits option.splits if_splits)

text \<open>A run of requests, each with its surroundings, and the refreshes of the background loop between them.\<close>

datatype gw_event = Served gw_env int HttpRequest | Refreshed

fun gw_step :: "'w http \<Rightarrow> gw_event \<Rightarrow> Gateway \<times> 'w \<times> 's Metrics option \<Rightarrow> Gateway \<times> 'w \<times> 's Metrics option" where
  "gw_step http (Served E took r) x = snd (gw_ServeHTTP http E took r x)"
| "gw_step http Refreshed (g, w, met) = (case refresh http g w of (g', w') \<Rightarrow> (g', w', met))"

lemma gw_step_cache: "cache_ok (fst x) \<Longrightarrow> cache_ok (fst (gw_step http ev x))"
proof (cases ev)
  case (Served E took r)
  assume ok: "cache_ok (fst x)"
  obtain g w met where x: "x = (g, w, met)" by (rule prod_cases3)
  obtain resp g' w' met' where "gw_ServeHTTP http E took r (g, w, met) = (resp, g', w', met')" by (rule prod_cases4)
  with ok show ?thesis using gw_ServeHTTP_cache by (auto simp: Served x)
next
  case Refreshed
  assume ok: "cache_ok (fst x)"
  obtain g w met where x: "x = (g, w, met)" by (rule prod_cases3)
  obtain g' w' where r: "refresh http g w = (g', w')" by fastforce
  have "cache_ok g'" using cache_ok_same [OF ok, of g'] refresh_cache [OF r] by (simp add: x)
  then show ?thesis by (simp add: Refreshed x r)
qed

text \<open>
  C37: Through every sequence of requests and refreshes of a new gateway, whatever the nodes answer, no
  response in the cache says that its value is \<^verbatim>\<open>CRITICAL\<close>: such a value is never served from the cache.
\<close>

theorem gateway_cache_never_critical:
  "list_all (\<lambda>(path, body). Option.bind (json_parse (bytes_str body)) (field_text ''consistency'') \<noteq> Some ''CRITICAL'')
     (recent (gCache (fst (fold (gw_step http) evs (gw_New sqrtf ds ns opt, w, met)))))"
proof -
  have new: "cache_ok (gw_New sqrtf ds ns opt)"
    using lru_inv_New by (auto simp: cache_ok_def gw_New_def Let_def cached_def recent_def NewLRU_def)
  have "cache_ok (fst (fold (gw_step http) evs x))" if "cache_ok (fst x)" for x
    using that by (induction evs arbitrary: x) (auto simp: gw_step_cache)
  from this [of "(gw_New sqrtf ds ns opt, w, met)"] new
  have ok: "cache_ok (fst (fold (gw_step http) evs (gw_New sqrtf ds ns opt, w, met)))" by simp
  show ?thesis
  proof (clarsimp simp: list_all_iff simp del: Option.bind_eq_Some_conv)
    fix p b
    assume "(p, b) \<in> set (recent (gCache (fst (fold (gw_step http) evs (gw_New sqrtf ds ns opt, w, met)))))"
    then have "cached (gCache (fst (fold (gw_step http) evs (gw_New sqrtf ds ns opt, w, met)))) p = Some b"
      using distinct_recent ok by (auto simp: cache_ok_def cached_def)
    then have "isCacheableConsistency b" using ok by (auto simp: cache_ok_def)
    moreover assume "Option.bind (json_parse (bytes_str b)) (field_text ''consistency'') = Some ''CRITICAL''"
    ultimately show False by (simp add: isCacheableConsistency_def)
  qed
qed

section \<open>Escaped keys\<close>


lemma cut_at_found: "c \<notin> set s \<Longrightarrow> cut_at c (s @ c # t) = (s, t)"
  by (induction s) (auto simp: cut_at_def)

lemma cut_at_absent: "c \<notin> set s \<Longrightarrow> cut_at c s = (s, [])"
  by (induction s) (auto simp: cut_at_def)

lemma unescape_path_append_plain:
  "list_all (\<lambda>c. \<not> should_escape c) s \<Longrightarrow> unescape_path (s @ t) = map_option ((@) s) (unescape_path t)"
proof (induction s)
  case (Cons c s)
  have "c \<noteq> CHR ''%''" using Cons.prems by (auto simp: should_escape_def alnum_def cont_def code_def)
  then show ?case using Cons by (simp add: option.map_comp o_def)
qed (cases "unescape_path t"; simp)

definition plain :: "string \<Rightarrow> bool" where
  "plain s \<longleftrightarrow> list_all (\<lambda>c. \<not> should_escape c \<and> c \<noteq> CHR ''/'') s"

lemma plainD:
  assumes "plain s"
  shows "list_all (\<lambda>c. \<not> should_escape c) s" "escape_path s = s" "unescape_path s = Some s"
    "CHR ''?'' \<notin> set s" "CHR ''#'' \<notin> set s" "\<not> list_ex ctl_byte s" "CHR ''/'' \<notin> set s"
proof -
  show l: "list_all (\<lambda>c. \<not> should_escape c) s" using assms by (auto simp: plain_def list_all_iff)
  show "escape_path s = s" "unescape_path s = Some s" using l by (simp_all add: escape_path_plain unescape_path_plain)
  have e: "should_escape (CHR ''?'')" "should_escape (CHR ''#'')" by (simp_all add: should_escape_def alnum_def cont_def code_def)
  then show "CHR ''?'' \<notin> set s" "CHR ''#'' \<notin> set s" using l by (auto simp: list_all_iff)
  have "\<not> ctl_byte c" if "\<not> should_escape c" for c
  proof -
    have "alnum c \<or> c \<in> set ''-_.~$&+,/:;=@''" using that by (simp add: should_escape_def)
    then show ?thesis by (auto simp: ctl_byte_def alnum_def cont_def code_def)
  qed
  then show "\<not> list_ex ctl_byte s" using l by (auto simp: list_all_iff list_ex_iff)
  show "CHR ''/'' \<notin> set s" using assms by (auto simp: plain_def list_all_iff)
qed

lemma kv_prefix_facts:
  "list_all (\<lambda>c. \<not> should_escape c) ''/v1/kv/''" "CHR ''?'' \<notin> set ''/v1/kv/''" "CHR ''#'' \<notin> set ''/v1/kv/''" "\<not> list_ex ctl_byte ''/v1/kv/''"
  by (simp_all add: should_escape_def alnum_def cont_def code_def ctl_byte_def)

lemma parse_kv_query:
  assumes "plain a" "plain b"
  shows "parse_url (''/v1/kv/'' @ a @ CHR ''?'' # b) = Some \<lparr>Path = ''/v1/kv/'' @ a, RawPath = '''', RawQuery = b\<rparr>"
proof -
  note A = plainD [OF assms(1)] and B = plainD [OF assms(2)]
  have "\<not> list_ex ctl_byte (''/v1/kv/'' @ a @ CHR ''?'' # b)"
    unfolding list_ex_append using A(6) B(6) kv_prefix_facts(4) by (simp add: ctl_byte_def code_def)
  moreover have "cut_at (CHR ''?'') ((''/v1/kv/'' @ a) @ CHR ''?'' # b) = (''/v1/kv/'' @ a, b)"
    by (rule cut_at_found) (use A(4) in simp)
  moreover have "unescape_path (''/v1/kv/'' @ a) = Some (''/v1/kv/'' @ a)"
    unfolding unescape_path_append_plain [OF kv_prefix_facts(1)] A(3) by simp
  moreover have "escape_path (''/v1/kv/'' @ a) = ''/v1/kv/'' @ a" unfolding escape_path_append kv_path_plain A(2) ..
  ultimately show ?thesis unfolding parse_url_def append_assoc by simp
qed

lemma parse_kv_escaped:
  assumes "plain a" "plain b"
  shows "parse_url (''/v1/kv/'' @ a @ ''%3F'' @ b) = Some \<lparr>Path = ''/v1/kv/'' @ a @ CHR ''?'' # b, RawPath = '''', RawQuery = ''''\<rparr>"
proof -
  note A = plainD [OF assms(1)] and B = plainD [OF assms(2)]
  have "\<not> list_ex ctl_byte (''/v1/kv/'' @ a @ ''%3F'' @ b)"
    unfolding list_ex_append using A(6) B(6) kv_prefix_facts(4) by (simp add: ctl_byte_def code_def)
  moreover have "cut_at (CHR ''?'') (''/v1/kv/'' @ a @ ''%3F'' @ b) = (''/v1/kv/'' @ a @ ''%3F'' @ b, [])"
    by (rule cut_at_absent) (use A(4) B(4) in simp)
  moreover have "unescape_path (''%3F'' @ b) = Some (CHR ''?'' # b)"
    using B(3) chr_code [of "CHR ''?''"] by (simp add: hex_val_def cont_def code_def)
  then have "unescape_path (''/v1/kv/'' @ a @ ''%3F'' @ b) = Some (''/v1/kv/'' @ a @ CHR ''?'' # b)"
    unfolding unescape_path_append_plain [OF kv_prefix_facts(1)] unescape_path_append_plain [OF A(1)] by simp
  moreover have "escape_path (''?'') = ''%3F''"
    using chr_code [of "CHR ''3''"] chr_code [of "CHR ''F''"]
    by (simp add: escape_path_def should_escape_def alnum_def cont_def code_def upper_hex_def)
  then have "escape_path (''/v1/kv/'' @ a @ ''?'' @ b) = ''/v1/kv/'' @ a @ ''%3F'' @ b"
    unfolding escape_path_append kv_path_plain A(2) B(2) by simp
  ultimately show ?thesis unfolding parse_url_def by simp
qed

lemma kv_query_escaped:
  assumes "plain a"
  shows "plain b \<Longrightarrow> EscapedPath \<lparr>Path = ''/v1/kv/'' @ a @ CHR ''?'' # b, RawPath = '''', RawQuery = ''''\<rparr> = ''/v1/kv/'' @ a @ ''%3F'' @ b"
    and "EscapedPath \<lparr>Path = ''/v1/kv/'' @ a, RawPath = '''', RawQuery = q\<rparr> = ''/v1/kv/'' @ a"
proof -
  note A = plainD [OF assms]
  assume "plain b"
  have "escape_path (''?'') = ''%3F''"
    using chr_code [of "CHR ''3''"] chr_code [of "CHR ''F''"]
    by (simp add: escape_path_def should_escape_def alnum_def cont_def code_def upper_hex_def)
  then have "escape_path (''/v1/kv/'' @ a @ ''?'' @ b) = ''/v1/kv/'' @ a @ ''%3F'' @ b"
    unfolding escape_path_append kv_path_plain A(2) plainD(2) [OF \<open>plain b\<close>] by simp
  then show "EscapedPath \<lparr>Path = ''/v1/kv/'' @ a @ CHR ''?'' # b, RawPath = '''', RawQuery = ''''\<rparr> = ''/v1/kv/'' @ a @ ''%3F'' @ b"
    by (simp add: EscapedPath_def)
next
  show "EscapedPath \<lparr>Path = ''/v1/kv/'' @ a, RawPath = '''', RawQuery = q\<rparr> = ''/v1/kv/'' @ a"
    using escape_path_append [of "''/v1/kv/''" a] by (simp add: EscapedPath_def kv_path_plain [simplified] plainD(2) [OF assms])
qed

lemma request_kv_query:
  assumes "plain a" "b \<noteq> []"
  shows "RequestURI \<lparr>Path = ''/v1/kv/'' @ a, RawPath = '''', RawQuery = b\<rparr> = ''/v1/kv/'' @ a @ CHR ''?'' # b"
  unfolding RequestURI_def kv_query_escaped(2) [OF assms(1)] Let_def using assms(2) by simp

lemma client_kv_query:
  assumes "plain a" "plain b"
  shows "client_url (''/v1/kv/'' @ a @ CHR ''?'' # b) = Some \<lparr>Path = ''/v1/kv/'' @ a, RawPath = '''', RawQuery = b\<rparr>"
proof -
  note A = plainD [OF assms(1)] and B = plainD [OF assms(2)]
  have "cut_at (CHR ''#'') (''/v1/kv/'' @ a @ CHR ''?'' # b) = (''/v1/kv/'' @ a @ CHR ''?'' # b, [])"
    by (rule cut_at_absent) (use A(5) B(5) in simp)
  then show ?thesis unfolding client_url_def by (simp add: parse_kv_query [OF assms, simplified])
qed

lemma escaped_segment:
  assumes "plain_key a" "plain b"
  shows "key_segment (a @ ''%3F'' @ b) (a @ CHR ''?'' # b)"
proof -
  have a: "plain a" using assms(1) by (simp add: plain_def plain_key_def)
  note A = plainD [OF a] and B = plainD [OF assms(2)]
  have "unescape_path (''%3F'' @ b) = Some (CHR ''?'' # b)"
    using B(3) chr_code [of "CHR ''?''"] by (simp add: hex_val_def cont_def code_def)
  then have u: "unescape_path (a @ ''%3F'' @ b) = Some (a @ CHR ''?'' # b)"
    unfolding unescape_path_append_plain [OF A(1)] by simp
  have "length (a @ ''%3F'' @ b) > 2" by simp
  then have "a @ ''%3F'' @ b \<noteq> ''.''" "a @ ''%3F'' @ b \<noteq> ''..''" by auto
  then show ?thesis unfolding key_segment_def segment_text_def u using A(7) B(7) by simp
qed

text \<open>
  C39: The gateway forwards the decoded path.  A write of the key \<open>a?b\<close>, whose path is
  \<^verbatim>\<open>/v1/kv/a%3Fb\<close>, leaves the gateway with the request URI \<^verbatim>\<open>/v1/kv/a?b\<close>: asked directly the node would write
  the key \<open>a?b\<close>, but through the gateway it overwrites or deletes the key \<open>a\<close>.
\<close>

theorem gateway_misroutes_escaped_key:
  assumes "plain_key a" "plain b" "b \<noteq> []" "(rqMethod r, h) \<in> {(''PUT'', HPut), (''GET'', HGet), (''DELETE'', HDelete)}"
  shows "\<exists>u u'. parse_url (''/v1/kv/'' @ a @ ''%3F'' @ b) = Some u
    \<and> fst (mux api_routes (r\<lparr>rqURL := u\<rparr>)) = Matched h [a @ CHR ''?'' # b]
    \<and> http_do http (rqMethod r) addr (proxy_target u) hdr body w = http addr (rqMethod r) (''/v1/kv/'' @ a @ CHR ''?'' # b) hdr body w
    \<and> parse_url (''/v1/kv/'' @ a @ CHR ''?'' # b) = Some u'
    \<and> fst (mux api_routes (r\<lparr>rqURL := u'\<rparr>)) = Matched h [a]"
proof -
  have a: "plain a" using assms(1) by (simp add: plain_def plain_key_def)
  let ?u = "\<lparr>Path = ''/v1/kv/'' @ a @ CHR ''?'' # b, RawPath = '''', RawQuery = ''''\<rparr>"
  let ?v = "\<lparr>Path = ''/v1/kv/'' @ a, RawPath = '''', RawQuery = b\<rparr>"
  have esc: "EscapedPath ?u = ''/v1/kv/'' @ a @ ''%3F'' @ b" using kv_query_escaped(1) [OF a assms(2)] .
  have esc': "EscapedPath ?v = ''/v1/kv/'' @ a" using kv_query_escaped(2) [OF a] .
  have "mux api_routes (r\<lparr>rqURL := ?u\<rparr>) = (Matched h [a @ CHR ''?'' # b], rqMethod r @ '' /v1/kv/{key}'')"
    by (rule mux_kv [OF escaped_segment [OF assms(1,2)] _ assms(4)]) (use esc in simp_all)
  moreover have "mux api_routes (r\<lparr>rqURL := ?v\<rparr>) = (Matched h [a], rqMethod r @ '' /v1/kv/{key}'')"
    by (rule mux_kv [OF plain_key_segment [OF assms(1)] _ assms(4)]) (use esc' in simp_all)
  moreover have "http_do http (rqMethod r) addr (proxy_target ?u) hdr body w = http addr (rqMethod r) (''/v1/kv/'' @ a @ CHR ''?'' # b) hdr body w"
    unfolding http_do_def proxy_target_def using client_kv_query [OF a assms(2)] request_kv_query [OF a assms(3)] by simp
  ultimately show ?thesis using parse_kv_escaped [OF a assms(2)] parse_kv_query [OF a assms(2)] by fastforce
qed

theorem gateway_misroutes_escaped_key_witness:
  "\<exists>u u'. parse_url (''/v1/kv/'' @ ''a'' @ ''%3F'' @ ''b'') = Some u
    \<and> fst (mux api_routes ((sample_request ''PUT'' ''x'' sample_body)\<lparr>rqURL := u\<rparr>)) = Matched HPut [''a?b'']
    \<and> http_do (\<lambda>addr m uri hdr body w. (None, uri # w)) ''PUT'' ''http://n1'' (proxy_target u) [] sample_body []
        = (None, [''/v1/kv/a?b''])
    \<and> parse_url ''/v1/kv/a?b'' = Some u'
    \<and> fst (mux api_routes ((sample_request ''PUT'' ''x'' sample_body)\<lparr>rqURL := u'\<rparr>)) = Matched HPut [''a'']"
  using gateway_misroutes_escaped_key [OF plain_a(1), of "''b''" "sample_request ''PUT'' ''x'' sample_body" HPut
      "\<lambda>addr m uri hdr body w. (None, uri # w)" "''http://n1''" "[]" sample_body "[]"] plain_a(2)
  by (simp add: sample_request_def plain_def plain_key_def)

section \<open>Stale events\<close>

text \<open>
  C40: \<^verbatim>\<open>POST /v1/events\<close> stores an event under the key \<^verbatim>\<open>event:<id>\<close> but the gateway does not drop the cached
  response for that key: if \<^verbatim>\<open>GET /v1/kv/event:<id>\<close> was cached before, every client still gets the old
  event afterwards, without a request to any node, whatever the nodes hold by then.
\<close>

theorem event_post_leaves_stale_read:
  assumes "lru_inv (gCache g)" "cached (gCache g) (''/v1/kv/event:'' @ i) = Some old"
    and "Path (rqURL r) = ''/v1/events''" "handleWrite http c h r g w = (resp, g', w')"
    and "Path (rqURL q) = ''/v1/kv/event:'' @ i"
  shows "\<exists>g''. handleRead http' c' h' q g' w'' =
      (Some \<lparr>rsStatus = 200, rsHeader = header_set ''X-Cache'' ''HIT'' (header_set ''Content-Type'' ''application/json'' h'), rsBody = old\<rparr>, g'', w'')"
proof -
  have "\<not> prefix kvKeyPrefix (Path (rqURL r))" by (simp add: assms(3) kvKeyPrefix_def)
  then have same: "gCache g' = gCache g" using handleWrite_cache [OF assms(4)] by simp
  obtain c2 where "lru_Get (gCache g) (''/v1/kv/event:'' @ i) = (Some old, c2)"
    using lru.get_view [OF assms(1), of "''/v1/kv/event:'' @ i"] assms(2) by (metis prod.collapse)
  moreover have "prefix kvKeyPrefix (''/v1/kv/event:'' @ i)" by (simp add: kvKeyPrefix_def)
  ultimately show ?thesis by (simp add: handleRead_def assms(5) same)
qed

definition sample_gateway :: Gateway where
  "sample_gateway = (gw_New id [] [\<lparr>gnID = ''n1'', gnAddr = ''http://n1'', gnAdminAddr = ''''\<rparr>] gw_DefaultOptions)
     \<lparr>gLeaderID := ''n1'', gLeaderAddr := ''http://n1'', gCache := lru_Set (NewLRU 1000) ''/v1/kv/event:7'' (str_bytes ''old'')\<rparr>"

definition sample_clock :: gw_clock where
  "sample_clock = \<lparr>atCreated = 1, atAllow = 2, atRecord = \<lparr>at_monitor = 3, at_hotkeys = 4, at_rps = 5, at_mode = 6\<rparr>, atSignal = 7, atStatus = 8, atHotKeys = 9\<rparr>"

definition sample_created :: "nat http" where
  "sample_created addr m uri hdr body n = (Some \<lparr>rsStatus = 201, rsHeader = [], rsBody = str_bytes ''{}''\<rparr>, n + 1)"

theorem event_post_leaves_stale_read_witness:
  "\<exists>g' g''. snd (handleWrite sample_created sample_clock [] ((sample_request ''POST'' ''x'' sample_body)
         \<lparr>rqURL := \<lparr>Path = ''/v1/events'', RawPath = '''', RawQuery = ''''\<rparr>\<rparr>) sample_gateway 0) = (g', 1)
     \<and> handleRead sample_created sample_clock [] (sample_request ''GET'' ''event:7'' []) g' 1 =
      (Some \<lparr>rsStatus = 200, rsHeader = header_set ''X-Cache'' ''HIT'' (header_set ''Content-Type'' ''application/json'' []), rsBody = str_bytes ''old''\<rparr>, g'', 1)"
proof -
  let ?r = "(sample_request ''POST'' ''x'' sample_body)\<lparr>rqURL := \<lparr>Path = ''/v1/events'', RawPath = '''', RawQuery = ''''\<rparr>\<rparr>"
  obtain resp g' w' where h: "handleWrite sample_created sample_clock [] ?r sample_gateway 0 = (resp, g', w')" by (rule prod_cases3)
  have w: "w' = 1" using h
    by (auto simp: handleWrite_def sample_request_def currentLeader_def sample_gateway_def proxyRequest_def http_do_def proxy_target_def
        client_url_def parse_url_def cut_at_def ctl_byte_def code_def sample_created_def Let_def split: option.splits)
  have c: "gCache sample_gateway = lru_Set (NewLRU 1000) ''/v1/kv/event:7'' (str_bytes ''old'')" by (simp add: sample_gateway_def)
  have i: "lru_inv (gCache sample_gateway)" unfolding c using lru.put_view [OF lru_inv_New] by blast
  have "cached (gCache sample_gateway) (''/v1/kv/event:'' @ ''7'') = Some (str_bytes ''old'')"
    unfolding c by (simp add: cached_def recent_def lru_Set_def NewLRU_def)
  from event_post_leaves_stale_read [OF i this _ h, where q = "sample_request ''GET'' ''event:7'' []"] h w show ?thesis
    by (fastforce simp: sample_request_def kv_url_def)
qed

section \<open>Leader discovery and failover\<close>

fun poll_trace :: "'w http \<Rightarrow> gwNode list \<Rightarrow> 'w \<Rightarrow> (gwNode \<times> nodeStatus \<times> bool) list" where
  "poll_trace http [] w = []"
| "poll_trace http (n # ns) w = (case pollNode http n w of (x, w') \<Rightarrow> (n, x) # poll_trace http ns w')"

definition leaders :: "(gwNode \<times> nodeStatus \<times> bool) list \<Rightarrow> (string \<times> nat) list" where
  "leaders tr = map (\<lambda>(n, st, _). (gnID n, nsTerm st)) (filter (\<lambda>(_, st, ok). ok \<and> nsRole st = ''LEADER'') tr)"

lemma leaders_Cons:
  "leaders ((n, st, ok) # tr) = (if ok \<and> nsRole st = ''LEADER'' then (gnID n, nsTerm st) # leaders tr else leaders tr)"
  by (simp add: leaders_def)

lemma poll_trace_nodes: "fst ` set (poll_trace http ns w) \<subseteq> set ns"
proof (induction ns arbitrary: w)
  case (Cons n ns)
  obtain x w' where "pollNode http n w = (x, w')" by fastforce
  then show ?case using Cons.IH [of w'] by auto
qed simp

lemma refresh_loop_best:
  assumes "refresh_loop http ns (sts0, t0, l0) w = ((sts, t, l), w')"
  shows "t0 \<le> t \<and> (\<forall>(_, term) \<in> set (leaders (poll_trace http ns w)). term \<le> t)
    \<and> ((l, t) = (l0, t0) \<and> (\<forall>(_, term) \<in> set (leaders (poll_trace http ns w)). term < t0) \<or> (l, t) \<in> set (leaders (poll_trace http ns w)))"
  using assms
proof (induction ns arbitrary: sts0 t0 l0 w)
  case (Cons n ns)
  obtain st ok w1 where p: "pollNode http n w = ((st, ok), w1)" by (metis prod.collapse)
  let ?sts = "AList.update (gnID n) st sts0"
  show ?case
  proof (cases "ok \<and> nsRole st = ''LEADER'' \<and> nsTerm st \<ge> t0")
    case True
    with Cons.prems p have "refresh_loop http ns (?sts, nsTerm st, gnID n) w1 = ((sts, t, l), w')" by (simp add: Let_def)
    from Cons.IH [OF this] True p show ?thesis by (auto simp: leaders_Cons)
  next
    case False
    with Cons.prems p have "refresh_loop http ns (?sts, t0, l0) w1 = ((sts, t, l), w')" by (simp add: Let_def)
    from Cons.IH [OF this] False p show ?thesis by (auto simp: leaders_Cons)
  qed
qed (simp add: leaders_def)

text \<open>
  A refresh that hears of a leader follows one that reported the highest term; one that hears of none keeps the leader it had.
\<close>

lemma refresh_follows_highest_term:
  assumes "refresh http g w = (g', w')" and "\<forall>n \<in> set (gNodes g). gnID n \<noteq> ''''"
  defines "ls \<equiv> leaders (poll_trace http (gNodes g) w)"
  shows "if ls = [] then gLeaderID g' = gLeaderID g \<and> gLeaderAddr g' = gLeaderAddr g
     else (\<exists>term. (gLeaderID g', term) \<in> set ls \<and> (\<forall>(_, term') \<in> set ls. term' \<le> term)) \<and> gLeaderAddr g' = addrFor (gNodes g) (gLeaderID g')"
proof -
  obtain sts t l where r: "refresh_loop http (gNodes g) ([], 0, '''') w = ((sts, t, l), w')"
    using assms(1) by (auto simp: refresh_def Let_def split: prod.splits if_splits)
  note b = refresh_loop_best [OF r, folded ls_def]
  have ids: "i \<noteq> ''''" if "(i, x) \<in> set ls" for i x
    using that assms(2) poll_trace_nodes [of http "gNodes g" w] by (fastforce simp: ls_def leaders_def)
  show ?thesis
  proof (cases "ls = []")
    case True
    then have "l = ''''" using b by simp
    then show ?thesis using True assms(1) r by (auto simp: refresh_def Let_def)
  next
    case False
    then have l: "(l, t) \<in> set ls" using b by (cases ls) auto
    then show ?thesis using False assms(1) r ids [OF l] b by (auto simp: refresh_def Let_def)
  qed
qed

end
