(* ===== verification/Admin.thy ===== *)
theory Admin
  imports Gateway_Props Rpc
begin

text \<open>
  The admin server of a node (\<^verbatim>\<open>internal/admin/server.go\<close>): fault injection and the simulated crash, behind a
  bearer token.  Its state is the injected faults and whether the process is about to exit.
\<close>

section \<open>The server\<close>

record AdminServer =
  adToken :: string
  adFaults :: Faults
  adKilled :: bool

definition admin_NewServer :: "Faults \<Rightarrow> string \<Rightarrow> AdminServer" where
  "admin_NewServer f tok = \<lparr>adToken = tok, adFaults = f, adKilled = False\<rparr>"

definition admin_writeError :: "header \<Rightarrow> nat \<Rightarrow> string \<Rightarrow> HttpResponse" where
  "admin_writeError h status msg = writeJSON h status (Some (json_print (JObj [(''error'', JStr msg)])))"

definition authenticated :: "AdminServer \<Rightarrow> header \<Rightarrow> HttpRequest \<Rightarrow> HttpResponse option" where
  "authenticated s h r =
     (if adToken s = '''' then Some (admin_writeError h 503 ''admin endpoints are disabled: no admin token configured'')
      else if header_get ''Authorization'' (rqHeader r) \<noteq> ''Bearer '' @ adToken s
      then Some (admin_writeError h 401 ''missing or invalid admin token'')
      else None)"

text \<open>The Raft status is \<open>None\<close> on a node without Raft.\<close>

definition statusResponse :: "Status option \<Rightarrow> AdminServer \<Rightarrow> string" where
  "statusResponse st s =
     (let f = faults_Status (adFaults s);
          (state', term, leader) = (case st of None \<Rightarrow> (''DISABLED'', 0, '''') | Some x \<Rightarrow> (State_String (sState x), sTerm x, sLeaderID x))
      in json_print (JObj
           [(''faults'', JObj [(''partitioned'', JBool (stPartitioned f)), (''latency_ms'', JNum (print_int (stLatencyMS f))),
               (''drop_rate'', JNum (print_float (stDropRate f)))]),
            (''raft'', JObj [(''state'', JStr state'), (''term'', JNum (print_nat term)), (''leader_id'', JStr leader)])]))"

definition handleKill :: "header \<Rightarrow> AdminServer \<Rightarrow> HttpResponse \<times> AdminServer" where
  "handleKill h s = (writeJSON h 202 (Some (json_print (JObj [(''status'', JStr ''killing'')]))), s\<lparr>adKilled := True\<rparr>)"

text \<open>A field of pointer type: \<^verbatim>\<open>null\<close> makes it nil.\<close>

definition decode_ptr :: "(json \<Rightarrow> 'a option) \<Rightarrow> string \<Rightarrow> (string \<times> json) list \<Rightarrow> 'a option option" where
  "decode_ptr df name members =
     foldl (\<lambda>acc v. case acc of None \<Rightarrow> None | Some _ \<Rightarrow> if v = JNull then Some None else map_option Some (df v)) (Some None) (obj_values name members)"

fun dec_bool :: "json \<Rightarrow> bool option" where
  "dec_bool (JBool b) = Some b"
| "dec_bool _ = None"

record faultRequest =
  frPartitioned :: "bool option"
  frLatencyMS :: "int option"
  frDropRate :: "rat option"

definition decode_fault :: "bytes option \<Rightarrow> faultRequest option" where
  "decode_fault body =
     (case decode_first body of
        Some (JObj members) \<Rightarrow>
          (case (decode_ptr dec_bool ''partitioned'' members, decode_ptr dec_int64 ''latency_ms'' members, decode_ptr dec_float ''drop_rate'' members) of
             (Some p, Some l, Some d) \<Rightarrow> Some \<lparr>frPartitioned = p, frLatencyMS = l, frDropRate = d\<rparr>
           | _ \<Rightarrow> None)
      | Some JNull \<Rightarrow> Some \<lparr>frPartitioned = None, frLatencyMS = None, frDropRate = None\<rparr>
      | _ \<Rightarrow> None)"

definition set_faults :: "faultRequest \<Rightarrow> Faults \<Rightarrow> Faults" where
  "set_faults req f =
     (let f1 = (case frPartitioned req of None \<Rightarrow> f | Some p \<Rightarrow> SetPartitioned p f);
          f2 = (case frLatencyMS req of None \<Rightarrow> f1 | Some l \<Rightarrow> SetLatency (s64 (l * 1000000)) f1)
      in case frDropRate req of None \<Rightarrow> f2 | Some d \<Rightarrow> SetDropRate d f2)"

definition handleFault :: "texts \<Rightarrow> Status option \<Rightarrow> header \<Rightarrow> HttpRequest \<Rightarrow> AdminServer \<Rightarrow> HttpResponse \<times> AdminServer" where
  "handleFault L st h r s =
     (case decode_fault (rqBody r) of
        None \<Rightarrow> (admin_writeError h 400 (''invalid JSON body: '' @ DecodeErr L (rqBody r)), s)
      | Some req \<Rightarrow>
          let s' = s\<lparr>adFaults := set_faults req (adFaults s)\<rparr> in (writeJSON h 200 (Some (statusResponse st s')), s'))"

definition handleRestore :: "Status option \<Rightarrow> header \<Rightarrow> AdminServer \<Rightarrow> HttpResponse \<times> AdminServer" where
  "handleRestore st h s =
     (let s' = s\<lparr>adFaults := Reset (adFaults s)\<rparr> in (writeJSON h 200 (Some (statusResponse st s')), s'))"

definition handleStatus :: "Status option \<Rightarrow> header \<Rightarrow> AdminServer \<Rightarrow> HttpResponse" where
  "handleStatus st h s = writeJSON h 200 (Some (statusResponse st s))"

datatype admin_handler = AKill | AFault | ARestore | AStatus

definition admin_routes :: "(route \<times> admin_handler) list" where
  "admin_routes =
    [(\<lparr>rtMethod = ''POST'', rtPattern = [Lit ''kill'']\<rparr>, AKill),
     (\<lparr>rtMethod = ''POST'', rtPattern = [Lit ''fault'']\<rparr>, AFault),
     (\<lparr>rtMethod = ''POST'', rtPattern = [Lit ''restore'']\<rparr>, ARestore),
     (\<lparr>rtMethod = ''GET'', rtPattern = [Lit ''status'']\<rparr>, AStatus)]"

definition admin_ServeHTTP :: "texts \<Rightarrow> Status option \<Rightarrow> HttpRequest \<Rightarrow> AdminServer \<Rightarrow> HttpResponse \<times> AdminServer" where
  "admin_ServeHTTP L st r s =
     (case fst (mux admin_routes r) of
        Matched hd' _ \<Rightarrow>
          (case authenticated s [] r of
             Some resp \<Rightarrow> (resp, s)
           | None \<Rightarrow>
              (case hd' of
                 AKill \<Rightarrow> handleKill [] s
               | AFault \<Rightarrow> handleFault L st [] r s
               | ARestore \<Rightarrow> handleRestore st [] s
               | AStatus \<Rightarrow> (handleStatus st [] s, s)))
      | d \<Rightarrow> (mux_page [] d, s))"

section \<open>Authentication\<close>

text \<open>A request that does not carry the configured token, or any request where none is configured.\<close>

definition unauthorised :: "string \<Rightarrow> HttpRequest \<Rightarrow> bool" where
  "unauthorised tok r \<longleftrightarrow> tok = '''' \<or> header_get ''Authorization'' (rqHeader r) \<noteq> ''Bearer '' @ tok"

text \<open>
  C38: Without the token nobody injects a fault, kills a process or reads a status: the admin server of a node
  answers with an error and keeps its state, and the admin routes of the gateway answer with an error and
  send nothing to any node.  With no token configured this holds for every request.
\<close>

theorem admin_requires_token:
  assumes "unauthorised (adToken s) r" and "unauthorised (AdminToken (gOpts g)) r"
    and "hd' = GAdminStatusAll \<or> hd' = GAdmin path"
  shows "rsStatus (fst (admin_ServeHTTP L st r s)) \<ge> 300 \<and> snd (admin_ServeHTTP L st r s) = s
    \<and> (\<exists>resp. gw_handle http E h r hd' vs g w = (Some resp, g, w) \<and> rsStatus resp \<ge> 300)"
proof -
  have "rsStatus (fst (admin_ServeHTTP L st r s)) \<ge> 300 \<and> snd (admin_ServeHTTP L st r s) = s"
    using assms(1) by (auto simp: admin_ServeHTTP_def unauthorised_def authenticated_def admin_writeError_def mux_page_def split: routed.splits)
  moreover have "\<exists>resp. authenticatedAdmin g h r = Some resp \<and> rsStatus resp \<ge> 300"
    using assms(2) by (auto simp: unauthorised_def authenticatedAdmin_def)
  then have "\<exists>resp. gw_handle http E h r hd' vs g w = (Some resp, g, w) \<and> rsStatus resp \<ge> 300"
    using assms(3) by (auto simp: gw_handle_def)
  ultimately show ?thesis by blast
qed

definition sample_kill :: HttpRequest where
  "sample_kill = (sample_request ''POST'' ''x'' [])\<lparr>rqURL := \<lparr>Path = ''/kill'', RawPath = '''', RawQuery = ''''\<rparr>\<rparr>"

theorem admin_requires_token_witness:
  "rsStatus (fst (admin_ServeHTTP sample_texts None sample_kill (admin_NewServer NewFaults ''secret''))) \<ge> 300
   \<and> snd (admin_ServeHTTP sample_texts None sample_kill (admin_NewServer NewFaults ''secret'')) = admin_NewServer NewFaults ''secret''
   \<and> (\<exists>resp. gw_handle sample_created \<lparr>geTexts = sample_texts, geClient = \<lparr>CallErr = '''', StatusLine = print_nat\<rparr>, gePage = [], geClock = sample_clock\<rparr>
          [] sample_kill (GAdmin ''/kill'') [''n1''] sample_gateway 0 = (Some resp, sample_gateway, 0) \<and> rsStatus resp \<ge> 300)"
  by (rule admin_requires_token)
    (simp_all add: unauthorised_def sample_kill_def sample_request_def header_get_def admin_NewServer_def sample_gateway_def gw_New_def gw_DefaultOptions_def Let_def)

text \<open>With the token a fault request sets the fields it names and no others, and restore clears them all.\<close>

lemma set_faults_fields:
  "partitioned (set_faults req f) = (case frPartitioned req of None \<Rightarrow> partitioned f | Some p \<Rightarrow> p)"
  "latency (set_faults req f) = (case frLatencyMS req of None \<Rightarrow> latency f | Some l \<Rightarrow> s64 (l * 1000000))"
  "dropRate (set_faults req f) = (case frDropRate req of None \<Rightarrow> dropRate f | Some d \<Rightarrow> max 0 (min 1 d))"
  by (auto simp: set_faults_def SetPartitioned_def SetLatency_def SetDropRate_def Let_def split: option.splits)

end
