(* ===== verification/Config.thy ===== *)
theory Config
  imports Admin
begin

text \<open>
  Configuration (\<^verbatim>\<open>internal/config\<close>), the log level (\<^verbatim>\<open>internal/logging\<close>) and how \<^verbatim>\<open>cmd/node\<close> and \<^verbatim>\<open>cmd/gateway\<close>
  turn a configuration into the parts of a process.  The YAML library is an argument: a function that
  overwrites the fields a document names, or fails.  So are the environment and the file system.
\<close>

section \<open>Nodes\<close>

record Peer =
  peID :: string
  peRaftAddr :: string

record Config =
  cfNodeID :: string
  cfHTTPAddr :: string
  cfRaftAddr :: string
  cfLogLevel :: string
  cfDataDir :: string
  cfPeers :: "Peer list"
  cfAdminAddr :: string
  cfAdminToken :: string
  cfCORSOrigin :: string

definition Default :: Config where
  "Default = \<lparr>cfNodeID = ''node-1'', cfHTTPAddr = '':8080'', cfRaftAddr = '':9080'', cfLogLevel = ''info'', cfDataDir = ''./data/node-1'',
     cfPeers = [], cfAdminAddr = '''', cfAdminToken = '''', cfCORSOrigin = ''''\<rparr>"

text \<open>Reading a file: its content, that it is missing, or another error.\<close>

datatype file_result = FileContent bytes | NotExist | ReadError

datatype config_error = ErrParsing string | ErrReading string

definition override :: "string \<Rightarrow> string \<Rightarrow> string" where
  "override v old = (if v \<noteq> '''' then v else old)"

definition applyEnvOverrides :: "(string \<Rightarrow> string) \<Rightarrow> Config \<Rightarrow> Config" where
  "applyEnvOverrides env cfg =
     cfg\<lparr>cfNodeID := override (env ''BOILERPULSE_NODE_ID'') (cfNodeID cfg),
         cfHTTPAddr := override (env ''BOILERPULSE_HTTP_ADDR'') (cfHTTPAddr cfg),
         cfRaftAddr := override (env ''BOILERPULSE_RAFT_ADDR'') (cfRaftAddr cfg),
         cfLogLevel := override (env ''BOILERPULSE_LOG_LEVEL'') (cfLogLevel cfg),
         cfDataDir := override (env ''BOILERPULSE_DATA_DIR'') (cfDataDir cfg),
         cfAdminAddr := override (env ''BOILERPULSE_ADMIN_ADDR'') (cfAdminAddr cfg),
         cfAdminToken := env ''BOILERPULSE_ADMIN_TOKEN'',
         cfCORSOrigin := override (env ''BOILERPULSE_CORS_ORIGIN'') (cfCORSOrigin cfg)\<rparr>"

text \<open>The two loaders have the same shape; \<open>yaml\<close> decodes a document over a configuration.\<close>

definition load_over ::
  "(bytes \<Rightarrow> 'c \<Rightarrow> 'c option) \<Rightarrow> ('c \<Rightarrow> 'c) \<Rightarrow> 'c \<Rightarrow> (string \<Rightarrow> file_result) \<Rightarrow> string \<Rightarrow> config_error + 'c" where
  "load_over yaml overrides def_cfg readFile path =
     (if path = '''' then Inr (overrides def_cfg)
      else case readFile path of
          FileContent data \<Rightarrow>
            (case yaml data def_cfg of None \<Rightarrow> Inl (ErrParsing path) | Some cfg \<Rightarrow> Inr (overrides cfg))
        | NotExist \<Rightarrow> Inr (overrides def_cfg)
        | ReadError \<Rightarrow> Inl (ErrReading path))"

definition Load :: "(bytes \<Rightarrow> Config \<Rightarrow> Config option) \<Rightarrow> (string \<Rightarrow> string) \<Rightarrow> (string \<Rightarrow> file_result) \<Rightarrow> string \<Rightarrow> config_error + Config" where
  "Load yaml env = load_over yaml (applyEnvOverrides env) Default"

section \<open>The gateway\<close>

record GatewayNode =
  gcID :: string
  gcHTTPAddr :: string
  gcAdminAddr :: string

record GatewayConfig =
  gcfHTTPAddr :: string
  gcfLogLevel :: string
  gcfNodes :: "GatewayNode list"
  gcfRateLimitRPS :: rat
  gcfRateLimitBurst :: int
  gcfAdminToken :: string
  gcfCORSOrigin :: string

definition DefaultGateway :: GatewayConfig where
  "DefaultGateway = \<lparr>gcfHTTPAddr = '':8090'', gcfLogLevel = ''info'', gcfNodes = [], gcfRateLimitRPS = 50, gcfRateLimitBurst = 100,
     gcfAdminToken = '''', gcfCORSOrigin = ''''\<rparr>"

definition applyGatewayEnvOverrides :: "(string \<Rightarrow> string) \<Rightarrow> GatewayConfig \<Rightarrow> GatewayConfig" where
  "applyGatewayEnvOverrides env cfg =
     cfg\<lparr>gcfHTTPAddr := override (env ''BOILERPULSE_GATEWAY_HTTP_ADDR'') (gcfHTTPAddr cfg),
         gcfLogLevel := override (env ''BOILERPULSE_LOG_LEVEL'') (gcfLogLevel cfg),
         gcfAdminToken := env ''BOILERPULSE_ADMIN_TOKEN'',
         gcfCORSOrigin := override (env ''BOILERPULSE_CORS_ORIGIN'') (gcfCORSOrigin cfg)\<rparr>"

definition LoadGateway ::
  "(bytes \<Rightarrow> GatewayConfig \<Rightarrow> GatewayConfig option) \<Rightarrow> (string \<Rightarrow> string) \<Rightarrow> (string \<Rightarrow> file_result) \<Rightarrow> string \<Rightarrow> config_error + GatewayConfig" where
  "LoadGateway yaml env = load_over yaml (applyGatewayEnvOverrides env) DefaultGateway"

section \<open>Logging\<close>

datatype level = LevelDebug | LevelInfo | LevelWarn | LevelError

definition parseLevel :: "string \<Rightarrow> level" where
  "parseLevel l =
     (let s = map fold_char l in
      if s = ''debug'' then LevelDebug else if s = ''warn'' \<or> s = ''warning'' then LevelWarn
      else if s = ''error'' then LevelError else LevelInfo)"

section \<open>Processes\<close>

text \<open>\<^verbatim>\<open>main\<close> of \<^verbatim>\<open>cmd/gateway\<close>: no nodes is an error; a rate of zero keeps the default limits.\<close>

definition gateway_main :: "(rat \<Rightarrow> rat) \<Rightarrow> draws list \<Rightarrow> GatewayConfig \<Rightarrow> Gateway option" where
  "gateway_main sqrtf ds cfg =
     (if gcfNodes cfg = [] then None
      else
        let ns = map (\<lambda>n. \<lparr>gnID = gcID n, gnAddr = gcHTTPAddr n, gnAdminAddr = gcAdminAddr n\<rparr>) (gcfNodes cfg);
            o1 = (if gcfRateLimitRPS cfg > 0
                  then gw_DefaultOptions\<lparr>RateLimit := \<lparr>RequestsPerSecond = gcfRateLimitRPS cfg, Burst = gcfRateLimitBurst cfg\<rparr>\<rparr>
                  else gw_DefaultOptions);
            o2 = o1\<lparr>AdminToken := gcfAdminToken cfg\<rparr>;
            o3 = (if gcfCORSOrigin cfg \<noteq> '''' then o2\<lparr>AllowedOrigin := gcfCORSOrigin cfg\<rparr> else o2)
        in Some (gw_New sqrtf ds ns o3))"

text \<open>\<^verbatim>\<open>main\<close> of \<^verbatim>\<open>cmd/node\<close>: the API server, with Raft behind it when the node has peers.\<close>

definition node_server :: "Config \<Rightarrow> 'e KVEngine \<Rightarrow> 'e Proposer \<Rightarrow> 'e Server" where
  "node_server cfg E p =
     (let s = SetAllowedOrigin (cfCORSOrigin cfg) (NewServer E (cfNodeID cfg))
      in if cfPeers cfg \<noteq> [] then SetProposer p s else s)"

text \<open>The gauges of a node: the storage always, Raft with peers.\<close>

definition node_metrics :: "Config \<Rightarrow> ('s \<Rightarrow> Lsm.Stats) \<Rightarrow> ('s \<Rightarrow> Status) \<Rightarrow> 's Metrics" where
  "node_metrics cfg est rst =
     (let m = RegisterStorageSource (\<lambda>s. \<lparr>msMemtableBytes = MemtableBytes (est s), msMemtableEntries = MemtableEntries (est s), msSSTables = SSTables (est s)\<rparr>)
                (metrics_New ''kv-node'' (cfNodeID cfg))
      in if cfPeers cfg \<noteq> []
         then RegisterRaftSource (\<lambda>s. let st = rst s in \<lparr>msTerm = sTerm st, msIsLeader = (sState st = Leader), msCommitIndex = sCommitIndex st,
                msLastApplied = sLastApplied st, msLastLogIndex = sLastLogIndex st\<rparr>) m
         else m)"

text \<open>The start of \<^verbatim>\<open>startRaft\<close>: the IDs of the peers in order, and their addresses (the last one of an ID counts).\<close>

definition raft_peers :: "Config \<Rightarrow> string list \<times> Transport" where
  "raft_peers cfg =
     (map peID (cfPeers cfg), NewTransport (fold (\<lambda>p. AList.update (peID p) (peRaftAddr p)) (cfPeers cfg) []))"

text \<open>\<^verbatim>\<open>startAdmin\<close> runs only when an address is configured.\<close>

definition node_admin :: "Config \<Rightarrow> Faults \<Rightarrow> AdminServer option" where
  "node_admin cfg f = (if cfAdminAddr cfg \<noteq> '''' then Some (admin_NewServer f (cfAdminToken cfg)) else None)"

section \<open>Properties\<close>

text \<open>The token comes from the environment and never from the file, and a variable that is set wins over the file.\<close>

lemma Load_env_wins:
  assumes "Load yaml env readFile path = Inr cfg"
  shows "cfAdminToken cfg = env ''BOILERPULSE_ADMIN_TOKEN''"
    and "env ''BOILERPULSE_NODE_ID'' \<noteq> '''' \<Longrightarrow> cfNodeID cfg = env ''BOILERPULSE_NODE_ID''"
    and "env ''BOILERPULSE_DATA_DIR'' \<noteq> '''' \<Longrightarrow> cfDataDir cfg = env ''BOILERPULSE_DATA_DIR''"
proof -
  obtain base where "cfg = applyEnvOverrides env base"
    using assms by (auto simp: Load_def load_over_def split: if_splits file_result.splits option.splits)
  then show "cfAdminToken cfg = env ''BOILERPULSE_ADMIN_TOKEN''"
    and "env ''BOILERPULSE_NODE_ID'' \<noteq> '''' \<Longrightarrow> cfNodeID cfg = env ''BOILERPULSE_NODE_ID''"
    and "env ''BOILERPULSE_DATA_DIR'' \<noteq> '''' \<Longrightarrow> cfDataDir cfg = env ''BOILERPULSE_DATA_DIR''"
    by (simp_all add: applyEnvOverrides_def override_def)
qed

text \<open>A missing file gives the defaults with the environment; the loaders fail only on a file that is there.\<close>

lemma Load_missing: "readFile path = NotExist \<Longrightarrow> Load yaml env readFile path = Inr (applyEnvOverrides env Default)"
  by (simp add: Load_def load_over_def)

text \<open>Without a token in the environment every admin route of a configured node or gateway is closed.\<close>

lemma no_token_closed:
  assumes "env ''BOILERPULSE_ADMIN_TOKEN'' = ''''" "Load yaml env readFile path = Inr cfg" "node_admin cfg f = Some s"
  shows "unauthorised (adToken s) r"
  using assms Load_env_wins(1) [OF assms(2)] by (auto simp: node_admin_def admin_NewServer_def unauthorised_def split: if_splits)

end
