(* ===== verification/Simulator.thy ===== *)
theory Simulator
  imports Gateway
begin

text \<open>
  The clients of the gateway: the load simulator (\<^verbatim>\<open>simulator\<close>, \<^verbatim>\<open>cmd/simulator\<close>) and the ingestion service
  (\<^verbatim>\<open>cmd/ingest\<close>).  Random draws, clock readings and the ticks a ticker delivers are arguments.  Requests run
  concurrently in the source; what each of them sends and how its outcome is counted is modelled, not
  their timing.  The printed forms of a report are not modelled.
\<close>

section \<open>Scenarios\<close>

record Scenario =
  scName :: string
  scDescription :: string
  BaselineRPS :: rat
  PeakRPS :: rat
  RampUp :: int
  PeakDuration :: int
  RampDown :: int
  WriteRatio :: rat
  HotKeyFraction :: rat
  HotKeyCount :: int
  KeySpace :: int

definition TotalDuration :: "Scenario \<Rightarrow> int" where
  "TotalDuration s = RampUp s + PeakDuration s + RampDown s"

definition TargetRPS :: "Scenario \<Rightarrow> int \<Rightarrow> rat" where
  "TargetRPS s elapsed =
     (if elapsed < 0 then BaselineRPS s
      else if elapsed < RampUp s then
        (if RampUp s \<le> 0 then PeakRPS s
         else BaselineRPS s + of_int elapsed / of_int (RampUp s) * (PeakRPS s - BaselineRPS s))
      else if elapsed < RampUp s + PeakDuration s then PeakRPS s
      else if elapsed < TotalDuration s then
        (if RampDown s \<le> 0 then BaselineRPS s
         else PeakRPS s - of_int (elapsed - RampUp s - PeakDuration s) / of_int (RampDown s) * (PeakRPS s - BaselineRPS s))
      else BaselineRPS s)"

definition pickOp :: "Scenario \<Rightarrow> rat \<Rightarrow> string" where
  "pickOp s roll = (if roll < WriteRatio s then ''PUT'' else ''GET'')"

definition hot_key :: "int \<Rightarrow> string" where "hot_key i = ''sim:hot:'' @ print_int i"
definition cold_key :: "int \<Rightarrow> string" where "cold_key i = ''sim:key:'' @ print_int i"

text \<open>\<open>intn n\<close> is the draw below \<open>n\<close>; \<^verbatim>\<open>Intn\<close> panics when there is nothing to draw from.\<close>

definition pickKey :: "Scenario \<Rightarrow> rat \<Rightarrow> (int \<Rightarrow> int) \<Rightarrow> string option" where
  "pickKey s roll intn =
     (if HotKeyCount s > 0 \<and> roll < HotKeyFraction s then Some (hot_key (intn (HotKeyCount s)))
      else if KeySpace s \<le> 0 then None
      else Some (cold_key (intn (KeySpace s))))"

definition allKeys :: "Scenario \<Rightarrow> string list" where
  "allKeys s = map hot_key [0..HotKeyCount s - 1] @ map cold_key [0..KeySpace s - 1]"

definition sec :: "int \<Rightarrow> int" where "sec n = n * 1000000000"

definition Normal :: Scenario where
  "Normal = \<lparr>scName = ''normal'', scDescription = ''Typical weekday campus traffic: steady baseline, no spikes.'', BaselineRPS = 10, PeakRPS = 10,
     RampUp = 0, PeakDuration = sec 20, RampDown = 0, WriteRatio = 2 / 10, HotKeyFraction = 1 / 10, HotKeyCount = 5, KeySpace = 500\<rparr>"

definition Finals :: Scenario where
  "Finals = \<lparr>scName = ''finals'', scDescription = ''Finals week: elevated sustained load, study-room/library lookups dominate.'', BaselineRPS = 10, PeakRPS = 60,
     RampUp = sec 5, PeakDuration = sec 20, RampDown = sec 5, WriteRatio = 15 / 100, HotKeyFraction = 3 / 10, HotKeyCount = 10, KeySpace = 500\<rparr>"

definition Athletics :: Scenario where
  "Athletics = \<lparr>scName = ''athletics'', scDescription = ''Home game: sharp ramp to a high sustained peak around one popular event.'', BaselineRPS = 10, PeakRPS = 150,
     RampUp = sec 5, PeakDuration = sec 20, RampDown = sec 10, WriteRatio = 1 / 10, HotKeyFraction = 7 / 10, HotKeyCount = 3, KeySpace = 500\<rparr>"

definition Emergency :: Scenario where
  "Emergency = \<lparr>scName = ''emergency'', scDescription = ''Emergency alert: near-instant spike to peak, elevated write ratio for status updates.'',
     BaselineRPS = 10, PeakRPS = 200, RampUp = sec 1, PeakDuration = sec 15, RampDown = sec 5, WriteRatio = 4 / 10, HotKeyFraction = 9 / 10,
     HotKeyCount = 1, KeySpace = 500\<rparr>"

definition HotKey :: Scenario where
  "HotKey = \<lparr>scName = ''hotkey'', scDescription = ''Isolated hot-key stress: moderate steady RPS, nearly all requests hit one key.'', BaselineRPS = 30,
     PeakRPS = 30, RampUp = 0, PeakDuration = sec 20, RampDown = 0, WriteRatio = 5 / 100, HotKeyFraction = 95 / 100, HotKeyCount = 1, KeySpace = 500\<rparr>"

definition All :: "Scenario list" where
  "All = [Normal, Finals, Athletics, Emergency, HotKey]"

definition ByName :: "string \<Rightarrow> Scenario option" where
  "ByName name = find (\<lambda>s. scName s = name) All"

section \<open>The load generator\<close>

record result =
  rLatency :: int
  rStatus :: nat
  rErr :: bool

definition json_payload :: "string \<Rightarrow> bytes" where
  "json_payload v = str_bytes (json_print (JObj [(''value'', JStr v), (''consistency'', JStr ''EVENTUAL'')]))"

text \<open>The error of a warm-up is the first one that occurred; every key is written once.\<close>

fun warmup :: "'w http \<Rightarrow> string \<Rightarrow> string list \<Rightarrow> 'w \<Rightarrow> bool \<times> 'w" where
  "warmup http target [] w = (True, w)"
| "warmup http target (k # ks) w =
     (case http_do http ''PUT'' target (''/v1/kv/'' @ k) [] (json_payload ''sim-warmup'') w of
        (resp, w1) \<Rightarrow> (case warmup http target ks w1 of (ok, w2) \<Rightarrow> (resp \<noteq> None \<and> ok, w2)))"

definition fire :: "'w http \<Rightarrow> string \<Rightarrow> int \<Rightarrow> string \<Rightarrow> string \<Rightarrow> 'w \<Rightarrow> result \<times> 'w" where
  "fire http target took op key w =
     (if client_url (''/v1/kv/'' @ key) = None then (\<lparr>rLatency = 0, rStatus = 0, rErr = True\<rparr>, w)
      else case (if op = ''PUT'' then http_do http ''PUT'' target (''/v1/kv/'' @ key) [] (json_payload ''sim-payload'') w
                 else http_do http ''GET'' target (''/v1/kv/'' @ key) [] [] w) of
          (None, w') \<Rightarrow> (\<lparr>rLatency = took, rStatus = 0, rErr = True\<rparr>, w')
        | (Some rs, w') \<Rightarrow> (\<lparr>rLatency = took, rStatus = rsStatus rs, rErr = (rsStatus rs \<ge> 500)\<rparr>, w'))"

text \<open>\<^verbatim>\<open>for sent >= 1 { sent-- ... }\<close>: how many requests it fires, and what remains.\<close>

function drain :: "rat \<Rightarrow> nat \<times> rat" where
  "drain sent = (if sent \<ge> 1 then case drain (sent - 1) of (n, rest) \<Rightarrow> (n + 1, rest) else (0, sent))"
  by pat_completeness auto
termination
proof (relation "measure (\<lambda>x. nat \<lfloor>x\<rfloor>)")
  fix sent :: rat
  assume "1 \<le> sent"
  then have "1 \<le> \<lfloor>sent\<rfloor>" by (simp add: le_floor_iff)
  then show "(sent - 1, sent) \<in> measure (\<lambda>x. nat \<lfloor>x\<rfloor>)" by simp
qed simp

declare drain.simps [simp del]

definition tick_seconds :: rat where "tick_seconds = 20 / 1000"

text \<open>The dispatch loop over the elapsed times at which the ticker was received; it gives the number of requests of every tick.\<close>

fun dispatch :: "Scenario \<Rightarrow> int list \<Rightarrow> rat \<Rightarrow> nat list" where
  "dispatch s [] sent = []"
| "dispatch s (elapsed # ts) sent =
     (if elapsed > TotalDuration s then []
      else case drain (sent + TargetRPS s elapsed * tick_seconds) of (n, rest) \<Rightarrow> n # dispatch s ts rest)"

record Report =
  rpScenario :: string
  rpTopology :: string
  rpStartedAt :: time
  rpDurationMS :: int
  rpTotalRequests :: nat
  rpErrorCount :: nat
  rpErrorRate :: rat
  rpAchievedRPS :: rat
  rpLatencyP50Ms :: rat
  rpLatencyP95Ms :: rat
  rpLatencyP99Ms :: rat
  rpLatencyMaxMs :: rat
  rpStatusCounts :: "(string \<times> nat) list"
  rpNotes :: "string list"

definition latency_ms :: "int \<Rightarrow> rat" where
  "latency_ms l = of_int (sgn l * (\<bar>l\<bar> div 1000)) / 1000"

definition percentile :: "int list \<Rightarrow> rat \<Rightarrow> rat" where
  "percentile sorted' p =
     (if sorted' = [] then 0
      else let idx = nat \<lfloor>p * of_nat (length sorted')\<rfloor>;
               idx' = (if idx \<ge> length sorted' then length sorted' - 1 else idx)
           in latency_ms (sorted' ! idx'))"

definition count_status :: "result \<Rightarrow> (string \<times> nat) list \<Rightarrow> (string \<times> nat) list" where
  "count_status r m =
     (let k = (if rErr r then ''error'' else print_nat (rStatus r))
      in AList.update k ((case map_of m k of None \<Rightarrow> 0 | Some n \<Rightarrow> n) + 1) m)"

definition ok_latencies :: "result list \<Rightarrow> int list" where
  "ok_latencies results = sort (map rLatency (filter (\<lambda>r. \<not> rErr r) results))"

definition buildReport :: "Scenario \<Rightarrow> string \<Rightarrow> time \<Rightarrow> int \<Rightarrow> result list \<Rightarrow> string list \<Rightarrow> Report" where
  "buildReport s topology start duration results notes =
     (let ls = ok_latencies results; errs = length (filter rErr results); n = length results
      in \<lparr>rpScenario = scName s, rpTopology = topology, rpStartedAt = start, rpDurationMS = sgn duration * (\<bar>duration\<bar> div 1000000),
          rpTotalRequests = n, rpErrorCount = errs,
          rpErrorRate = (if n > 0 then of_nat errs / of_nat n else 0),
          rpAchievedRPS = (if n > 0 then of_nat n / Seconds duration else 0),
          rpLatencyP50Ms = (if ls \<noteq> [] then percentile ls (50 / 100) else 0),
          rpLatencyP95Ms = (if ls \<noteq> [] then percentile ls (95 / 100) else 0),
          rpLatencyP99Ms = (if ls \<noteq> [] then percentile ls (99 / 100) else 0),
          rpLatencyMaxMs = (if ls \<noteq> [] then latency_ms (last ls) else 0),
          rpStatusCounts = fold count_status results [], rpNotes = notes\<rparr>)"

section \<open>Commands\<close>

text \<open>\<^verbatim>\<open>killCurrentLeader\<close>: the note, or \<open>None\<close> for an error.\<close>

definition killCurrentLeader :: "'w http \<Rightarrow> string \<Rightarrow> string \<Rightarrow> 'w \<Rightarrow> string option \<times> 'w" where
  "killCurrentLeader http target token w =
     (case http_do http ''GET'' target ''/v1/cluster'' [] [] w of
        (None, w1) \<Rightarrow> (None, w1)
      | (Some rs, w1) \<Rightarrow>
         (case Option.bind (decode_first (Some (rsBody rs))) (field_text ''leader_id'') of
            None \<Rightarrow> (None, w1)
          | Some leader \<Rightarrow>
              if leader = '''' then (None, w1)
              else case http_do http ''POST'' target (''/v1/admin/'' @ leader @ ''/kill'') (header_set ''Authorization'' (''Bearer '' @ token) []) [] w1 of
                  (None, w2) \<Rightarrow> (None, w2)
                | (Some rs2, w2) \<Rightarrow> (if rsStatus rs2 \<noteq> 202 then None else Some (''killed leader '' @ leader), w2)))"

definition suffixPath :: "string \<Rightarrow> string \<Rightarrow> string" where
  "suffixPath path suffix' =
     (if CHR ''.'' \<in> set path
      then let ext = takeWhile (\<lambda>c. c \<noteq> CHR ''.'') (rev path); base = take (length path - length ext - 1) path
           in base @ ''-'' @ suffix' @ ''.'' @ rev ext
      else path @ ''-'' @ suffix')"

text \<open>\<^verbatim>\<open>postEvent\<close> of the ingestion service: whether the event was created.\<close>

definition postEvent :: "'w http \<Rightarrow> string \<Rightarrow> Event \<Rightarrow> 'w \<Rightarrow> bool \<times> 'w" where
  "postEvent http target e w =
     (case encode_event e of
        None \<Rightarrow> (False, w)
      | Some j \<Rightarrow>
         (case http_do http ''POST'' target ''/v1/events'' (header_set ''Content-Type'' ''application/json'' []) (str_bytes (json_print j)) w of
            (None, w') \<Rightarrow> (False, w')
          | (Some rs, w') \<Rightarrow> (rsStatus rs = 201, w')))"

text \<open>A round posts every event, whatever happened to the ones before.\<close>

fun post_all :: "'w http \<Rightarrow> string \<Rightarrow> Event list \<Rightarrow> 'w \<Rightarrow> bool list \<times> 'w" where
  "post_all http target [] w = ([], w)"
| "post_all http target (e # es) w =
     (case postEvent http target e w of (ok, w1) \<Rightarrow> (case post_all http target es w1 of (oks, w2) \<Rightarrow> (ok # oks, w2)))"

definition runOnce :: "'w http \<Rightarrow> string \<Rightarrow> (nat \<Rightarrow> time \<times> bytes) \<Rightarrow> EventSource \<Rightarrow> 'w \<Rightarrow> bool list option \<times> 'w" where
  "runOnce http target env source w =
     (case FetchAndNormalize env source of
        None \<Rightarrow> (None, w)
      | Some es \<Rightarrow> (case post_all http target es w of (oks, w') \<Rightarrow> (Some oks, w')))"

section \<open>Properties\<close>

text \<open>The warm-up writes every key a request can ask for.\<close>

lemma warmup_covers:
  assumes "pickKey s roll intn = Some k" and "\<forall>n > 0. 0 \<le> intn n \<and> intn n < n"
  shows "k \<in> set (allKeys s)"
  using assms by (auto simp: pickKey_def allKeys_def split: if_splits)

text \<open>The curve stays between the baseline and the peak.\<close>

lemma between_convex:
  fixes a b f :: rat
  assumes "0 \<le> f" "f \<le> 1" "a \<le> b"
  shows "a \<le> a + f * (b - a)" "a + f * (b - a) \<le> b" "a \<le> b - f * (b - a)" "b - f * (b - a) \<le> b"
proof -
  have "0 \<le> f * (b - a)" "f * (b - a) \<le> 1 * (b - a)" using assms by (simp, intro mult_right_mono) auto
  then show "a \<le> a + f * (b - a)" "a + f * (b - a) \<le> b" "a \<le> b - f * (b - a)" "b - f * (b - a) \<le> b" by auto
qed

lemma TargetRPS_between:
  assumes "BaselineRPS s \<le> PeakRPS s"
  shows "BaselineRPS s \<le> TargetRPS s t" and "TargetRPS s t \<le> PeakRPS s"
proof -
  have up: "0 \<le> (of_int t :: rat) / of_int (RampUp s) \<and> (of_int t :: rat) / of_int (RampUp s) \<le> 1" if "0 \<le> t" "t < RampUp s"
    using that by (simp add: divide_le_eq_1)
  let ?d = "t - RampUp s - PeakDuration s"
  have down: "0 \<le> (of_int ?d :: rat) / of_int (RampDown s) \<and> (of_int ?d :: rat) / of_int (RampDown s) \<le> 1"
    if "\<not> t < RampUp s + PeakDuration s" "t < TotalDuration s" "\<not> RampDown s \<le> 0"
  proof -
    have "0 \<le> ?d" "?d \<le> RampDown s" using that by (simp_all add: TotalDuration_def)
    then have "(0 :: rat) \<le> of_int ?d" "(of_int ?d :: rat) \<le> of_int (RampDown s)" by (simp_all only: of_int_0_le_iff of_int_le_iff)
    then show ?thesis using that(3) by (simp only: divide_nonneg_pos divide_le_eq_1) simp
  qed
  have "TargetRPS s t = BaselineRPS s \<or> TargetRPS s t = PeakRPS s
    \<or> (\<exists>f. 0 \<le> f \<and> f \<le> 1 \<and> (TargetRPS s t = BaselineRPS s + f * (PeakRPS s - BaselineRPS s) \<or> TargetRPS s t = PeakRPS s - f * (PeakRPS s - BaselineRPS s)))"
  proof (cases "0 \<le> t \<and> t < RampUp s")
    case True
    then have "TargetRPS s t = BaselineRPS s + of_int t / of_int (RampUp s) * (PeakRPS s - BaselineRPS s)" by (simp add: TargetRPS_def)
    then show ?thesis using up True by blast
  next
    case ramp: False
    show ?thesis
    proof (cases "\<not> t < 0 \<and> \<not> t < RampUp s + PeakDuration s \<and> t < TotalDuration s \<and> \<not> RampDown s \<le> 0")
      case True
      then have "TargetRPS s t = PeakRPS s - of_int ?d / of_int (RampDown s) * (PeakRPS s - BaselineRPS s)"
        unfolding TargetRPS_def using ramp by simp
      then show ?thesis using down True by blast
    qed (use ramp in \<open>auto simp: TargetRPS_def\<close>)
  qed
  then show "BaselineRPS s \<le> TargetRPS s t" and "TargetRPS s t \<le> PeakRPS s" using assms between_convex [OF _ _ assms] by auto
qed

text \<open>The inner loop fires the whole part of what is due; over a run the requests fired are the whole part of the sum of the ticks.\<close>

lemma drain_floor: "0 \<le> x \<Longrightarrow> drain x = (nat \<lfloor>x\<rfloor>, x - of_int \<lfloor>x\<rfloor>)"
proof (induction x rule: drain.induct)
  case (1 x)
  show ?case
  proof (cases "x \<ge> 1")
    case True
    then have "1 \<le> \<lfloor>x\<rfloor>" by (simp add: le_floor_iff)
    moreover have "drain (x - 1) = (nat \<lfloor>x - 1\<rfloor>, x - 1 - of_int \<lfloor>x - 1\<rfloor>)" using "1.IH" True by simp
    moreover have "Suc (nat (\<lfloor>x\<rfloor> - 1)) = nat \<lfloor>x\<rfloor>" using \<open>1 \<le> \<lfloor>x\<rfloor>\<close> by arith
    ultimately show ?thesis using True by (simp add: drain.simps [of x])
  next
    case False
    then have "\<lfloor>x\<rfloor> = 0" using "1.prems" by (simp add: floor_eq_iff)
    then show ?thesis using False by (simp add: drain.simps [of x])
  qed
qed

lemma dispatch_total:
  assumes "0 \<le> BaselineRPS s" "BaselineRPS s \<le> PeakRPS s" "list_all (\<lambda>t. t \<le> TotalDuration s) ts" "0 \<le> sent"
  shows "sum_list (dispatch s ts sent) = nat \<lfloor>sent + (\<Sum>t \<leftarrow> ts. TargetRPS s t * tick_seconds)\<rfloor> - (if ts = [] then nat \<lfloor>sent\<rfloor> else 0)"
  using assms(3,4)
proof (induction ts arbitrary: sent)
  case (Cons t ts)
  let ?x = "sent + TargetRPS s t * tick_seconds"
  have r: "0 \<le> TargetRPS s u * tick_seconds" for u
    using TargetRPS_between(1) [OF assms(2), of u] assms(1) by (simp add: tick_seconds_def)
  have x: "0 \<le> ?x" using Cons.prems(2) r [of t] by simp
  let ?S = "\<Sum>t \<leftarrow> ts. TargetRPS s t * tick_seconds"
  have S: "0 \<le> ?S" by (rule sum_list_nonneg) (use r in auto)
  have f: "0 \<le> ?x - of_int \<lfloor>?x\<rfloor>" by (simp add: of_int_floor_le)
  have fl: "\<lfloor>?x - of_int \<lfloor>?x\<rfloor>\<rfloor> = 0" by simp
  have "sum_list (dispatch s ts (?x - of_int \<lfloor>?x\<rfloor>)) = nat \<lfloor>?x - of_int \<lfloor>?x\<rfloor> + ?S\<rfloor>"
    using Cons.IH [of "?x - of_int \<lfloor>?x\<rfloor>"] Cons.prems(1) f fl by (simp split: if_splits)
  moreover have "?x - of_int \<lfloor>?x\<rfloor> + ?S = ?x + ?S - of_int \<lfloor>?x\<rfloor>" by simp
  moreover have "\<lfloor>?x + ?S - of_int \<lfloor>?x\<rfloor>\<rfloor> = \<lfloor>?x + ?S\<rfloor> - \<lfloor>?x\<rfloor>" by (rule floor_diff_of_int)
  moreover have "0 \<le> \<lfloor>?x\<rfloor>" "\<lfloor>?x\<rfloor> \<le> \<lfloor>?x + ?S\<rfloor>" using x S by (simp_all add: floor_mono)
  ultimately have "sum_list (dispatch s (t # ts) sent) = nat \<lfloor>?x\<rfloor> + nat (\<lfloor>?x + ?S\<rfloor> - \<lfloor>?x\<rfloor>)"
    using Cons.prems(1) by (simp add: drain_floor [OF x])
  also have "\<dots> = nat \<lfloor>?x + ?S\<rfloor>" using \<open>0 \<le> \<lfloor>?x\<rfloor>\<close> \<open>\<lfloor>?x\<rfloor> \<le> \<lfloor>?x + ?S\<rfloor>\<close> by arith
  finally show ?case by (simp add: add.assoc)
qed simp

text \<open>The percentiles of a report are in order.\<close>

lemma latency_ms_mono: "0 \<le> a \<Longrightarrow> a \<le> b \<Longrightarrow> latency_ms a \<le> latency_ms b"
  by (cases "a = 0"; cases "b = 0") (auto simp: latency_ms_def zdiv_mono1 intro!: divide_right_mono)

lemma percentile_mono:
  assumes "sorted ls" "\<forall>l \<in> set ls. 0 \<le> l" "p \<le> q"
  shows "percentile ls p \<le> percentile ls q" and "ls \<noteq> [] \<Longrightarrow> percentile ls q \<le> latency_ms (last ls)"
proof -
  have i: "nat \<lfloor>p * of_nat (length ls)\<rfloor> \<le> nat \<lfloor>q * of_nat (length ls)\<rfloor>"
    using assms(3) by (intro nat_mono floor_mono mult_right_mono) auto
  have nth: "latency_ms (ls ! j) \<le> latency_ms (ls ! k)" if "j \<le> k" "k < length ls" for j k
    using that assms(1,2) by (intro latency_ms_mono) (auto simp: sorted_iff_nth_mono)
  show "percentile ls p \<le> percentile ls q"
    using i nth by (cases "ls = []") (auto simp: percentile_def Let_def)
  show "percentile ls q \<le> latency_ms (last ls)" if "ls \<noteq> []"
    using nth that by (auto simp: percentile_def Let_def last_conv_nth)
qed

lemma report_percentiles:
  assumes "\<forall>r \<in> set results. 0 \<le> rLatency r" and rp_def: "rp = buildReport s topology start duration results notes"
  shows "rpLatencyP50Ms rp \<le> rpLatencyP95Ms rp" "rpLatencyP95Ms rp \<le> rpLatencyP99Ms rp" "rpLatencyP99Ms rp \<le> rpLatencyMaxMs rp"
proof -
  have l: "sorted (ok_latencies results)" "\<forall>l \<in> set (ok_latencies results). 0 \<le> l" using assms(1) by (auto simp: ok_latencies_def)
  note m = percentile_mono [OF l]
  show "rpLatencyP50Ms rp \<le> rpLatencyP95Ms rp" "rpLatencyP95Ms rp \<le> rpLatencyP99Ms rp" "rpLatencyP99Ms rp \<le> rpLatencyMaxMs rp"
    using m(1) [of "50 / 100" "95 / 100"] m(1) [of "95 / 100" "99 / 100"] m(2) [of "99 / 100" "99 / 100"]
    by (simp_all add: rp_def buildReport_def Let_def)
qed

end
