(* ===== verification/Spec2Isabelle.thy ===== *)
theory Spec2Isabelle
  imports Lsm_Props Raft_Catch_Up File_Props Election_Props Lru Rate_Limit Workload State_Props Rpc Events Config Simulator
begin

text \<open>
  A verification of BoilerPulse, a replicated key-value store for campus events, written in Go.

  \<^bold>\<open>The program.\<close>  A \<^emph>\<open>node\<close> (\<^verbatim>\<open>cmd/node\<close>) serves an HTTP API over a log-structured storage engine.  With peers
  configured, writes go through a Raft log that is stored in its own files, replicated over gRPC and
  applied to the engine by a state machine.  A \<^emph>\<open>gateway\<close> (\<^verbatim>\<open>cmd/gateway\<close>) finds the leader, proxies writes to
  it and reads to all nodes, keeps an LRU cache of reads, limits the rate of clients, watches the
  workload and predicts traffic.  An \<^emph>\<open>admin server\<close> on each node injects faults.  The \<^emph>\<open>ingest\<close> command posts
  normalised events, and the \<^emph>\<open>simulator\<close> generates load and reports latencies.

  \<^bold>\<open>Conventions.\<close>  A struct is a record, a goroutine's locked section is a function from the state to the
  new state, an RPC is split around the call.  \<^typ>\<open>8 word list\<close> is a byte slice, \<^typ>\<open>string\<close> a Go string.
  Unsigned 64-bit integers are natural numbers with \<open>u64\<close> written where the code can wrap, signed ones
  integers with \<open>s64\<close>.  Times are nanoseconds since 1970 and an argument of every operation that reads the
  clock; random choices are arguments too.  \<^verbatim>\<open>float64\<close> is exact rational arithmetic: rounding is not
  modelled.  A panic is \<open>None\<close>, an error a value.

  \<^bold>\<open>Theories and sources\<close> (paths under \<^verbatim>\<open>src/\<close>).

  \<^item> \<open>Prelude\<close>: shared lemmas and types.  \<open>Crc32\<close>, \<open>Json\<close>, \<open>Rfc3339\<close>, \<open>Http\<close>, \<open>Disk\<close> model what the code uses of
    the standard library: the checksum, JSON text, time stamps, URLs and the request multiplexer, and a
    disk whose operations take their outcome (success, failure, a torn write, the end of the process) from
    a fault schedule.
  \<^item> \<open>Framing\<close>, \<open>Wal\<close>, \<open>Sstable\<close>: \<^verbatim>\<open>internal/storage/wal\<close> and \<^verbatim>\<open>internal/storage/sstable\<close>.  The locale \<open>framed_log\<close>
    carries the replay of a log that was cut at any byte, for the engine's log and for the Raft log.
  \<^item> \<open>Storage_Engine\<close>: \<^verbatim>\<open>internal/storage/storage.go\<close> and \<^verbatim>\<open>memstore.go\<close>; the locale \<open>kv_engine\<close> is the \<^verbatim>\<open>Engine\<close>
    interface, interpreted for the in-memory store and the LSM engine.
  \<^item> \<open>Lsm\<close>, \<open>Lsm_Files\<close>, \<open>Lsm_Correct\<close>, \<open>Lsm_Engine\<close>, \<open>Lsm_Crash\<close>, \<open>Engine_Refinement\<close>, \<open>Lsm_Props\<close>:
    \<^verbatim>\<open>internal/storage/lsm\<close>.  The write loop, flush, compaction and recovery keep \<open>lsm_inv\<close>; the engine refines
    the in-memory store; a crash at any instant loses nothing that was acknowledged.  One exception is
    proved: writes acknowledged after recovery from a torn log are lost at the next start.
  \<^item> \<open>Raft_Types\<close>, \<open>Raft_Node\<close>, \<open>Raft_Log\<close>, \<open>Raft_Props\<close>: \<^verbatim>\<open>internal/raft\<close>.  \<open>log_ok\<close> is the representation invariant.
    The handlers never panic under it, the commit rule computes what it should, entries are applied in
    order; two situations that go wrong are proved.
  \<^item> \<open>Raft_Catch_Up\<close>: the replication loop against a peer over a lossy network.  It terminates its work after
    at most \<open>next + (length + 63) div 64 + 1\<close> delivered rounds.  Both nodes are uncompacted there, and Log
    Matching is an assumption.
  \<^item> \<open>Raft_Cluster\<close>, \<open>Raft_Election\<close>, \<open>Election_Props\<close>: a cluster as a step relation (ticks, votes, replies, lost and
    repeated messages, crashes and restarts), and Election Safety by rule induction over the file storage,
    through the locale \<open>vote_storage\<close>.
  \<^item> \<open>File_Storage\<close>, \<open>File_Props\<close>: \<^verbatim>\<open>internal/raft/filestorage.go\<close>, with the position of the file handle.
  \<^item> \<open>State_Machine\<close>, \<open>State_Props\<close>: \<^verbatim>\<open>internal/storage/command.go\<close>, \<^verbatim>\<open>statemachine.go\<close>: from the committed log through
    \<^verbatim>\<open>applyPending\<close> to the engine, snapshots and replay.
  \<^item> \<open>Rpc\<close>: \<^verbatim>\<open>internal/raft/rpc\<close>, with the messages of \<^verbatim>\<open>pkg/protocol/raftpb\<close>.
  \<^item> \<open>Events\<close>, \<open>Event_Json\<close>: \<^verbatim>\<open>internal/events\<close>.  \<open>Metrics\<close>: \<^verbatim>\<open>internal/metrics\<close>.
  \<^item> \<open>Api\<close>, \<open>Api_Props\<close>: \<^verbatim>\<open>internal/api\<close>, the whole path from the request to the engine or to the proposal.
  \<^item> \<open>Lru\<close>, \<open>Rate_Limit\<close>, \<open>Workload\<close>, \<open>Prediction\<close>: \<^verbatim>\<open>internal/cache\<close>, \<^verbatim>\<open>internal/gateway/ratelimit.go\<close>,
    \<^verbatim>\<open>internal/workload\<close>, \<^verbatim>\<open>internal/prediction\<close>.
  \<^item> \<open>Gateway\<close>, \<open>Gateway_Props\<close>: \<^verbatim>\<open>internal/gateway\<close>.  The nodes behind it are a function from a request and the
    state of the world to an answer.  The cache is the locale \<open>read_cache\<close>.
  \<^item> \<open>Admin\<close>: \<^verbatim>\<open>internal/admin\<close>.  \<open>Config\<close>: \<^verbatim>\<open>internal/config\<close>, \<^verbatim>\<open>internal/logging\<close> and how \<^verbatim>\<open>cmd/node\<close> and \<^verbatim>\<open>cmd/gateway\<close> put
    the servers together.  \<open>Simulator\<close>: \<^verbatim>\<open>simulator\<close>, \<^verbatim>\<open>cmd/simulator\<close>, \<^verbatim>\<open>cmd/ingest\<close>.

  \<^bold>\<open>Bounds and fuel.\<close>  The JSON parser runs on the length of its text as fuel, which is enough since every value
  takes a character.  All other recursion is structural or has a termination proof.  \<open>lsm_fits_put\<close> and its
  companions bound table numbers by the six digits of a file name and sizes by the widths of the on-disk
  fields; \<open>log_ok\<close> keeps indices below the 64 bits of the code.

  \<^bold>\<open>Not modelled.\<close>  The generated gRPC stubs, the wire of gRPC and the Prometheus client with its exposition
  format, Go collectors and latency histogram are code outside the repository or generated.  Opening
  sockets, the \<^verbatim>\<open>.env\<close> file, command-line flags, signals, log output, printing of reports and the shutdown of
  loops and handles (\<^verbatim>\<open>Stop\<close>, \<^verbatim>\<open>Close\<close>) are I/O; the ticker loops only repeat the operations that are modelled.
  The interleaving of goroutines inside one locked section does not exist; between sections it is
  explicit in the Raft cluster and in the queue of the write loop, and is not modelled for the
  concurrent requests of a gateway or a simulator, which are handled one after the other. The web
  frontend only displays what the gateway answers.
\<close>

end
